(* ===== verification/Prelude.thy ===== *)
theory Prelude
  imports Main "HOL-Library.Word"
begin

text \<open>
  Shared vocabulary of the development: the machine integers of a 64-bit Go target, the result
  of a Go call that may panic, Go slices over arena memory, and the lemmas on words, lists and
  alignment that the component theories rest on.

  \<^item> A Go \<^verbatim>\<open>int\<close> (and \<^verbatim>\<open>int64\<close>) is a HOL \<open>int\<close>; every arithmetic operation of the source whose
    result may leave the 64-bit range goes through \<open>go_int\<close>, the two's-complement wrap.
  \<^item> \<^verbatim>\<open>uint64\<close>, \<^verbatim>\<open>uintptr\<close>, \<^verbatim>\<open>uint32\<close> and \<^verbatim>\<open>byte\<close> are words of that width.
  \<^item> A call that may panic returns \<open>'a go\<close>; a Go error is the left side of a sum.
\<close>

unbundle bit_operations_syntax

type_synonym u8 = "8 word"
type_synonym u16 = "16 word"
type_synonym u32 = "32 word"
type_synonym u64 = "64 word"

section \<open>Lemma collections\<close>

named_theorems go_simps \<open>unfolding rules of the small Go helpers\<close>
named_theorems inv_intros \<open>preservation of a component invariant by its operations\<close>

section \<open>Go integers\<close>

definition go_int :: "int \<Rightarrow> int" where
  "go_int x = signed_take_bit 63 x"

definition in_int64 :: "int \<Rightarrow> bool" where
  "in_int64 x \<longleftrightarrow> - (2 ^ 63) \<le> x \<and> x < 2 ^ 63"

lemma go_int_id [simp]: "in_int64 x \<Longrightarrow> go_int x = x"
  by (simp add: go_int_def in_int64_def signed_take_bit_int_eq_self)

lemma in_int64_go_int [simp]: "in_int64 (go_int x)"
  unfolding go_int_def in_int64_def
  using signed_take_bit_int_greater_eq_minus_exp [of 63 x] signed_take_bit_int_less_exp [of 63 x]
  by blast

lemma in_int64_of_nat [simp]: "n < 2 ^ 63 \<Longrightarrow> in_int64 (int n)"
  by (simp add: in_int64_def)

lemma go_int_nonneg: "0 \<le> x \<Longrightarrow> x < 2 ^ 63 \<Longrightarrow> go_int x = x"
  by (simp add: in_int64_def)

section \<open>Powers of two and alignment\<close>

lemma and_pred_zero_imp_power2:
  fixes v :: int
  assumes "0 < v" "v AND (v - 1) = 0"
  shows "\<exists>k. v = 2 ^ k"
  using assms
proof (induction "nat v" arbitrary: v rule: less_induct)
  case less
  show ?case
  proof (cases "even v")
    case True
    then obtain w where w: "v = 2 * w" by blast
    have "0 < w" using less.prems(1) w by simp
    have d: "(2 * w - 1) div 2 = w - 1" by presburger
    then have "2 * (w AND (w - 1)) = v AND (v - 1)"
      using w by (simp add: and_rec [of "2 * w" "2 * w - 1"] d)
    then have "w AND (w - 1) = 0" using less.prems(2) by simp
    with less.hyps [of w] \<open>0 < w\<close> w obtain k where "w = 2 ^ k" by auto
    then show ?thesis using w by (intro exI [of _ "Suc k"]) simp
  next
    case False
    then obtain w where w: "v = 2 * w + 1" by (auto elim: oddE)
    then have "v AND (v - 1) = 2 * w" by (simp add: and_rec [of "2 * w + 1" "2 * w"])
    then have "w = 0" using less.prems(2) by simp
    then show ?thesis using w by (intro exI [of _ 0]) simp
  qed
qed

lemma power2_and_pred: "(2::int) ^ k AND (2 ^ k - 1) = 0"
proof -
  have "(2::int) ^ k AND (2 ^ k - 1) = 2 ^ k AND mask k" by (simp add: mask_eq_exp_minus_1)
  also have "\<dots> = take_bit k (2 ^ k)" by (simp add: take_bit_eq_mask)
  finally show ?thesis by simp
qed

definition align_up :: "nat \<Rightarrow> nat \<Rightarrow> nat" where
  "align_up m x = (x + m - 1) div m * m"

lemma align_up_dvd [simp]: "m dvd align_up m x"
  by (simp add: align_up_def)

lemma align_up_ge: "0 < m \<Longrightarrow> x \<le> align_up m x"
  unfolding align_up_def
  using div_mult_mod_eq [of "x + m - 1" m] mod_less_divisor [of m "x + m - 1"] by linarith

lemma align_up_less: "0 < m \<Longrightarrow> align_up m x < x + m"
  unfolding align_up_def
  using div_mult_mod_eq [of "x + m - 1" m] by linarith

lemma align_up_least:
  assumes "0 < m" "m dvd y" "x \<le> y"
  shows "align_up m x \<le> y"
proof -
  obtain q where q: "y = q * m" using assms(2) by (metis dvdE mult.commute)
  have "(x + m - 1) div m \<le> q"
    using assms(1,3) q by (simp add: div_le_mono less_mult_imp_div_less less_Suc_eq_le flip: less_Suc_eq_le)
  then show ?thesis by (simp add: align_up_def q)
qed

lemma align_up_1 [simp]: "align_up 1 x = x" "align_up (Suc 0) x = x"
  by (simp_all add: align_up_def)

lemma unat_word_of_int: "0 \<le> n \<Longrightarrow> n < 2 ^ 64 \<Longrightarrow> unat (word_of_int n :: u64) = nat n"
  by (simp add: unsigned_of_int take_bit_int_eq_self)

lemma unat_word_of_nat: "n < 2 ^ 64 \<Longrightarrow> unat (word_of_nat n :: u64) = n"
  by (simp add: unsigned_of_nat take_bit_nat_eq_self)

lemma unat_add_small: "unat (x::u64) + unat y < 2 ^ 64 \<Longrightarrow> unat (x + y) = unat x + unat y"
  by (simp add: unat_word_ariths)

lemma unat_drop_bit_div: "unat (drop_bit n (w::'a::len word)) = unat w div 2 ^ n"
proof -
  have "unat w < 2 ^ LENGTH('a)" by (rule unsigned_less)
  then show ?thesis by (simp only: unsigned_drop_bit_eq) (simp add: drop_bit_eq_div take_bit_nat_eq_self)
qed

lemma unat_take_bit_mod: "unat (take_bit n (w::'a::len word)) = unat w mod 2 ^ n"
  by (simp only: unsigned_take_bit_eq) (simp add: take_bit_eq_mod)

lemma unat_push_bit_mod: "unat (push_bit n (w::'a::len word)) = unat w * 2 ^ n mod 2 ^ LENGTH('a)"
  by (simp only: unsigned_push_bit_eq) (simp add: push_bit_eq_mult take_bit_eq_mod)

lemma unat_eqI: "unat (v::'a::len word) = unat w \<Longrightarrow> v = w"
  by (rule unsigned_word_eqI [where ?'a = nat])

lemma unat_and_not_mask:
  fixes y :: u64
  shows "unat (y AND NOT (mask k)) = unat y div 2 ^ k * 2 ^ k"
proof -
  have "y AND NOT (mask k) = y - (y AND mask k)"
  proof -
    have "y - (y AND mask k) = y AND NOT (y AND mask k)"
      by (rule disjunctive_diff_eq_and_not) (auto intro: bit_eqI simp: bit_simps)
    then show ?thesis by (auto intro: bit_eqI simp: bit_simps)
  qed
  also have "y AND mask k = take_bit k y" by (simp add: take_bit_eq_mask)
  finally have "unat (y AND NOT (mask k)) = unat y - unat (take_bit k y)"
    by (metis unat_sub word_and_le2 word_sub_le_iff)
  then show ?thesis
    by (simp only: unsigned_take_bit_eq) (simp add: take_bit_eq_mod minus_mod_eq_div_mult)
qed

lemma unat_align_mask:
  fixes x :: u64
  assumes "k < 64" "unat x + 2 ^ k \<le> 2 ^ 64"
  shows "unat ((x + mask k) AND NOT (mask k)) = align_up (2 ^ k) (unat x)"
proof -
  have m: "unat (mask k :: u64) = 2 ^ k - 1"
  proof -
    have "(2::nat) ^ k < 2 ^ 64" using assms(1) by (intro power_strict_increasing) auto
    moreover have "(mask k :: u64) = word_of_nat (2 ^ k - 1)"
      by (simp add: mask_eq_exp_minus_1 of_nat_diff)
    ultimately show ?thesis
      by (simp only: unat_word_of_nat [OF less_imp_diff_less [of "2 ^ k" "2 ^ 64" 1]])
  qed
  have p: "(1::nat) \<le> 2 ^ k" by simp
  have "unat (x + mask k) = unat x + (2 ^ k - 1)"
    using assms(2) p by (subst unat_word_ariths) (simp add: m)
  then show ?thesis
    using p by (simp add: unat_and_not_mask align_up_def)
qed

lemma sint_small: "unat (w::u64) < 2 ^ 63 \<Longrightarrow> sint w = int (unat w)"
proof -
  assume "unat w < 2 ^ 63"
  then have "int (unat w) < int (2 ^ 63)" by (simp only: of_nat_less_iff)
  then have "uint w < 2 ^ 63" by (simp only: uint_nat) simp
  then have "signed_take_bit 63 (uint w) = uint w"
    by (intro signed_take_bit_int_eq_self) (auto intro: order_trans [OF _ uint_ge_0])
  then show ?thesis by (simp add: sint_uint)
qed

lemma fold_go_int_sum:
  "0 \<le> tot \<Longrightarrow> tot + int (sum_list (map f cs)) < 2 ^ 63 \<Longrightarrow>
     fold (\<lambda>c t. go_int (t + int (f c))) cs tot = tot + int (sum_list (map f cs))"
proof (induction cs arbitrary: tot)
  case Nil
  then show ?case by simp
next
  case (Cons c cs)
  then have "go_int (tot + int (f c)) = tot + int (f c)" by (intro go_int_nonneg) auto
  with Cons show ?case by simp
qed

lemma int_and_not_mask: "(x::int) AND NOT (2 ^ k - 1) = x div 2 ^ k * 2 ^ k"
proof -
  have "x - (x AND mask k) = x AND NOT (x AND mask k)"
    by (rule disjunctive_diff_eq_and_not) (auto intro: bit_eqI simp: bit_simps)
  also have "\<dots> = x AND NOT (mask k)" by (auto intro: bit_eqI simp: bit_simps)
  finally have "x AND NOT (mask k) = x - take_bit k x" by (simp add: take_bit_eq_mask)
  then show ?thesis by (simp add: mask_eq_exp_minus_1 take_bit_eq_mod minus_mod_eq_div_mult)
qed

lemma go_int_mod: "go_int x = (x + 2 ^ 63) mod 2 ^ 64 - 2 ^ 63"
  by (simp add: go_int_def signed_take_bit_eq_take_bit_shift take_bit_eq_mod)

lemma go_int_add_left: "go_int (go_int y + z) = go_int (y + z)"
  unfolding go_int_mod by (simp add: mod_simps algebra_simps)

lemma go_int_wrap:
  assumes "2 ^ 63 \<le> x" "x < 2 ^ 64"
  shows "go_int x = x - 2 ^ 64"
proof -
  have "(x + 2 ^ 63) mod 2 ^ 64 = (x + 2 ^ 63 - 2 ^ 64) mod 2 ^ 64"
    by (rule minus_mod_self2 [symmetric])
  also have "\<dots> = x + 2 ^ 63 - 2 ^ 64"
    using assms by (intro mod_pos_pos_trivial) auto
  finally show ?thesis by (simp add: go_int_mod)
qed

section \<open>Results of Go calls\<close>

text \<open>Why a goroutine panicked: an explicit \<^verbatim>\<open>panic\<close> with a message, the text of an OS error
  (by errno), one of the run-time checks, or an access to memory that is no longer mapped.\<close>

datatype panic =
    PanicMsg string
  | PanicErrno nat
  | IndexOutOfRange
  | SliceOutOfRange
  | NilDereference
  | MemoryFault

datatype 'a go = Return 'a | Panic panic

fun is_return :: "'a go \<Rightarrow> bool" where
  "is_return (Return _) = True"
| "is_return (Panic _) = False"

text \<open>The run-time checks of \<^verbatim>\<open>make\<close> for a slice of non-negative length.\<close>

definition maxAlloc :: int where "maxAlloc = 2 ^ 48"

definition makeslice :: "nat \<Rightarrow> int \<Rightarrow> int \<Rightarrow> unit go" where
  "makeslice sz len cap =
     (if int sz * cap > maxAlloc
      then if int sz * len > maxAlloc then Panic (PanicMsg ''makeslice: len out of range'')
           else Panic (PanicMsg ''makeslice: cap out of range'')
      else Return ())"

section \<open>Go slices over arena memory\<close>

text \<open>
  A \<^verbatim>\<open>[]byte\<close> that points into the chunk with index \<open>sl_chunk\<close> of an arena, from byte
  \<open>sl_lo\<close>, with its length and its capacity: the expression \<^verbatim>\<open>c.buf[lo:hi]\<close> has length
  \<open>hi - lo\<close> and capacity \<^verbatim>\<open>cap(c.buf) - lo\<close>.
\<close>

datatype slice = Slice (sl_chunk: nat) (sl_lo: nat) (sl_len: nat) (sl_cap: nat)

definition sl_hi :: "slice \<Rightarrow> nat" where
  "sl_hi s = sl_lo s + sl_len s"

definition region :: "slice \<Rightarrow> (nat \<times> nat) set" where
  "region s = {sl_chunk s} \<times> {sl_lo s ..< sl_hi s}"

lemma mem_region_iff:
  "(i, j) \<in> region s \<longleftrightarrow> i = sl_chunk s \<and> sl_lo s \<le> j \<and> j < sl_lo s + sl_len s"
  by (auto simp: region_def sl_hi_def)

lemma card_region [simp]: "card (region s) = sl_len s"
  by (simp add: region_def sl_hi_def card_cartesian_product)

lemma finite_region [simp]: "finite (region s)"
  by (simp add: region_def)

end
