(* ===== verification/Chunk.thy ===== *)
theory Chunk
  imports Prelude
begin

text \<open>
  The bump-allocated chunk of \<^verbatim>\<open>arena.go\<close>: its state, the two allocation routines
  (\<^verbatim>\<open>tryAlloc\<close>, \<^verbatim>\<open>tryAllocAligned\<close>) with their 64-bit address arithmetic, the OS mapping behind
  \<^verbatim>\<open>newChunk\<close> (\<^verbatim>\<open>arena_unix.go\<close>), and the exact description of what an allocation returns.
  The compare-and-swap loops are modelled here as they run without interference; the theory
  Concurrent_Chunk models the interleaved loads and swaps.
\<close>

section \<open>State\<close>

text \<open>How the chunk's memory is given back: \<^verbatim>\<open>syscall.Munmap\<close> itself, or the closure of the
  guarded variant, which unmaps the captured total size from the first byte on.\<close>

datatype release = Munmap | MunmapTotal int

record chunk =
  ch_buf :: "u8 list"
  ch_base :: u64
  ch_off :: u64
  ch_release :: release

text \<open>The capacity of \<^verbatim>\<open>c.buf\<close>: the guarded mapping is returned as \<^verbatim>\<open>buf[:size]\<close>, so its
  capacity runs to the end of the guard page.\<close>

definition chunk_cap :: "chunk \<Rightarrow> nat" where
  "chunk_cap c = (case ch_release c of Munmap \<Rightarrow> length (ch_buf c) | MunmapTotal t \<Rightarrow> nat t)"

lemma chunk_cap_off [simp]: "chunk_cap (c\<lparr>ch_off := x\<rparr>) = chunk_cap c"
  by (simp add: chunk_cap_def split: release.split)

abbreviation chunk_len :: "chunk \<Rightarrow> nat" where
  "chunk_len c \<equiv> length (ch_buf c)"

section \<open>Operations\<close>

definition isPowerOfTwo :: "int \<Rightarrow> bool" where
  "isPowerOfTwo v \<longleftrightarrow> v > 0 \<and> v AND (v - 1) = 0"

text \<open>\<^verbatim>\<open>c.buf[lo:hi]\<close> is returned as the pair of its bounds.\<close>

definition chunk_tryAlloc :: "chunk \<Rightarrow> int \<Rightarrow> (chunk \<times> nat \<times> nat) option" where
  "chunk_tryAlloc c n =
     (if n \<le> 0 then None
      else let req = (word_of_int n :: u64);
               capacity = (of_nat (chunk_len c) :: u64);
               off = ch_off c;
               hi = off + req
           in if hi < off \<or> hi > capacity then None
              else Some (c\<lparr>ch_off := hi\<rparr>, unat off, unat hi))"

definition chunk_tryAllocAligned :: "chunk \<Rightarrow> int \<Rightarrow> int \<Rightarrow> (chunk \<times> nat \<times> nat) option" where
  "chunk_tryAllocAligned c n align =
     (if n \<le> 0 \<or> \<not> isPowerOfTwo align then None
      else let req = (word_of_int n :: u64);
               mask = (word_of_int (align - 1) :: u64);
               capacity = (of_nat (chunk_len c) :: u64);
               off = ch_off c;
               curAddr = ch_base c + off;
               alignedAddr = (curAddr + mask) AND NOT mask;
               aligned = alignedAddr - ch_base c;
               hi = aligned + req
           in if aligned < off \<or> hi < aligned \<or> hi > capacity then None
              else Some (c\<lparr>ch_off := hi\<rparr>, unat aligned, unat hi))"

text \<open>The choice both \<^verbatim>\<open>allocSlow\<close> loops make: \<^verbatim>\<open>if align > 1\<close> the aligned routine.\<close>

definition chunk_alloc :: "chunk \<Rightarrow> int \<Rightarrow> int \<Rightarrow> (chunk \<times> nat \<times> nat) option" where
  "chunk_alloc c n align =
     (if align > 1 then chunk_tryAllocAligned c n align else chunk_tryAlloc c n)"

section \<open>The operating system\<close>

text \<open>
  What \<^verbatim>\<open>arena_unix.go\<close> uses of the OS: the page size, the outcome of an anonymous
  \<^verbatim>\<open>mmap\<close> of a given length (a base address, or an errno), of the \<^verbatim>\<open>mprotect\<close> of the guard
  page, and of a \<^verbatim>\<open>munmap\<close>. Fresh mappings read as zero. \<^verbatim>\<open>syscall.Mmap\<close> rejects a
  non-positive length with \<open>EINVAL\<close> before it asks the kernel.
\<close>

record os_env =
  os_pagesize :: int
  os_mmap :: "int \<Rightarrow> nat + u64"
  os_mprotect :: "nat option"
  os_munmap :: "u64 \<Rightarrow> int \<Rightarrow> nat option"

definition EINVAL :: nat where "EINVAL = 22"

definition syscall_Mmap :: "os_env \<Rightarrow> int \<Rightarrow> nat + u64" where
  "syscall_Mmap os len = (if len \<le> 0 then Inl EINVAL else os_mmap os len)"

definition allocArenaBuffer :: "os_env \<Rightarrow> int \<Rightarrow> nat + (u8 list \<times> u64 \<times> release)" where
  "allocArenaBuffer os sz =
     (case syscall_Mmap os sz of
        Inl e \<Rightarrow> Inl e
      | Inr b \<Rightarrow> Inr (replicate (nat sz) 0, b, Munmap))"

definition allocArenaBufferWithGuard :: "os_env \<Rightarrow> int \<Rightarrow> nat + (u8 list \<times> u64 \<times> release)" where
  "allocArenaBufferWithGuard os sz =
     (let pageSize = os_pagesize os;
          alignedSize = go_int (go_int (go_int (sz + pageSize) - 1) AND NOT (go_int (pageSize - 1)));
          totalSize = go_int (alignedSize + pageSize)
      in case syscall_Mmap os totalSize of
           Inl e \<Rightarrow> Inl e
         | Inr b \<Rightarrow>
             (case os_mprotect os of
                Some e \<Rightarrow> Inl e
              | None \<Rightarrow> Inr (replicate (nat sz) 0, b, MunmapTotal totalSize)))"

definition newChunk :: "os_env \<Rightarrow> int \<Rightarrow> bool \<Rightarrow> nat + chunk" where
  "newChunk os sz guardPages =
     (case (if guardPages then allocArenaBufferWithGuard os sz else allocArenaBuffer os sz) of
        Inl e \<Rightarrow> Inl e
      | Inr (buf, b, rel) \<Rightarrow>
          Inr \<lparr>ch_buf = buf, ch_base = b, ch_off = 0, ch_release = rel\<rparr>)"

text \<open>\<^verbatim>\<open>c.release(c.buf)\<close>: the errno of a failed unmapping, if any.\<close>

definition chunk_release :: "os_env \<Rightarrow> chunk \<Rightarrow> nat option" where
  "chunk_release os c =
     (case ch_release c of
        Munmap \<Rightarrow> os_munmap os (ch_base c) (int (chunk_len c))
      | MunmapTotal sz \<Rightarrow> os_munmap os (ch_base c) sz)"

section \<open>What an allocation returns\<close>

lemma isPowerOfTwo_iff: "isPowerOfTwo v \<longleftrightarrow> (\<exists>k. v = 2 ^ k)"
  using and_pred_zero_imp_power2 power2_and_pred by (auto simp: isPowerOfTwo_def)

text \<open>
  A live chunk: non-empty, inside the 47-bit user address space, and with its offset inside the
  buffer.
\<close>

definition chunk_ok :: "chunk \<Rightarrow> bool" where
  "chunk_ok c \<longleftrightarrow>
     0 < chunk_len c \<and> unat (ch_base c) + chunk_len c \<le> 2 ^ 47 \<and> unat (ch_off c) \<le> chunk_len c"

text \<open>The first offset at or after the current one whose address is a multiple of the
  alignment.\<close>

definition alloc_pos :: "chunk \<Rightarrow> int \<Rightarrow> nat" where
  "alloc_pos c align = align_up (nat align) (unat (ch_base c) + unat (ch_off c)) - unat (ch_base c)"

lemma alloc_pos_1 [simp]: "alloc_pos c 1 = unat (ch_off c)"
  by (simp add: alloc_pos_def)

lemma chunk_tryAlloc_eq:
  assumes "chunk_ok c" "0 < n" "n < 2 ^ 63"
  shows "chunk_tryAlloc c n =
    (if unat (ch_off c) + nat n \<le> chunk_len c
     then Some (c\<lparr>ch_off := of_nat (unat (ch_off c) + nat n)\<rparr>, unat (ch_off c), unat (ch_off c) + nat n)
     else None)"
proof -
  have r: "unat (word_of_int n :: u64) = nat n"
    using assms by (intro unat_word_of_int) auto
  have len: "chunk_len c < 2 ^ 48" "unat (ch_off c) < 2 ^ 48" using assms(1) by (auto simp: chunk_ok_def)
  have l: "unat (of_nat (chunk_len c) :: u64) = chunk_len c" 
    using len by (intro unat_word_of_nat) auto
  have a: "unat (ch_off c + word_of_int n) = unat (ch_off c) + nat n"
    using unat_add_small [of "ch_off c" "word_of_int n"] r len assms(2,3) by (simp add: nat_less_iff)
  have e: "ch_off c + word_of_int n = of_nat (unat (ch_off c) + nat n)"
    by (simp only: a [symmetric]) simp
  show ?thesis
    using assms(2) by (auto simp: chunk_tryAlloc_def Let_def word_less_nat_alt word_le_nat_alt a l e [symmetric])
qed

text \<open>The aligned offset, as the code computes it on 64-bit addresses.\<close>

lemma aligned_off:
  assumes "chunk_ok c" "isPowerOfTwo align" "align < 2 ^ 63"
  shows "unat (((ch_base c + ch_off c + word_of_int (align - 1)) AND NOT (word_of_int (align - 1))) - ch_base c) = alloc_pos c align"
    and "unat (ch_off c) \<le> alloc_pos c align" "alloc_pos c align < 2 ^ 62 + 2 ^ 47"
proof -
  obtain k where k: "align = 2 ^ k" using assms(2) isPowerOfTwo_iff by blast
  then have "k < 63" using assms(3) power_less_imp_less_exp [of "2::int" k 63] by simp
  have nk: "nat align = 2 ^ k" using k by (simp add: nat_power_eq)
  have p: "(2::nat) ^ k \<le> 2 ^ 62" using \<open>k < 63\<close> by (intro power_increasing) auto
  have m: "word_of_int (align - 1) = (mask k :: u64)"
    by (simp add: k mask_eq_exp_minus_1)
  let ?B = "unat (ch_base c)" and ?O = "unat (ch_off c)"
  have len: "?B + chunk_len c \<le> 2 ^ 47" "?O \<le> chunk_len c" using assms(1) by (auto simp: chunk_ok_def)
  have cur: "unat (ch_base c + ch_off c) = ?B + ?O"
    using len by (intro unat_add_small) auto
  let ?A = "(ch_base c + ch_off c + mask k) AND NOT (mask k)"
  have A: "unat ?A = align_up (2 ^ k) (?B + ?O)"
    using unat_align_mask [of k "ch_base c + ch_off c"] \<open>k < 63\<close> p len cur by simp
  have Ab: "?B + ?O \<le> unat ?A" "unat ?A < ?B + ?O + 2 ^ k"
    unfolding A by (auto intro: align_up_ge align_up_less)
  show "unat (((ch_base c + ch_off c + word_of_int (align - 1)) AND NOT (word_of_int (align - 1))) - ch_base c) = alloc_pos c align"
    unfolding m using Ab by (simp add: unat_sub word_le_nat_alt alloc_pos_def nk A)
  show "?O \<le> alloc_pos c align" "alloc_pos c align < 2 ^ 62 + 2 ^ 47"
    using Ab p len by (auto simp: alloc_pos_def nk A)
qed

lemma chunk_tryAllocAligned_eq:
  assumes "chunk_ok c" "0 < n" "n < 2 ^ 63" "isPowerOfTwo align" "align < 2 ^ 63"
  shows "chunk_tryAllocAligned c n align =
    (let lo = alloc_pos c align; hi = lo + nat n in
     if hi \<le> chunk_len c then Some (c\<lparr>ch_off := of_nat hi\<rparr>, lo, hi) else None)"
proof -
  define A where "A = ((ch_base c + ch_off c + word_of_int (align - 1)) AND NOT (word_of_int (align - 1))) - ch_base c"
  note al = aligned_off [OF assms(1,4,5), folded A_def]
  have r: "unat (word_of_int n :: u64) = nat n"
    using assms by (intro unat_word_of_int) auto
  have l: "unat (of_nat (chunk_len c) :: u64) = chunk_len c"
    using assms(1) by (intro unat_word_of_nat) (auto simp: chunk_ok_def)
  have a: "unat (A + word_of_int n) = alloc_pos c align + nat n"
    using unat_add_small [of A "word_of_int n"] al assms(2,3) by (simp add: r nat_less_iff)
  have e: "of_nat (alloc_pos c align) = A"
    by (simp only: al(1) [symmetric]) simp
  show ?thesis
    using assms(2,4) al
    unfolding chunk_tryAllocAligned_def Let_def A_def [symmetric]
    by (auto simp: word_less_nat_alt word_le_nat_alt a l e)
qed

lemma chunk_alloc_eq:
  assumes "chunk_ok c" "0 < n" "n < 2 ^ 63" "isPowerOfTwo align" "align < 2 ^ 63"
  shows "chunk_alloc c n align =
    (let lo = alloc_pos c align; hi = lo + nat n in
     if hi \<le> chunk_len c then Some (c\<lparr>ch_off := of_nat hi\<rparr>, lo, hi) else None)"
proof (cases "align > 1")
  case True
  with assms show ?thesis by (simp add: chunk_alloc_def chunk_tryAllocAligned_eq)
next
  case False
  moreover have "0 < align" using assms(4) by (simp add: isPowerOfTwo_def)
  ultimately have "align = 1" by simp
  with assms show ?thesis by (simp add: chunk_alloc_def chunk_tryAlloc_eq Let_def)
qed

lemma alloc_pos_bounds:
  assumes "isPowerOfTwo align"
  shows "unat (ch_off c) \<le> alloc_pos c align"
    and "alloc_pos c align < unat (ch_off c) + nat align"
    and "nat align dvd unat (ch_base c) + alloc_pos c align"
proof -
  have p: "0 < nat align" using assms by (simp add: isPowerOfTwo_def)
  let ?x = "unat (ch_base c) + unat (ch_off c)"
  have "?x \<le> align_up (nat align) ?x" "align_up (nat align) ?x < ?x + nat align"
    using p by (auto intro: align_up_ge align_up_less)
  then show "unat (ch_off c) \<le> alloc_pos c align"
    and "alloc_pos c align < unat (ch_off c) + nat align"
    and "nat align dvd unat (ch_base c) + alloc_pos c align"
    by (auto simp: alloc_pos_def)
qed

lemma chunk_alloc_Some:
  assumes "chunk_ok c" "0 < n" "n < 2 ^ 63" "isPowerOfTwo align" "align < 2 ^ 63"
    and "chunk_alloc c n align = Some (c', lo, hi)"
  shows "chunk_ok c'" "ch_buf c' = ch_buf c" "ch_base c' = ch_base c" "ch_release c' = ch_release c"
    "unat (ch_off c') = hi" "hi = lo + nat n" "hi \<le> chunk_len c"
    "unat (ch_off c) \<le> lo" "lo < unat (ch_off c) + nat align" "nat align dvd unat (ch_base c) + lo"
proof -
  have len: "chunk_len c \<le> 2 ^ 47" using assms(1) by (auto simp: chunk_ok_def)
  have eq: "c' = c\<lparr>ch_off := of_nat hi\<rparr>" "lo = alloc_pos c align" "hi = lo + nat n" "hi \<le> chunk_len c"
    using assms(6) by (auto simp: chunk_alloc_eq [OF assms(1-5)] Let_def split: if_splits)
  have u: "unat (ch_off c') = hi" using len eq(1,4) by (simp add: unat_word_of_nat)
  show "chunk_ok c'" "ch_buf c' = ch_buf c" "ch_base c' = ch_base c" "ch_release c' = ch_release c"
    "unat (ch_off c') = hi" "hi = lo + nat n" "hi \<le> chunk_len c"
    using u eq assms(1) by (auto simp: chunk_ok_def)
  show "unat (ch_off c) \<le> lo" "lo < unat (ch_off c) + nat align" "nat align dvd unat (ch_base c) + lo"
    using alloc_pos_bounds [OF assms(4), of c] eq(2) by auto
qed

text \<open>No aligned position that fits is ever passed over.\<close>

lemma chunk_alloc_None:
  assumes "chunk_ok c" "0 < n" "n < 2 ^ 63" "isPowerOfTwo align" "align < 2 ^ 63"
    and "chunk_alloc c n align = None"
    and "unat (ch_off c) \<le> p" "nat align dvd unat (ch_base c) + p"
  shows "chunk_len c < p + nat n"
proof -
  have "align_up (nat align) (unat (ch_base c) + unat (ch_off c)) \<le> unat (ch_base c) + p"
    using assms(4,7,8) by (intro align_up_least) (auto simp: isPowerOfTwo_def)
  moreover have "chunk_len c < alloc_pos c align + nat n"
    using assms(6) by (auto simp: chunk_alloc_eq [OF assms(1-5)] Let_def split: if_splits)
  ultimately show ?thesis by (simp add: alloc_pos_def)
qed

end
