(* ===== verification/Metrics.thy ===== *)
theory Metrics
  imports Prelude
begin

text \<open>
  The process-wide telemetry of \<^verbatim>\<open>metrics.go\<close>: the counters of \<^verbatim>\<open>MetricsTracker\<close> and the
  operations that arenas and scopes call on \<^verbatim>\<open>GlobalMetrics\<close>. \<^verbatim>\<open>atomic.Int64.Add\<close> wraps at
  64 bits; \<^verbatim>\<open>gcBypassedBytesTotal\<close> is an unsigned word. The text exposition format and the HTTP handler are
  in Telemetry.
\<close>

record metrics =
  m_allocatedBytes :: int
  m_usedBytes :: int
  m_activeArenas :: int
  m_activeScopes :: int
  m_highWaterMarkBytes :: int
  m_gcBypassedBytesTotal :: u64

definition metrics0 :: metrics where
  "metrics0 = \<lparr>m_allocatedBytes = 0, m_usedBytes = 0, m_activeArenas = 0, m_activeScopes = 0,
     m_highWaterMarkBytes = 0, m_gcBypassedBytesTotal = 0\<rparr>"

text \<open>The compare-and-swap loop of \<^verbatim>\<open>updateHighWater\<close>, run without interference.\<close>

definition updateHighWater :: "metrics \<Rightarrow> int \<Rightarrow> metrics" where
  "updateHighWater m current =
     (let old = m_highWaterMarkBytes m
      in if current \<le> old then m else m\<lparr>m_highWaterMarkBytes := current\<rparr>)"

definition RecordArenaCreated :: "metrics \<Rightarrow> int \<Rightarrow> metrics" where
  "RecordArenaCreated m slabBytes =
     (let m1 = m\<lparr>m_activeArenas := go_int (m_activeArenas m + 1)\<rparr>;
          alloc = go_int (m_allocatedBytes m1 + slabBytes)
      in updateHighWater (m1\<lparr>m_allocatedBytes := alloc\<rparr>) alloc)"

definition RecordArenaClosed :: "metrics \<Rightarrow> int \<Rightarrow> metrics" where
  "RecordArenaClosed m slabBytes =
     m\<lparr>m_activeArenas := go_int (m_activeArenas m - 1),
       m_allocatedBytes := go_int (m_allocatedBytes m + go_int (- slabBytes))\<rparr>"

definition RecordScopeEnter :: "metrics \<Rightarrow> metrics" where
  "RecordScopeEnter m = m\<lparr>m_activeScopes := go_int (m_activeScopes m + 1)\<rparr>"

definition RecordScopeExit :: "metrics \<Rightarrow> int \<Rightarrow> metrics" where
  "RecordScopeExit m usedBytes =
     (let m1 = m\<lparr>m_activeScopes := go_int (m_activeScopes m - 1)\<rparr>
      in if usedBytes > 0
         then m1\<lparr>m_gcBypassedBytesTotal := m_gcBypassedBytesTotal m1 + word_of_int usedBytes\<rparr>
         else m1)"

record metrics_snapshot =
  AllocatedBytes :: int
  ActiveArenas :: int
  ActiveScopes :: int
  HighWaterMarkBytes :: int
  GCBypassedBytesTotal :: u64

definition Snapshot :: "metrics \<Rightarrow> metrics_snapshot" where
  "Snapshot m = \<lparr>AllocatedBytes = m_allocatedBytes m, ActiveArenas = m_activeArenas m,
     ActiveScopes = m_activeScopes m, HighWaterMarkBytes = m_highWaterMarkBytes m,
     GCBypassedBytesTotal = m_gcBypassedBytesTotal m\<rparr>"

end
