(* ===== verification/Bump.thy ===== *)
theory Bump
  imports Prelude
begin

text \<open>
  The contract of a bump allocator, as the clients of \<^verbatim>\<open>Arena\<close> and \<^verbatim>\<open>LocalArena\<close> use it: every
  allocation hands out bytes that no earlier one holds, and what is in use only grows. The locales
  prove once what follows for a whole sequence of requests; the theories of the two arenas
  interpret them on their models.
\<close>

section \<open>Sequences of requests\<close>

text \<open>Each request brings its own environment (what the OS answers during that call), a size and
  an alignment; failed requests leave no slice.\<close>

fun alloc_run ::
  "('e \<Rightarrow> 's \<Rightarrow> int \<Rightarrow> int \<Rightarrow> 's \<times> slice option) \<Rightarrow> ('e \<times> int \<times> int) list \<Rightarrow> 's \<Rightarrow> 's \<times> slice list"
where
  "alloc_run f [] s = (s, [])"
| "alloc_run f ((e, n, al) # rs) s =
     (case f e s n al of (s', r) \<Rightarrow>
        (case alloc_run f rs s' of (s'', sls) \<Rightarrow>
           (s'', (case r of None \<Rightarrow> sls | Some sl \<Rightarrow> sl # sls))))"

text \<open>Every request of the sequence is admissible in the state it meets.\<close>

fun run_ok ::
  "('e \<Rightarrow> 's \<Rightarrow> int \<Rightarrow> int \<Rightarrow> bool) \<Rightarrow> ('e \<Rightarrow> 's \<Rightarrow> int \<Rightarrow> int \<Rightarrow> 's \<times> slice option)
   \<Rightarrow> ('e \<times> int \<times> int) list \<Rightarrow> 's \<Rightarrow> bool"
where
  "run_ok ok f [] s = True"
| "run_ok ok f ((e, n, al) # rs) s = (ok e s n al \<and> run_ok ok f rs (fst (f e s n al)))"

section \<open>The contract\<close>

locale bump_allocator =
  fixes inv :: "'s \<Rightarrow> bool"
    and used :: "'s \<Rightarrow> (nat \<times> nat) set"
    and ok :: "'e \<Rightarrow> 's \<Rightarrow> int \<Rightarrow> int \<Rightarrow> bool"
    and alloc :: "'e \<Rightarrow> 's \<Rightarrow> int \<Rightarrow> int \<Rightarrow> 's \<times> slice option"
  assumes alloc_inv: "inv s \<Longrightarrow> ok e s n al \<Longrightarrow> inv (fst (alloc e s n al))"
    and alloc_mono: "inv s \<Longrightarrow> ok e s n al \<Longrightarrow> used s \<subseteq> used (fst (alloc e s n al))"
    and alloc_fresh: "inv s \<Longrightarrow> ok e s n al \<Longrightarrow> alloc e s n al = (s', Some sl) \<Longrightarrow>
      region sl \<inter> used s = {} \<and> region sl \<subseteq> used s'"
begin

lemma run_inv:
  "inv s \<Longrightarrow> run_ok ok alloc rs s \<Longrightarrow>
     inv (fst (alloc_run alloc rs s)) \<and> used s \<subseteq> used (fst (alloc_run alloc rs s))"
proof (induction rs arbitrary: s)
  case Nil
  then show ?case by simp
next
  case (Cons r rs)
  obtain e n al where r: "r = (e, n, al)" by (cases r)
  let ?s' = "fst (alloc e s n al)"
  have "inv ?s'" "used s \<subseteq> used ?s'"
    using Cons.prems alloc_inv alloc_mono by (auto simp: r)
  moreover have "run_ok ok alloc rs ?s'" using Cons.prems by (simp add: r)
  ultimately show ?case using Cons.IH [of ?s'] by (auto simp: r split: prod.splits)
qed

lemma run_fresh:
  "inv s \<Longrightarrow> run_ok ok alloc rs s \<Longrightarrow> alloc_run alloc rs s = (s', sls) \<Longrightarrow> sl \<in> set sls \<Longrightarrow>
     region sl \<inter> used s = {} \<and> region sl \<subseteq> used s'"
proof (induction rs arbitrary: s sls)
  case Nil
  then show ?case by simp
next
  case (Cons r rs)
  obtain e n al where r: "r = (e, n, al)" by (cases r)
  obtain t o1 where t: "alloc e s n al = (t, o1)" by force
  obtain sls1 where run: "alloc_run alloc rs t = (s', sls1)"
    and sls: "sls = (case o1 of None \<Rightarrow> sls1 | Some x \<Rightarrow> x # sls1)"
    using Cons.prems(3) by (auto simp: r t split: prod.splits)
  have inv_t: "inv t" and mono: "used s \<subseteq> used t" and ok_t: "run_ok ok alloc rs t"
    using Cons.prems alloc_inv [of s e n al] alloc_mono [of s e n al] by (auto simp: r t)
  have "used t \<subseteq> used s'" using run_inv [OF inv_t ok_t] run by simp
  moreover have "region sl \<inter> used t = {} \<and> region sl \<subseteq> used s'" if "sl \<in> set sls1"
    using Cons.IH [OF inv_t ok_t run that] .
  moreover have "region x \<inter> used s = {} \<and> region x \<subseteq> used t" if "o1 = Some x" for x
    using alloc_fresh [of s e n al t x] Cons.prems that by (simp add: r t)
  ultimately show ?case using Cons.prems(4) mono by (cases o1) (auto simp: sls)
qed

lemma run_disjoint:
  "inv s \<Longrightarrow> run_ok ok alloc rs s \<Longrightarrow> alloc_run alloc rs s = (s', sls) \<Longrightarrow>
     sorted_wrt (\<lambda>x y. region x \<inter> region y = {}) sls"
proof (induction rs arbitrary: s sls)
  case Nil
  then show ?case by simp
next
  case (Cons r rs)
  obtain e n al where r: "r = (e, n, al)" by (cases r)
  obtain t o1 where t: "alloc e s n al = (t, o1)" by force
  obtain sls1 where run: "alloc_run alloc rs t = (s', sls1)"
    and sls: "sls = (case o1 of None \<Rightarrow> sls1 | Some x \<Rightarrow> x # sls1)"
    using Cons.prems(3) by (auto simp: r t split: prod.splits)
  have inv_t: "inv t" and ok_t: "run_ok ok alloc rs t"
    using Cons.prems alloc_inv [of s e n al] by (auto simp: r t)
  have IH: "sorted_wrt (\<lambda>x y. region x \<inter> region y = {}) sls1"
    using Cons.IH [OF inv_t ok_t run] .
  show ?case
  proof (cases o1)
    case None
    with IH sls show ?thesis by simp
  next
    case (Some x)
    have "region x \<subseteq> used t" using alloc_fresh [of s e n al t x] Cons.prems Some by (simp add: r t)
    then have "region x \<inter> region y = {}" if "y \<in> set sls1" for y
      using run_fresh [OF inv_t ok_t run that] by blast
    with IH Some sls show ?thesis by simp
  qed
qed

lemma run_total:
  assumes "inv s" "run_ok ok alloc rs s" "alloc_run alloc rs s = (s', sls)" "finite (used s')"
  shows "card (used s) + sum_list (map sl_len sls) \<le> card (used s')"
proof -
  have "card (used s) + sum_list (map sl_len sls) = card (used s \<union> (\<Union>x \<in> set sls. region x))"
    if "sorted_wrt (\<lambda>x y. region x \<inter> region y = {}) sls" "\<forall>x \<in> set sls. region x \<inter> used s = {}"
      "finite (used s)" for sls
    using that
  proof (induction sls)
    case (Cons x sls)
    have "region x \<inter> (used s \<union> (\<Union>y \<in> set sls. region y)) = {}" using Cons.prems by auto
    then have "card (region x \<union> (used s \<union> (\<Union>y \<in> set sls. region y))) =
      sl_len x + card (used s \<union> (\<Union>y \<in> set sls. region y))"
      using Cons.prems(3) by (subst card_Un_disjoint) auto
    with Cons show ?case by (simp add: Un_left_commute)
  qed simp
  moreover have "used s \<union> (\<Union>x \<in> set sls. region x) \<subseteq> used s'"
    using run_inv [OF assms(1,2)] run_fresh [OF assms(1-3)] assms(3) by auto
  ultimately show ?thesis
    using run_disjoint [OF assms(1-3)] run_fresh [OF assms(1-3)] assms(4)
      run_inv [OF assms(1,2)] assms(3)
    by (metis card_mono finite_subset fst_conv)
qed

end

text \<open>An allocator whose bytes have machine addresses: live bytes never share an address, and an
  allocation moves no byte that is in use.\<close>

locale addressed_allocator = bump_allocator +
  fixes addr :: "'s \<Rightarrow> nat \<times> nat \<Rightarrow> nat"
  assumes addr_inj: "inv s \<Longrightarrow> inj_on (addr s) (used s)"
    and addr_stable: "inv s \<Longrightarrow> ok e s n al \<Longrightarrow> p \<in> used s \<Longrightarrow> addr (fst (alloc e s n al)) p = addr s p"
begin

lemma run_addr_stable:
  "inv s \<Longrightarrow> run_ok ok alloc rs s \<Longrightarrow> p \<in> used s \<Longrightarrow> addr (fst (alloc_run alloc rs s)) p = addr s p"
proof (induction rs arbitrary: s)
  case Nil
  then show ?case by simp
next
  case (Cons r rs)
  obtain e n al where r: "r = (e, n, al)" by (cases r)
  let ?t = "fst (alloc e s n al)"
  have "inv ?t" "p \<in> used ?t" "addr ?t p = addr s p" "run_ok ok alloc rs ?t"
    using Cons.prems alloc_inv alloc_mono [THEN subsetD, of s e n al p] addr_stable by (auto simp: r)
  then show ?case using Cons.IH [of ?t] by (auto simp: r split: prod.splits)
qed

lemma run_addr_disjoint:
  assumes "inv s" "run_ok ok alloc rs s" "alloc_run alloc rs s = (s', sls)"
  shows "sorted_wrt (\<lambda>x y. addr s' ` region x \<inter> addr s' ` region y = {}) sls"
proof -
  have inj: "inj_on (addr s') (used s')" using run_inv [OF assms(1,2)] assms(3) addr_inj by simp
  have sub: "region x \<subseteq> used s'" if "x \<in> set sls" for x
    using run_fresh [OF assms that] by blast
  show ?thesis
  proof (rule sorted_wrt_mono_rel [OF _ run_disjoint [OF assms]])
    fix x y assume "x \<in> set sls" "y \<in> set sls" "region x \<inter> region y = {}"
    then show "addr s' ` region x \<inter> addr s' ` region y = {}"
      using inj_on_image_Int [OF inj sub sub, of x y] by simp
  qed
qed

end

text \<open>An allocator with snapshots: restoring one, after any number of further allocations, makes
  exactly the bytes of the snapshot live again.\<close>

locale rewinding_allocator = bump_allocator +
  fixes ext :: "'s \<Rightarrow> 's \<Rightarrow> bool"
    and snap :: "'s \<Rightarrow> 'm"
    and snap_ok :: "'s \<Rightarrow> bool"
    and restore :: "'s \<Rightarrow> 'm \<Rightarrow> 's option"
  assumes ext_refl: "ext s s"
    and ext_trans: "inv s \<Longrightarrow> ext s t \<Longrightarrow> ext t u \<Longrightarrow> ext s u"
    and alloc_ext: "inv s \<Longrightarrow> ok e s n al \<Longrightarrow> ext s (fst (alloc e s n al))"
    and restore_snap: "inv s \<Longrightarrow> inv t \<Longrightarrow> ext s t \<Longrightarrow> snap_ok s \<Longrightarrow>
      \<exists>u. restore t (snap s) = Some u \<and> inv u \<and> used u = used s"
begin

lemma run_ext: "inv s \<Longrightarrow> run_ok ok alloc rs s \<Longrightarrow> ext s (fst (alloc_run alloc rs s))"
proof (induction rs arbitrary: s)
  case Nil
  then show ?case by (simp add: ext_refl)
next
  case (Cons r rs)
  obtain e n al where r: "r = (e, n, al)" by (cases r)
  let ?t = "fst (alloc e s n al)"
  have "inv ?t" "ext s ?t" "run_ok ok alloc rs ?t"
    using Cons.prems alloc_inv alloc_ext by (auto simp: r)
  then have "ext s (fst (alloc_run alloc rs ?t))" using Cons.IH ext_trans Cons.prems(1) by blast
  then show ?case by (auto simp: r split: prod.splits)
qed

lemma run_restore:
  assumes "inv s" "run_ok ok alloc rs s" "snap_ok s"
  shows "\<exists>u. restore (fst (alloc_run alloc rs s)) (snap s) = Some u \<and> inv u \<and> used u = used s"
  using restore_snap [OF assms(1) _ run_ext [OF assms(1,2)] assms(3)] run_inv [OF assms(1,2)] by blast

end

end
