(* ===== verification/Arena.thy ===== *)
theory Arena
  imports Chunk Metrics Bump
begin

text \<open>
  The growing arena of \<^verbatim>\<open>arena.go\<close>: construction with its options, the allocation entry points
  and the slow path \<^verbatim>\<open>allocSlow\<close>, reset, accounting, \<^verbatim>\<open>Mark\<close>/\<^verbatim>\<open>Rewind\<close> and \<^verbatim>\<open>Close\<close>.

  The source refers to chunks by pointer. Chunks are only ever appended and all dropped by
  \<^verbatim>\<open>Close\<close>, so the index in \<open>ar_chunks\<close> names the pointer and \<^verbatim>\<open>chk == act\<close> is equality of
  indices; \<open>ar_active = None\<close> is the nil pointer. Every operation returns the new arena beside its
  result, also when it fails, because a failing allocation may have appended a chunk.
\<close>

section \<open>State and construction\<close>

record arena =
  ar_chunks :: "chunk list"
  ar_active :: "nat option"
  ar_chunkSize :: int
  ar_maxCap :: int
  ar_geometricGrowth :: bool
  ar_poisonOnExit :: bool
  ar_poisonPattern :: u8
  ar_guardPages :: bool
  ar_closed :: bool

datatype arena_option =
    WithChunkSize int
  | WithMaxCapacity int
  | WithGeometricGrowth bool
  | WithPoisonOnScopeExit u8
  | WithGuardPages bool

fun apply_option :: "arena_option \<Rightarrow> arena \<Rightarrow> arena" where
  "apply_option (WithChunkSize sz) a = (if sz > 0 then a\<lparr>ar_chunkSize := sz\<rparr> else a)"
| "apply_option (WithMaxCapacity maxCap) a = (if maxCap > 0 then a\<lparr>ar_maxCap := maxCap\<rparr> else a)"
| "apply_option (WithGeometricGrowth enabled) a = a\<lparr>ar_geometricGrowth := enabled\<rparr>"
| "apply_option (WithPoisonOnScopeExit pattern) a =
     a\<lparr>ar_poisonOnExit := True, ar_poisonPattern := pattern\<rparr>"
| "apply_option (WithGuardPages enabled) a = a\<lparr>ar_guardPages := enabled\<rparr>"

datatype arena_error =
    ErrInvalidAllocSize
  | ErrArenaOutOfMemory
  | ErrInvalidAlignment
  | ErrInvalidArenaMark
  | ErrRewindForward
  | ErrScopeInactive

fun arena_error_text :: "arena_error \<Rightarrow> string" where
  "arena_error_text ErrInvalidAllocSize = ''alloc size must be > 0''"
| "arena_error_text ErrArenaOutOfMemory = ''arena out of memory''"
| "arena_error_text ErrInvalidAlignment = ''alignment must be a positive power of 2''"
| "arena_error_text ErrInvalidArenaMark = ''invalid arena mark''"
| "arena_error_text ErrRewindForward = ''cannot rewind forward''"
| "arena_error_text ErrScopeInactive = ''scope is not active''"

text \<open>\<^verbatim>\<open>&Arena{chunkSize: size, geometricGrowth: true}\<close>, then the non-nil options in order.\<close>

definition arena_config :: "int \<Rightarrow> arena_option option list \<Rightarrow> arena" where
  "arena_config sz opts =
     fold (\<lambda>opt a. case opt of None \<Rightarrow> a | Some f \<Rightarrow> apply_option f a) opts
       \<lparr>ar_chunks = [], ar_active = None, ar_chunkSize = sz, ar_maxCap = 0,
        ar_geometricGrowth = True, ar_poisonOnExit = False, ar_poisonPattern = 0,
        ar_guardPages = False, ar_closed = False\<rparr>"

definition NewArena ::
  "os_env \<Rightarrow> int \<Rightarrow> arena_option option list \<Rightarrow> metrics \<Rightarrow> metrics \<times> arena go" where
  "NewArena os sz opts m =
     (if sz \<le> 0 then (m, Panic (PanicMsg ''arena size must be > 0''))
      else let a = arena_config sz opts
           in case newChunk os (ar_chunkSize a) (ar_guardPages a) of
                Inl e \<Rightarrow> (m, Panic (PanicErrno e))
              | Inr chk \<Rightarrow>
                  (RecordArenaCreated m (ar_chunkSize a),
                   Return (a\<lparr>ar_chunks := [chk], ar_active := Some 0\<rparr>)))"

definition NewFixedArena :: "os_env \<Rightarrow> int \<Rightarrow> metrics \<Rightarrow> metrics \<times> arena go" where
  "NewFixedArena os sz m = NewArena os sz [Some (WithMaxCapacity sz)] m"

section \<open>Allocation\<close>

text \<open>One attempt on the chunk with index \<open>i\<close>; the slice is \<^verbatim>\<open>c.buf[lo:hi]\<close>.\<close>

definition alloc_at ::
  "(chunk \<Rightarrow> (chunk \<times> nat \<times> nat) option) \<Rightarrow> arena \<Rightarrow> nat \<Rightarrow> (arena \<times> slice) option" where
  "alloc_at f a i =
     (case f (ar_chunks a ! i) of
        None \<Rightarrow> None
      | Some (c', lo, hi) \<Rightarrow>
          Some (a\<lparr>ar_chunks := (ar_chunks a)[i := c']\<rparr>,
                Slice i lo (hi - lo) (chunk_cap c' - lo)))"

text \<open>The loop over the chunks after the active one.\<close>

fun scan_chunks :: "arena \<Rightarrow> int \<Rightarrow> int \<Rightarrow> nat list \<Rightarrow> (arena \<times> slice) option" where
  "scan_chunks a n align [] = None"
| "scan_chunks a n align (j # js) =
     (case alloc_at (\<lambda>c. chunk_alloc c n align) a j of
        Some (a', s) \<Rightarrow> Some (a'\<lparr>ar_active := Some j\<rparr>, s)
      | None \<Rightarrow> scan_chunks a n align js)"

text \<open>\<^verbatim>\<open>curCap += len(chk.buf)\<close> over the chunks, also the loop of \<^verbatim>\<open>Capacity\<close>.\<close>

definition Capacity :: "arena \<Rightarrow> int" where
  "Capacity a = fold (\<lambda>c tot. go_int (tot + int (chunk_len c))) (ar_chunks a) 0"

definition maxChunkSize :: int where "maxChunkSize = 16 * 1024 * 1024"

text \<open>The size of the chunk to append, or None when the capacity limit forbids it.\<close>

definition grow_size :: "arena \<Rightarrow> int \<Rightarrow> int option" where
  "grow_size a n =
     (let curCap = Capacity a;
          s0 = ar_chunkSize a;
          s1 = (if ar_geometricGrowth a \<and> curCap > 0
                then let nextCap = (if curCap > maxChunkSize then maxChunkSize else curCap)
                     in if nextCap > s0 then nextCap else s0
                else s0);
          s2 = (if n > s1 then n else s1)
      in if ar_maxCap a > 0
         then if curCap \<ge> ar_maxCap a then None
              else if go_int (curCap + s2) > ar_maxCap a
              then let s3 = go_int (ar_maxCap a - curCap) in if s3 < n then None else Some s3
              else Some s2
         else Some s2)"

definition grow_arena :: "os_env \<Rightarrow> arena \<Rightarrow> int \<Rightarrow> int \<Rightarrow> arena \<times> slice option" where
  "grow_arena os a n align =
     (case grow_size a n of
        None \<Rightarrow> (a, None)
      | Some newSize \<Rightarrow>
          (case newChunk os newSize (ar_guardPages a) of
             Inl _ \<Rightarrow> (a, None)
           | Inr newChk \<Rightarrow>
               let k = length (ar_chunks a);
                   a1 = a\<lparr>ar_chunks := ar_chunks a @ [newChk], ar_active := Some k\<rparr>
               in case alloc_at (\<lambda>c. chunk_alloc c n align) a1 k of
                    Some (a2, s) \<Rightarrow> (a2, Some s)
                  | None \<Rightarrow> (a1, None)))"

definition allocSlow :: "os_env \<Rightarrow> arena \<Rightarrow> int \<Rightarrow> int \<Rightarrow> arena \<times> slice option" where
  "allocSlow os a n align =
     (case ar_active a of
        None \<Rightarrow> grow_arena os a n align
      | Some act \<Rightarrow>
          (case alloc_at (\<lambda>c. chunk_alloc c n align) a act of
             Some (a', s) \<Rightarrow> (a', Some s)
           | None \<Rightarrow>
               (case scan_chunks a n align [Suc act ..< length (ar_chunks a)] of
                  Some (a', s) \<Rightarrow> (a', Some s)
                | None \<Rightarrow> grow_arena os a n align)))"

definition TryAlloc :: "os_env \<Rightarrow> arena \<Rightarrow> int \<Rightarrow> arena \<times> slice option" where
  "TryAlloc os a n =
     (if n \<le> 0 then (a, None)
      else case ar_active a of
             None \<Rightarrow> allocSlow os a n 1
           | Some act \<Rightarrow>
               (case alloc_at (\<lambda>c. chunk_tryAlloc c n) a act of
                  Some (a', s) \<Rightarrow> (a', Some s)
                | None \<Rightarrow> allocSlow os a n 1))"

definition TryAllocAligned :: "os_env \<Rightarrow> arena \<Rightarrow> int \<Rightarrow> int \<Rightarrow> arena \<times> slice option" where
  "TryAllocAligned os a n align =
     (if n \<le> 0 \<or> \<not> isPowerOfTwo align then (a, None)
      else case ar_active a of
             None \<Rightarrow> allocSlow os a n align
           | Some act \<Rightarrow>
               (case alloc_at (\<lambda>c. chunk_tryAllocAligned c n align) a act of
                  Some (a', s) \<Rightarrow> (a', Some s)
                | None \<Rightarrow> allocSlow os a n align))"

definition AllocOrErr :: "os_env \<Rightarrow> arena \<Rightarrow> int \<Rightarrow> arena \<times> (arena_error + slice)" where
  "AllocOrErr os a n =
     (if n \<le> 0 then (a, Inl ErrInvalidAllocSize)
      else case TryAlloc os a n of
             (a', None) \<Rightarrow> (a', Inl ErrArenaOutOfMemory)
           | (a', Some s) \<Rightarrow> (a', Inr s))"

definition AllocAlignedOrErr ::
  "os_env \<Rightarrow> arena \<Rightarrow> int \<Rightarrow> int \<Rightarrow> arena \<times> (arena_error + slice)" where
  "AllocAlignedOrErr os a n align =
     (if n \<le> 0 then (a, Inl ErrInvalidAllocSize)
      else if \<not> isPowerOfTwo align then (a, Inl ErrInvalidAlignment)
      else case TryAllocAligned os a n align of
             (a', None) \<Rightarrow> (a', Inl ErrArenaOutOfMemory)
           | (a', Some s) \<Rightarrow> (a', Inr s))"

definition panic_on_err :: "arena \<times> (arena_error + slice) \<Rightarrow> arena \<times> slice go" where
  "panic_on_err r =
     (case r of
        (a, Inl e) \<Rightarrow> (a, Panic (PanicMsg (arena_error_text e)))
      | (a, Inr s) \<Rightarrow> (a, Return s))"

definition AllocAligned :: "os_env \<Rightarrow> arena \<Rightarrow> int \<Rightarrow> int \<Rightarrow> arena \<times> slice go" where
  "AllocAligned os a n align = panic_on_err (AllocAlignedOrErr os a n align)"

definition Alloc :: "os_env \<Rightarrow> arena \<Rightarrow> int \<Rightarrow> arena \<times> slice go" where
  "Alloc os a n = panic_on_err (AllocOrErr os a n)"

section \<open>Reset, accounting, closing\<close>

definition Reset :: "arena \<Rightarrow> arena" where
  "Reset a =
     (let cs = map (\<lambda>c. c\<lparr>ch_off := 0\<rparr>) (ar_chunks a)
      in if cs \<noteq> [] then a\<lparr>ar_chunks := cs, ar_active := Some 0\<rparr> else a\<lparr>ar_chunks := cs\<rparr>)"

definition UsedBytes :: "arena \<Rightarrow> int" where
  "UsedBytes a = fold (\<lambda>c tot. go_int (tot + sint (ch_off c))) (ar_chunks a) 0"

definition Stats :: "arena \<Rightarrow> int \<times> int" where
  "Stats a = fold (\<lambda>c (used, cap). (go_int (used + sint (ch_off c)), go_int (cap + int (chunk_len c))))
     (ar_chunks a) (0, 0)"

text \<open>The loop that releases the chunks keeps the first error.\<close>

fun release_all :: "os_env \<Rightarrow> chunk list \<Rightarrow> nat option \<Rightarrow> nat option" where
  "release_all os [] firstErr = firstErr"
| "release_all os (c # cs) firstErr =
     release_all os cs
       (if chunk_len c > 0
        then case chunk_release os c of
               Some e \<Rightarrow> (if firstErr = None then Some e else firstErr)
             | None \<Rightarrow> firstErr
        else firstErr)"

definition Close :: "os_env \<Rightarrow> arena \<Rightarrow> metrics \<Rightarrow> metrics \<times> arena \<times> nat option" where
  "Close os a m =
     (if ar_closed a then (m, a, None)
      else (RecordArenaClosed m (ar_chunkSize a),
            a\<lparr>ar_closed := True, ar_chunks := [], ar_active := None\<rparr>,
            release_all os (ar_chunks a) None))"

section \<open>Mark and Rewind\<close>

definition makeMark :: "nat \<Rightarrow> u64 \<Rightarrow> u64" where
  "makeMark chunkIdx off = push_bit 32 (of_nat chunkIdx) OR (off AND 0xFFFFFFFF)"

definition parseMark :: "u64 \<Rightarrow> int \<times> u64" where
  "parseMark mark = (sint (drop_bit 32 mark), mark AND 0xFFFFFFFF)"

definition Mark :: "arena \<Rightarrow> u64" where
  "Mark a =
     (case ar_active a of
        Some i \<Rightarrow> makeMark i (ch_off (ar_chunks a ! i))
      | None \<Rightarrow>
          (case ar_chunks a of c # _ \<Rightarrow> makeMark 0 (ch_off c) | [] \<Rightarrow> makeMark 0 0))"

definition Rewind :: "arena \<Rightarrow> u64 \<Rightarrow> arena \<times> arena_error option" where
  "Rewind a mark =
     (let (targetIdx, targetOff) = parseMark mark; cs = ar_chunks a
      in if targetIdx < 0 \<or> targetIdx \<ge> int (length cs) then (a, Some ErrInvalidArenaMark)
         else let t = nat targetIdx; targetChunk = cs ! t
         in if targetOff > of_nat (chunk_len targetChunk) then (a, Some ErrInvalidArenaMark)
         else let actIdx = (case ar_active a of Some i \<Rightarrow> i | None \<Rightarrow> 0)
         in if t > actIdx then (a, Some ErrRewindForward)
         else if t = actIdx \<and> targetOff > ch_off (cs ! actIdx) then (a, Some ErrRewindForward)
         else (a\<lparr>ar_chunks := map (\<lambda>i. if i > t then (cs ! i)\<lparr>ch_off := 0\<rparr>
                                       else if i = t then (cs ! i)\<lparr>ch_off := targetOff\<rparr>
                                       else cs ! i) [0 ..< length cs],
                 ar_active := Some t\<rparr>, None))"

section \<open>Invariant\<close>

text \<open>The machine addresses of a chunk's buffer.\<close>

definition addr_range :: "chunk \<Rightarrow> nat set" where
  "addr_range c = {unat (ch_base c) ..< unat (ch_base c) + chunk_len c}"

definition arena_inv :: "arena \<Rightarrow> bool" where
  "arena_inv a \<longleftrightarrow>
     (\<forall>c \<in> set (ar_chunks a). chunk_ok c) \<and>
     sorted_wrt (\<lambda>c d. addr_range c \<inter> addr_range d = {}) (ar_chunks a) \<and>
     (case ar_active a of
        None \<Rightarrow> ar_chunks a = []
      | Some i \<Rightarrow> i < length (ar_chunks a) \<and>
          (\<forall>j. i < j \<longrightarrow> j < length (ar_chunks a) \<longrightarrow> ch_off (ar_chunks a ! j) = 0)) \<and>
     0 < ar_chunkSize a \<and> ar_chunkSize a < 2 ^ 62 \<and> 0 \<le> ar_maxCap a \<and> ar_maxCap a < 2 ^ 63"

text \<open>
  What the documentation of \<^verbatim>\<open>mmap\<close> promises of a successful call, given the live chunks: the
  mapping starts on a page, lies in the user address space and overlaps no live mapping.
\<close>

definition os_ok :: "os_env \<Rightarrow> chunk list \<Rightarrow> bool" where
  "os_ok os cs \<longleftrightarrow>
     (\<exists>k\<ge>12. k \<le> 30 \<and> os_pagesize os = 2 ^ k) \<and>
     (\<forall>n b. os_mmap os n = Inr b \<longrightarrow>
        4096 dvd unat b \<and> unat b + nat n \<le> 2 ^ 47 \<and>
        (\<forall>c \<in> set cs. {unat b ..< unat b + nat n} \<inter> addr_range c = {}))"

definition live_bytes :: "arena \<Rightarrow> (nat \<times> nat) set" where
  "live_bytes a = {(i, j). i < length (ar_chunks a) \<and> j < unat (ch_off (ar_chunks a ! i))}"

definition byte_addr :: "arena \<Rightarrow> nat \<times> nat \<Rightarrow> nat" where
  "byte_addr a p = unat (ch_base (ar_chunks a ! fst p)) + snd p"

text \<open>The arena after \<open>a\<close> has only bump-allocated: same chunks at the same places, possibly more
  behind them; nothing before the active chunk touched.\<close>

definition arena_ext :: "arena \<Rightarrow> arena \<Rightarrow> bool" where
  "arena_ext a b \<longleftrightarrow>
     length (ar_chunks a) \<le> length (ar_chunks b) \<and>
     (\<forall>i < length (ar_chunks a).
        ch_base (ar_chunks b ! i) = ch_base (ar_chunks a ! i) \<and>
        ch_buf (ar_chunks b ! i) = ch_buf (ar_chunks a ! i) \<and>
        ch_release (ar_chunks b ! i) = ch_release (ar_chunks a ! i) \<and>
        ch_off (ar_chunks a ! i) \<le> ch_off (ar_chunks b ! i)) \<and>
     (\<forall>i. ar_active a = Some i \<longrightarrow>
        (\<exists>k. ar_active b = Some k \<and> i \<le> k) \<and>
        (\<forall>j < i. ch_off (ar_chunks b ! j) = ch_off (ar_chunks a ! j)))"

lemma arena_ext_refl [simp]: "arena_ext a a"
  by (auto simp: arena_ext_def)

lemma arena_ext_trans: 
  assumes "arena_ext a b" "arena_ext b c" "arena_inv a"
  shows "arena_ext a c"
  unfolding arena_ext_def
proof (intro conjI allI impI)
  show "length (ar_chunks a) \<le> length (ar_chunks c)"
    using assms by (auto simp: arena_ext_def)
next
  fix i assume i: "i < length (ar_chunks a)"
  then have "i < length (ar_chunks b)" using assms(1) by (auto simp: arena_ext_def)
  with i show "ch_base (ar_chunks c ! i) = ch_base (ar_chunks a ! i)"
    "ch_buf (ar_chunks c ! i) = ch_buf (ar_chunks a ! i)"
    "ch_release (ar_chunks c ! i) = ch_release (ar_chunks a ! i)"
    "ch_off (ar_chunks a ! i) \<le> ch_off (ar_chunks c ! i)"
    using assms by (auto simp: arena_ext_def intro: order_trans)
next
  fix i assume "ar_active a = Some i"
  then obtain k where k: "ar_active b = Some k" "i \<le> k"
    "\<forall>j < i. ch_off (ar_chunks b ! j) = ch_off (ar_chunks a ! j)"
    using assms(1) by (auto simp: arena_ext_def)
  then show "\<exists>k. ar_active c = Some k \<and> i \<le> k"
    using assms(2) order_trans by (fastforce simp: arena_ext_def)
  fix j assume "j < i"
  then show "ch_off (ar_chunks c ! j) = ch_off (ar_chunks a ! j)"
    using k assms(2) by (auto simp: arena_ext_def)
qed

lemma arena_ext_live: "arena_ext a b \<Longrightarrow> live_bytes a \<subseteq> live_bytes b"
  by (fastforce simp: arena_ext_def live_bytes_def word_le_nat_alt)

lemma arena_inv_chunk: "arena_inv a \<Longrightarrow> i < length (ar_chunks a) \<Longrightarrow> chunk_ok (ar_chunks a ! i)"
  by (simp add: arena_inv_def)

lemma arena_inv_active:
  "arena_inv a \<Longrightarrow> ar_active a = Some i \<Longrightarrow> i < length (ar_chunks a)"
  by (simp add: arena_inv_def)

section \<open>One allocation attempt\<close>

text \<open>A request whose arguments are Go ints, with an alignment that passes the check.\<close>

definition valid_req :: "int \<Rightarrow> int \<Rightarrow> bool" where
  "valid_req n align \<longleftrightarrow> 0 < n \<and> n < 2 ^ 63 \<and> isPowerOfTwo align \<and> align < 2 ^ 63"

text \<open>What one successful attempt gives.\<close>

definition got_slice :: "arena \<Rightarrow> int \<Rightarrow> int \<Rightarrow> arena \<Rightarrow> slice \<Rightarrow> bool" where
  "got_slice a n align b s \<longleftrightarrow>
     arena_inv b \<and> arena_ext a b \<and> region s \<inter> live_bytes a = {} \<and> region s \<subseteq> live_bytes b \<and>
     sl_len s = nat n \<and> nat align dvd byte_addr b (sl_chunk s, sl_lo s) \<and>
     sl_chunk s < length (ar_chunks b) \<and> ar_active b = Some (sl_chunk s) \<and>
     unat (ch_off (ar_chunks b ! sl_chunk s)) = sl_hi s \<and>
     sl_cap s = chunk_cap (ar_chunks b ! sl_chunk s) - sl_lo s"

lemma alloc_at_got:
  assumes inv: "arena_inv a" and req: "valid_req n align"
    and i: "i < length (ar_chunks a)" "\<forall>j. i < j \<longrightarrow> j < length (ar_chunks a) \<longrightarrow> ch_off (ar_chunks a ! j) = 0"
    and act: "\<forall>k. ar_active a = Some k \<longrightarrow> k \<le> i"
    and got: "alloc_at (\<lambda>c. chunk_alloc c n align) a i = Some (b, s)"
  shows "got_slice a n align (b\<lparr>ar_active := Some i\<rparr>) s" 
proof -
  let ?c = "ar_chunks a ! i"
  obtain c' lo hi where al: "chunk_alloc ?c n align = Some (c', lo, hi)"
    and b: "b = a\<lparr>ar_chunks := (ar_chunks a)[i := c']\<rparr>" and s: "s = Slice i lo (hi - lo) (chunk_cap c' - lo)"
    using got by (auto simp: alloc_at_def split: option.splits)
  have c: "chunk_ok ?c" using inv i(1) by (rule arena_inv_chunk)
  have r: "0 < n" "n < 2 ^ 63" "isPowerOfTwo align" "align < 2 ^ 63" using req by (auto simp: valid_req_def)
  note A = chunk_alloc_Some [OF c r al]
  have rng: "addr_range c' = addr_range ?c" using A by (simp add: addr_range_def)
  have "arena_inv (b\<lparr>ar_active := Some i\<rparr>)"
    using inv i A rng unfolding arena_inv_def b
    by (auto simp: sorted_wrt_iff_nth_less nth_list_update all_set_conv_all_nth split: if_splits)
  then show ?thesis
    using i A act unfolding got_slice_def b s
    by (auto simp: arena_ext_def live_bytes_def byte_addr_def region_def sl_hi_def nth_list_update word_le_nat_alt)
qed

section \<open>Growing\<close>

text \<open>The guarded variant maps at least the requested size, whatever the 64-bit rounding does.\<close>

lemma guard_size_covers:
  assumes ps: "ps = 2 ^ k" "k \<le> 30" and sz: "0 < sz" "sz < 2 ^ 63"
    and al: "al = go_int (go_int (go_int (sz + ps) - 1) AND NOT (go_int (ps - 1)))"
    and pos: "0 < go_int (al + ps)"
  shows "sz \<le> al" "al + ps < 2 ^ 63" "go_int (al + ps) = al + ps"
proof -
  have p: "1 \<le> ps" "ps \<le> 2 ^ 30" using ps power_increasing [of k 30 "2::int"] by auto
  have "go_int (ps - 1) = ps - 1" using p by (intro go_int_nonneg) auto
  moreover have w: "go_int (go_int (sz + ps) - 1) = go_int (sz + ps - 1)"
    unfolding go_int_mod by (simp add: mod_simps algebra_simps)
  ultimately have al2: "al = go_int (go_int (sz + ps - 1) div ps * ps)"
    using al by (simp add: ps int_and_not_mask)
  have small: "sz + ps - 1 < 2 ^ 63"
  proof (rule ccontr)
    assume small: "\<not> ?thesis"
    then have g: "go_int (sz + ps - 1) = sz + ps - 1 - 2 ^ 64"
      using sz p small by (subst go_int_wrap) auto
    let ?x = "sz + ps - 1 - 2 ^ 64"
    have d: "?x div ps * ps \<le> ?x" "?x - ps < ?x div ps * ps"
      using p div_mult_mod_eq [of ?x ps] pos_mod_bound [of ps ?x] pos_mod_sign [of ps ?x] by linarith+
    have "go_int (al + ps) = go_int (?x div ps * ps + ps)"
      using al2 g by (simp add: go_int_add_left)
    moreover have "go_int (?x div ps * ps + ps) = ?x div ps * ps + ps"
      using d p sz small by (intro go_int_id) (simp add: in_int64_def)
    ultimately show False using pos d p sz by simp
  qed
  let ?x = "sz + ps - 1"
  have d: "?x div ps * ps \<le> ?x" "?x - ps < ?x div ps * ps"
    using p div_mult_mod_eq [of ?x ps] pos_mod_bound [of ps ?x] pos_mod_sign [of ps ?x] by linarith+
  have al3: "al = ?x div ps * ps"
    using al2 small d sz p by (simp add: go_int_nonneg)
  have "al + ps < 2 ^ 63"
  proof (rule ccontr)
    assume big: "\<not> ?thesis"
    then have "go_int (al + ps) = al + ps - 2 ^ 64"
      using d p small unfolding al3 by (subst go_int_wrap) auto
    then show False using pos d p small unfolding al3 by simp
  qed
  then have eqs: "sz \<le> al" "al + ps < 2 ^ 63" "go_int (al + ps) = al + ps"
    using d p sz by (auto simp: al3 intro: go_int_nonneg)
  show "sz \<le> al" "al + ps < 2 ^ 63" "go_int (al + ps) = al + ps"
    using eqs by auto
qed

lemma os_ok_mmap:
  assumes "os_ok os cs" "syscall_Mmap os n = Inr b"
  shows "0 < n" "4096 dvd unat b" "unat b + nat n \<le> 2 ^ 47"
    "c \<in> set cs \<Longrightarrow> {unat b ..< unat b + nat n} \<inter> addr_range c = {}"
  using assms by (auto simp: os_ok_def syscall_Mmap_def split: if_splits)

text \<open>A chunk obtained from the OS is live, zeroed, empty, page aligned and apart from the others.\<close>

definition fresh_chunk :: "chunk list \<Rightarrow> int \<Rightarrow> chunk \<Rightarrow> bool" where
  "fresh_chunk cs sz c \<longleftrightarrow>
     chunk_ok c \<and> ch_buf c = replicate (nat sz) 0 \<and> ch_off c = 0 \<and> 4096 dvd unat (ch_base c) \<and>
     (\<forall>d \<in> set cs. addr_range d \<inter> addr_range c = {})"

lemma newChunk_fresh:
  assumes os: "os_ok os cs" and sz: "0 < sz" "sz < 2 ^ 63" and c: "newChunk os sz g = Inr c"
  shows "fresh_chunk cs sz c"
proof (cases g)
  case False
  with c obtain b where b: "syscall_Mmap os sz = Inr b"
    and c': "c = \<lparr>ch_buf = replicate (nat sz) 0, ch_base = b, ch_off = 0, ch_release = Munmap\<rparr>"
    by (auto simp: newChunk_def allocArenaBuffer_def split: sum.splits)
  show ?thesis
    using os_ok_mmap [OF os b] sz c' unfolding fresh_chunk_def chunk_ok_def addr_range_def by auto
next
  case True
  let ?ps = "os_pagesize os"
  obtain k where k: "?ps = 2 ^ k" "k \<le> 30" using os by (auto simp: os_ok_def)
  define al where al: "al = go_int (go_int (go_int (sz + ?ps) - 1) AND NOT (go_int (?ps - 1)))"
  obtain b where b: "syscall_Mmap os (go_int (al + ?ps)) = Inr b"
    and c': "ch_buf c = replicate (nat sz) 0" "ch_base c = b" "ch_off c = 0"
    using c True by (auto simp: newChunk_def allocArenaBufferWithGuard_def Let_def al [symmetric]
        split: sum.splits option.splits)
  note B = os_ok_mmap [OF os b]
  have "sz \<le> al" "go_int (al + ?ps) = al + ?ps"
    using guard_size_covers [OF k sz al B(1)] by auto
  moreover have "0 < ?ps" using k by simp
  ultimately have le: "nat sz \<le> nat (go_int (al + ?ps))" by simp
  then have sub: "{unat b ..< unat b + nat sz} \<subseteq> {unat b ..< unat b + nat (go_int (al + ?ps))}" by auto
  show ?thesis
    unfolding fresh_chunk_def chunk_ok_def addr_range_def
    using B(2,3) le sz c' B(4) [unfolded addr_range_def] sub by auto
qed

lemma sum_chunk_len_bound:
  assumes "\<forall>c \<in> set cs. chunk_ok c" "sorted_wrt (\<lambda>c d. addr_range c \<inter> addr_range d = {}) cs"
  shows "sum_list (map chunk_len cs) \<le> 2 ^ 47"
proof -
  have "card (\<Union> (addr_range ` set cs)) = sum_list (map chunk_len cs)"
    using assms
  proof (induction cs)
    case Nil
    then show ?case by simp
  next
    case (Cons c cs)
    have "addr_range c \<inter> \<Union> (addr_range ` set cs) = {}" using Cons.prems by auto
    then have "card (addr_range c \<union> \<Union> (addr_range ` set cs)) = chunk_len c + card (\<Union> (addr_range ` set cs))"
      by (subst card_Un_disjoint) (auto simp: addr_range_def)
    then show ?case using Cons by simp
  qed
  moreover have "card (\<Union> (addr_range ` set cs)) \<le> card {..< (2::nat) ^ 47}"
    using assms(1) by (intro card_mono) (auto simp: addr_range_def chunk_ok_def)
  ultimately show ?thesis by simp
qed

lemma Capacity_eq:
  assumes "arena_inv a"
  shows "Capacity a = int (sum_list (map chunk_len (ar_chunks a)))"
    and "sum_list (map chunk_len (ar_chunks a)) \<le> 2 ^ 47"
proof -
  show b: "sum_list (map chunk_len (ar_chunks a)) \<le> 2 ^ 47"
    using assms by (intro sum_chunk_len_bound) (auto simp: arena_inv_def)
  show "Capacity a = int (sum_list (map chunk_len (ar_chunks a)))"
    unfolding Capacity_def using b by (subst fold_go_int_sum) auto
qed

lemma grow_size_Some:
  assumes "arena_inv a" "0 < n" "n < 2 ^ 63" "grow_size a n = Some sz"
  shows "n \<le> sz" "sz < 2 ^ 63"
proof -
  have cap: "0 \<le> Capacity a" "Capacity a \<le> 2 ^ 47" using Capacity_eq [OF assms(1)] by auto
  have c: "0 < ar_chunkSize a" "ar_chunkSize a < 2 ^ 62" "ar_maxCap a < 2 ^ 63" using assms(1) by (auto simp: arena_inv_def)
  have m: "go_int (ar_maxCap a - Capacity a) = ar_maxCap a - Capacity a" if "0 < ar_maxCap a"
    using that cap c by (intro go_int_id) (simp add: in_int64_def)
  show "n \<le> sz" "sz < 2 ^ 63"
    using assms(2-4) cap c m unfolding grow_size_def Let_def maxChunkSize_def
    by (auto split: if_splits)
qed

lemma arena_inv_grow:
  assumes inv: "arena_inv a" and c: "fresh_chunk (ar_chunks a) sz c"
  shows "arena_inv (a\<lparr>ar_chunks := ar_chunks a @ [c], ar_active := Some (length (ar_chunks a))\<rparr>)" (is "arena_inv ?b")
    and "arena_ext a (a\<lparr>ar_chunks := ar_chunks a @ [c], ar_active := Some (length (ar_chunks a))\<rparr>)"
    and "live_bytes (a\<lparr>ar_chunks := ar_chunks a @ [c], ar_active := Some (length (ar_chunks a))\<rparr>) = live_bytes a"
proof -
  show "arena_inv ?b" using assms by (auto simp: arena_inv_def fresh_chunk_def sorted_wrt_append)
  show "arena_ext a ?b"
    using arena_inv_active [OF inv] by (auto simp: arena_ext_def nth_append intro!: less_imp_le)
  show "live_bytes ?b = live_bytes a"
    using c by (auto simp: live_bytes_def nth_append fresh_chunk_def less_Suc_eq)
qed

text \<open>The outcome of a request: the arena is well-formed and has only grown, and a slice, if any,
  is fresh.\<close>

definition alloc_outcome :: "arena \<Rightarrow> int \<Rightarrow> int \<Rightarrow> arena \<times> slice option \<Rightarrow> bool" where
  "alloc_outcome a n align r \<longleftrightarrow>
     arena_inv (fst r) \<and> arena_ext a (fst r) \<and>
     (\<forall>s. snd r = Some s \<longrightarrow> got_slice a n align (fst r) s)"

lemma alloc_outcome_got: "got_slice a n align b s \<Longrightarrow> alloc_outcome a n align (b, Some s)"
  by (simp add: alloc_outcome_def got_slice_def)

lemma alloc_outcome_same: "arena_inv a \<Longrightarrow> alloc_outcome a n align (a, None)"
  by (simp add: alloc_outcome_def)

lemma alloc_at_active: "alloc_at f a i = Some (b, s) \<Longrightarrow> ar_active b = ar_active a"
  by (auto simp: alloc_at_def split: option.splits)

lemma alloc_at_outcome:
  assumes "arena_inv a" "valid_req n align" "ar_active a = Some i"
    and "alloc_at (\<lambda>c. chunk_alloc c n align) a i = Some (b, s)"
  shows "alloc_outcome a n align (b, Some s)"
proof -
  have "got_slice a n align (b\<lparr>ar_active := Some i\<rparr>) s"
    using assms by (intro alloc_at_got [OF assms(1,2) _ _ _ assms(4)]) (auto simp: arena_inv_def)
  moreover have "b\<lparr>ar_active := Some i\<rparr> = b"
    using alloc_at_active [OF assms(4)] assms(3) by simp
  ultimately show ?thesis by (simp add: alloc_outcome_got)
qed

lemma scan_chunks_got:
  assumes "arena_inv a" "valid_req n align" "ar_active a = Some i" "\<forall>j \<in> set js. i < j \<and> j < length (ar_chunks a)"
    and "scan_chunks a n align js = Some (b, s)"
  shows "got_slice a n align b s"
  using assms(4,5)
proof (induction js)
  case Nil
  then show ?case by simp
next
  case (Cons j js)
  show ?case
  proof (cases "alloc_at (\<lambda>c. chunk_alloc c n align) a j")
    case None
    with Cons show ?thesis by simp
  next
    case (Some r)
    then obtain b' where r: "r = (b', s)" "b = b'\<lparr>ar_active := Some j\<rparr>" using Cons.prems by (cases r) auto
    have "\<forall>k. j < k \<longrightarrow> k < length (ar_chunks a) \<longrightarrow> ch_off (ar_chunks a ! k) = 0"
      using assms(1,3) Cons.prems(1) by (auto simp: arena_inv_def)
    then show ?thesis
      using alloc_at_got [OF assms(1,2), of j b' s] Cons.prems assms(3) Some r by auto
  qed
qed

lemma got_slice_ext:
  assumes "arena_inv a" "arena_ext a b" "live_bytes b = live_bytes a" "got_slice b n align c s"
  shows "got_slice a n align c s"
  using assms arena_ext_trans [of a b c] by (auto simp: got_slice_def)

lemma grow_arena_outcome:
  assumes inv: "arena_inv a" and req: "valid_req n align" and os: "os_ok os (ar_chunks a)"
  shows "alloc_outcome a n align (grow_arena os a n align)"
proof (cases "grow_size a n")
  case None
  then show ?thesis using inv by (simp add: grow_arena_def alloc_outcome_same)
next
  case (Some sz)
  have sz: "0 < sz" "sz < 2 ^ 63" using grow_size_Some [OF inv _ _ Some] req by (auto simp: valid_req_def)
  show ?thesis
  proof (cases "newChunk os sz (ar_guardPages a)")
    case (Inl e)
    then show ?thesis using inv Some by (simp add: grow_arena_def alloc_outcome_same)
  next
    case (Inr c)
    let ?a1 = "a\<lparr>ar_chunks := ar_chunks a @ [c], ar_active := Some (length (ar_chunks a))\<rparr>"
    note G = arena_inv_grow [OF inv newChunk_fresh [OF os sz Inr]]
    show ?thesis
    proof (cases "alloc_at (\<lambda>c. chunk_alloc c n align) ?a1 (length (ar_chunks a))")
      case None
      then show ?thesis using G(1,2) Some Inr by (simp add: grow_arena_def Let_def alloc_outcome_def)
    next
      case (Some r)
      obtain b s where r: "r = (b, s)" by (cases r)
      have "alloc_outcome ?a1 n align (b, Some s)"
        using alloc_at_outcome [OF G(1) req, of "length (ar_chunks a)" b s] Some r by simp
      then have "got_slice a n align b s"
        using got_slice_ext [OF inv G(2,3)] by (simp add: alloc_outcome_def)
      then show ?thesis
        using \<open>grow_size a n = Some sz\<close> Inr Some r by (simp add: grow_arena_def Let_def alloc_outcome_got)
    qed
  qed
qed

lemma allocSlow_outcome:
  assumes inv: "arena_inv a" and req: "valid_req n align" and os: "os_ok os (ar_chunks a)"
  shows "alloc_outcome a n align (allocSlow os a n align)"
proof (cases "ar_active a")
  case None
  then show ?thesis using grow_arena_outcome [OF assms] by (simp add: allocSlow_def)
next
  case (Some act)
  have js: "\<forall>j \<in> set [Suc act ..< length (ar_chunks a)]. act < j \<and> j < length (ar_chunks a)" by auto
  show ?thesis
    using alloc_at_outcome [OF inv req Some] scan_chunks_got [OF inv req Some js] grow_arena_outcome [OF assms] Some
    by (auto simp: allocSlow_def alloc_outcome_got split: option.splits)
qed

lemma chunk_alloc_1: "chunk_alloc c n 1 = chunk_tryAlloc c n"
  by (simp add: chunk_alloc_def)

lemma chunk_tryAllocAligned_alloc:
  assumes "chunk_ok c" "valid_req n align"
  shows "chunk_tryAllocAligned c n align = chunk_alloc c n align"
  using assms by (simp add: valid_req_def chunk_tryAllocAligned_eq chunk_alloc_eq)

lemma TryAllocAligned_alloc:
  assumes "arena_inv a" "valid_req n align"
  shows "TryAllocAligned os a n align = allocSlow os a n align"
proof (cases "ar_active a")
  case None
  then show ?thesis using assms(2) by (simp add: TryAllocAligned_def valid_req_def)
next
  case (Some i)
  then have "chunk_ok (ar_chunks a ! i)" using assms(1) arena_inv_active arena_inv_chunk by blast
  then have "chunk_tryAllocAligned (ar_chunks a ! i) n align = chunk_alloc (ar_chunks a ! i) n align"
    using assms(2) by (rule chunk_tryAllocAligned_alloc)
  then show ?thesis
    using assms(2) Some by (auto simp: TryAllocAligned_def valid_req_def allocSlow_def alloc_at_def split: option.splits)
qed

lemma valid_req_1: "0 < n \<Longrightarrow> n < 2 ^ 63 \<Longrightarrow> valid_req n 1"
  by (simp add: valid_req_def isPowerOfTwo_def)

lemma TryAlloc_alloc:
  assumes "0 < n" "n < 2 ^ 63"
  shows "TryAlloc os a n = allocSlow os a n 1"
  using assms(1) by (auto simp: TryAlloc_def allocSlow_def chunk_alloc_1 split: option.splits)

lemma TryAllocAligned_outcome:
  "arena_inv a \<Longrightarrow> valid_req n align \<Longrightarrow> os_ok os (ar_chunks a) \<Longrightarrow>
     alloc_outcome a n align (TryAllocAligned os a n align)"
  by (simp add: TryAllocAligned_alloc allocSlow_outcome)

lemma TryAlloc_outcome:
  "arena_inv a \<Longrightarrow> 0 < n \<Longrightarrow> n < 2 ^ 63 \<Longrightarrow> os_ok os (ar_chunks a) \<Longrightarrow>
     alloc_outcome a n 1 (TryAlloc os a n)"
  by (simp add: TryAlloc_alloc allocSlow_outcome valid_req_1)

section \<open>The arena is a bump allocator\<close>

definition arena_req_ok :: "os_env \<Rightarrow> arena \<Rightarrow> int \<Rightarrow> int \<Rightarrow> bool" where
  "arena_req_ok os a n align \<longleftrightarrow> os_ok os (ar_chunks a) \<and> in_int64 n \<and> in_int64 align"

lemma TryAllocAligned_invalid:
  "\<not> (0 < n \<and> isPowerOfTwo align) \<Longrightarrow> TryAllocAligned os a n align = (a, None)"
  by (auto simp: TryAllocAligned_def)

lemma TryAllocAligned_ok:
  assumes "arena_inv a" "arena_req_ok os a n align"
  shows "alloc_outcome a n align (TryAllocAligned os a n align)"
proof (cases "0 < n \<and> isPowerOfTwo align")
  case True
  with assms show ?thesis
    by (intro TryAllocAligned_outcome) (auto simp: arena_req_ok_def valid_req_def in_int64_def)
next
  case False
  with assms(1) show ?thesis by (simp add: TryAllocAligned_invalid alloc_outcome_same)
qed

lemma addr_range_disjoint:
  assumes "arena_inv a" "i < length (ar_chunks a)" "k < length (ar_chunks a)" "i \<noteq> k"
  shows "addr_range (ar_chunks a ! i) \<inter> addr_range (ar_chunks a ! k) = {}"
proof -
  have D: "addr_range (ar_chunks a ! p) \<inter> addr_range (ar_chunks a ! q) = {}"
    if "p < q" "q < length (ar_chunks a)" for p q
    using assms(1) that by (simp add: arena_inv_def sorted_wrt_iff_nth_less)
  show ?thesis using D [of i k] D [of k i] assms(2-4) by (cases "i < k") (auto simp: Int_commute)
qed

lemma byte_addr_in_range:
  assumes "arena_inv a" "(i, j) \<in> live_bytes a"
  shows "byte_addr a (i, j) \<in> addr_range (ar_chunks a ! i)"
  using assms arena_inv_chunk [of a i] by (auto simp: live_bytes_def byte_addr_def addr_range_def chunk_ok_def)

lemma inj_on_byte_addr: "arena_inv a \<Longrightarrow> inj_on (byte_addr a) (live_bytes a)"
proof (rule inj_onI, clarify)
  fix i j k l
  assume inv: "arena_inv a" and p: "(i, j) \<in> live_bytes a" "(k, l) \<in> live_bytes a"
    and eq: "byte_addr a (i, j) = byte_addr a (k, l)"
  have "i = k"
  proof (rule ccontr)
    assume "i \<noteq> k"
    with inv p have "addr_range (ar_chunks a ! i) \<inter> addr_range (ar_chunks a ! k) = {}"
      by (intro addr_range_disjoint) (auto simp: live_bytes_def)
    moreover have "byte_addr a (i, j) \<in> addr_range (ar_chunks a ! i)" "byte_addr a (i, j) \<in> addr_range (ar_chunks a ! k)"
      using byte_addr_in_range [OF inv p(1)] byte_addr_in_range [OF inv p(2)] eq by simp_all
    ultimately show False by blast
  qed
  with eq show "i = k \<and> j = l" by (simp add: byte_addr_def)
qed

interpretation arena_bump: addressed_allocator arena_inv live_bytes arena_req_ok TryAllocAligned byte_addr
proof
  fix a os n align assume A: "arena_inv a" "arena_req_ok os a n align"
  note O = TryAllocAligned_ok [OF A]
  show "arena_inv (fst (TryAllocAligned os a n align))"
    "live_bytes a \<subseteq> live_bytes (fst (TryAllocAligned os a n align))"
    using O arena_ext_live by (auto simp: alloc_outcome_def)
  show "region sl \<inter> live_bytes a = {} \<and> region sl \<subseteq> live_bytes b"
    if "TryAllocAligned os a n align = (b, Some sl)" for b sl
    using O that by (auto simp: alloc_outcome_def got_slice_def)
  show "byte_addr (fst (TryAllocAligned os a n align)) p = byte_addr a p" if "p \<in> live_bytes a" for p
    using O that by (auto simp: alloc_outcome_def arena_ext_def byte_addr_def live_bytes_def)
next
  fix a assume "arena_inv a" then show "inj_on (byte_addr a) (live_bytes a)" by (rule inj_on_byte_addr)
qed

text \<open>Every arena operation that may grow keeps the invariant.\<close>

lemma arena_config_ok:
  assumes "0 < sz"
  shows "0 < ar_chunkSize (arena_config sz opts)" "0 \<le> ar_maxCap (arena_config sz opts)"
    "\<not> ar_closed (arena_config sz opts)"
proof -
  define g where "g = (\<lambda>opt a. case opt of None \<Rightarrow> a | Some f \<Rightarrow> apply_option f a)"
  define P :: "arena \<Rightarrow> bool" where "P a \<longleftrightarrow> 0 < ar_chunkSize a \<and> 0 \<le> ar_maxCap a \<and> \<not> ar_closed a" for a
  have step: "P (g opt a)" if "P a" for opt and a :: arena
  proof (cases opt)
    case (Some f)
    with that show ?thesis by (cases f) (auto simp: P_def g_def)
  qed (use that in \<open>simp add: g_def\<close>)
  have "P (fold g opts a)" if "P a" for a :: arena
    using that by (induction opts arbitrary: a) (auto simp: step)
  then have "P (arena_config sz opts)"
    using assms by (auto simp: arena_config_def g_def P_def)
  then show "0 < ar_chunkSize (arena_config sz opts)" "0 \<le> ar_maxCap (arena_config sz opts)"
    "\<not> ar_closed (arena_config sz opts)" by (auto simp: P_def)
qed

lemma NewArena_Return:
  assumes "NewArena os sz opts m = (m', Return a)" "os_ok os []" "ar_chunkSize (arena_config sz opts) < 2 ^ 62"
  obtains chk where "fresh_chunk [] (ar_chunkSize (arena_config sz opts)) chk" "0 < sz"
    "a = (arena_config sz opts)\<lparr>ar_chunks := [chk], ar_active := Some 0\<rparr>"
    "m' = RecordArenaCreated m (ar_chunkSize (arena_config sz opts))"
proof -
  have sz: "0 < sz" using assms(1) by (auto simp: NewArena_def split: if_splits)
  obtain chk where chk: "newChunk os (ar_chunkSize (arena_config sz opts)) (ar_guardPages (arena_config sz opts)) = Inr chk"
    and a: "a = (arena_config sz opts)\<lparr>ar_chunks := [chk], ar_active := Some 0\<rparr>"
    and m: "m' = RecordArenaCreated m (ar_chunkSize (arena_config sz opts))"
    using assms(1) sz by (auto simp: NewArena_def Let_def split: sum.splits)
  show ?thesis
    using that newChunk_fresh [OF assms(2) arena_config_ok(1) [OF sz] _ chk] assms(3) sz a m by simp
qed

lemma NewArena_inv:
  assumes "NewArena os sz opts m = (m', Return a)" "os_ok os []" 
    "ar_chunkSize (arena_config sz opts) < 2 ^ 62" "ar_maxCap (arena_config sz opts) < 2 ^ 63"
  shows "arena_inv a" "live_bytes a = {}"
proof -
  obtain chk where chk: "fresh_chunk [] (ar_chunkSize (arena_config sz opts)) chk" and sz: "0 < sz"
    and a: "a = (arena_config sz opts)\<lparr>ar_chunks := [chk], ar_active := Some 0\<rparr>"
    using NewArena_Return [OF assms(1-3)] by metis
  show "arena_inv a" "live_bytes a = {}"
    using chk arena_config_ok(1,2) [OF sz] assms(3,4) by (auto simp: a arena_inv_def fresh_chunk_def live_bytes_def)
qed

lemma Reset_inv: "arena_inv a \<Longrightarrow> arena_inv (Reset a)"
  by (auto simp: Reset_def Let_def arena_inv_def chunk_ok_def sorted_wrt_map addr_range_def split: option.splits)

lemma live_bytes_Reset: "live_bytes (Reset a) = {}"
  by (auto simp: Reset_def Let_def live_bytes_def)

lemma Capacity_Reset: "Capacity (Reset a) = Capacity a"
  by (simp add: Reset_def Let_def Capacity_def fold_map comp_def)

lemma Close_inv: "arena_inv a \<Longrightarrow> \<not> ar_closed a \<Longrightarrow> Close os a m = (m', b, e) \<Longrightarrow> arena_inv b"
  by (auto simp: Close_def arena_inv_def)

end
