(* ===== verification/Arena_Props.thy ===== *)
theory Arena_Props
  imports Arena
begin

text \<open>
  What clients of \<^verbatim>\<open>Arena\<close> may rely on beyond freshness: a request fails only when the capacity limit
  or the OS forbids it, the capacity limit holds, and \<^verbatim>\<open>Rewind\<close> to a \<^verbatim>\<open>Mark\<close> gives back exactly what
  was allocated since.
\<close>

section \<open>Why a request fails\<close>

text \<open>Only the chunk list and the active chunk ever change.\<close>

definition same_config :: "arena \<Rightarrow> arena \<Rightarrow> bool" where
  "same_config a b \<longleftrightarrow>
     ar_chunkSize b = ar_chunkSize a \<and> ar_maxCap b = ar_maxCap a \<and>
     ar_geometricGrowth b = ar_geometricGrowth a \<and> ar_guardPages b = ar_guardPages a \<and>
     ar_poisonOnExit b = ar_poisonOnExit a \<and> ar_poisonPattern b = ar_poisonPattern a \<and>
     ar_closed b = ar_closed a"

lemma alloc_at_config: "alloc_at f a i = Some (b, s) \<Longrightarrow> same_config a b"
  by (auto simp: alloc_at_def same_config_def split: option.splits)

lemma scan_chunks_config: "scan_chunks a n align js = Some (b, s) \<Longrightarrow> same_config a b"
  by (induction js) (auto simp: same_config_def dest: alloc_at_config split: option.splits)

lemma grow_arena_config: "same_config a (fst (grow_arena os a n align))"
  by (auto simp: grow_arena_def Let_def same_config_def alloc_at_def split: option.splits sum.splits)

lemma allocSlow_config: "same_config a (fst (allocSlow os a n align))"
  using grow_arena_config
  by (auto simp: allocSlow_def dest: alloc_at_config scan_chunks_config split: option.splits)

lemma TryAllocAligned_config: "same_config a (fst (TryAllocAligned os a n align))"
  using allocSlow_config
  by (auto simp: TryAllocAligned_def same_config_def dest: alloc_at_config split: option.splits)

lemma Capacity_ge_0: "arena_inv a \<Longrightarrow> 0 \<le> Capacity a \<and> Capacity a \<le> 2 ^ 47"
  using Capacity_eq by auto

lemma grow_size_None:
  assumes "arena_inv a" "0 < n" "grow_size a n = None"
  shows "0 < ar_maxCap a \<and> ar_maxCap a - Capacity a < n"
  using assms Capacity_ge_0 [OF assms(1)]
  by (auto simp: grow_size_def Let_def arena_inv_def in_int64_def split: if_splits)

lemma power2_12: "(2::nat) ^ 12 = 4096" by simp

lemma alloc_at_fresh:
  assumes "fresh_chunk cs sz c" "valid_req n align" "align \<le> 4096" "n \<le> sz"
  shows "chunk_alloc c n align \<noteq> None"
proof -
  obtain k where k: "align = 2 ^ k" using assms(2) isPowerOfTwo_iff by (auto simp: valid_req_def)
  have k12: "k \<le> 12"
  proof (rule ccontr)
    assume "\<not> ?thesis"
    then have "(2::int) ^ 13 \<le> 2 ^ k" by (intro power_increasing) auto
    with assms(3) k show False by simp
  qed
  have "nat align = 2 ^ k" using k by (simp add: nat_power_eq)
  moreover have "(2::nat) ^ k dvd 2 ^ 12" using k12 by (rule le_imp_power_dvd)
  ultimately have d: "nat align dvd unat (ch_base c)"
    using assms(1) by (metis fresh_chunk_def dvd_trans power2_12)
  have c: "chunk_ok c" "ch_off c = 0" "chunk_len c = nat sz" using assms(1) by (auto simp: fresh_chunk_def)
  show ?thesis
  proof
    assume "chunk_alloc c n align = None"
    from chunk_alloc_None [OF c(1) _ _ _ _ this, of 0] assms(2,4) c d
    show False by (auto simp: valid_req_def)
  qed
qed

lemma grow_arena_None:
  assumes inv: "arena_inv a" and os: "os_ok os (ar_chunks a)" and req: "valid_req n align" "align \<le> 4096"
    and none: "snd (grow_arena os a n align) = None"
  shows "(0 < ar_maxCap a \<and> ar_maxCap a - Capacity a < n) \<or>
     (\<exists>sz e. n \<le> sz \<and> newChunk os sz (ar_guardPages a) = Inl e)"
proof (cases "grow_size a n")
  case None
  then show ?thesis using grow_size_None [OF inv] req by (auto simp: valid_req_def)
next
  case (Some sz)
  have sz: "n \<le> sz" "sz < 2 ^ 63" using grow_size_Some [OF inv _ _ Some] req by (auto simp: valid_req_def)
  show ?thesis
  proof (cases "newChunk os sz (ar_guardPages a)")
    case (Inl e)
    with sz show ?thesis by blast
  next
    case (Inr c)
    have "fresh_chunk (ar_chunks a) sz c"
      using newChunk_fresh [OF os _ _ Inr] sz req by (auto simp: valid_req_def)
    then have "chunk_alloc c n align \<noteq> None" using alloc_at_fresh req sz by blast
    then show ?thesis using none Some Inr by (auto simp: grow_arena_def Let_def alloc_at_def nth_append)
  qed
qed

lemma TryAllocAligned_None:
  assumes "arena_inv a" "os_ok os (ar_chunks a)" "valid_req n align" "align \<le> 4096"
    and "TryAllocAligned os a n align = (b, None)"
  shows "(0 < ar_maxCap a \<and> ar_maxCap a - Capacity a < n) \<or>
     (\<exists>sz e. n \<le> sz \<and> newChunk os sz (ar_guardPages a) = Inl e)"
proof -
  have "snd (grow_arena os a n align) = None"
    using assms(5) by (auto simp: TryAllocAligned_alloc [OF assms(1,3)] allocSlow_def split: option.splits)
  then show ?thesis using assms by (intro grow_arena_None)
qed

section \<open>The capacity limit\<close>

lemma grow_size_limit:
  assumes "arena_inv a" "0 < n" "grow_size a n = Some sz" "0 < ar_maxCap a" "sz \<le> 2 ^ 47"
  shows "Capacity a + sz \<le> ar_maxCap a"
  using assms Capacity_ge_0 [OF assms(1)]
  by (auto simp: grow_size_def Let_def arena_inv_def in_int64_def go_int_nonneg split: if_splits)

lemma chunk_alloc_len: "chunk_alloc c n align = Some (c', lo, hi) \<Longrightarrow> ch_buf c' = ch_buf c"
  by (auto simp: chunk_alloc_def chunk_tryAlloc_def chunk_tryAllocAligned_def Let_def split: if_splits)

lemma alloc_at_bufs:
  assumes "alloc_at (\<lambda>c. chunk_alloc c n align) a i = Some (b, s)"
  shows "map ch_buf (ar_chunks b) = map ch_buf (ar_chunks a)"
proof (cases "i < length (ar_chunks a)")
  case True
  with assms show ?thesis
    by (auto simp: alloc_at_def map_update list_update_same_conv dest!: chunk_alloc_len split: option.splits)
next
  case False
  with assms show ?thesis by (auto simp: alloc_at_def list_update_beyond split: option.splits)
qed

lemma scan_chunks_bufs:
  "scan_chunks a n align js = Some (b, s) \<Longrightarrow> map ch_buf (ar_chunks b) = map ch_buf (ar_chunks a)"
  by (induction js) (auto dest: alloc_at_bufs split: option.splits)

lemma Capacity_cong:
  assumes "map ch_buf (ar_chunks b) = map ch_buf (ar_chunks a)"
  shows "Capacity b = Capacity a"
proof -
  have C: "Capacity x = fold (\<lambda>bs tot. go_int (tot + int (length bs))) (map ch_buf (ar_chunks x)) 0" for x
    by (simp add: Capacity_def fold_map comp_def)
  show ?thesis unfolding C assms ..
qed

lemma grow_arena_limit:
  assumes inv: "arena_inv a" and os: "os_ok os (ar_chunks a)" and req: "valid_req n align" "0 < ar_maxCap a"
    and al: "grow_arena os a n align = (b, r)"
  shows "Capacity b \<le> max (Capacity a) (ar_maxCap a)"
proof (cases "\<exists>sz c. grow_size a n = Some sz \<and> newChunk os sz (ar_guardPages a) = Inr c")
  case False
  then have "b = a" using al by (auto simp: grow_arena_def split: option.splits sum.splits)
  then show ?thesis by simp
next
  case True
  then obtain sz c where sz: "grow_size a n = Some sz" and c: "newChunk os sz (ar_guardPages a) = Inr c" by blast
  have szb: "n \<le> sz" "sz < 2 ^ 63" using grow_size_Some [OF inv _ _ sz] req by (auto simp: valid_req_def)
  have f: "fresh_chunk (ar_chunks a) sz c" using newChunk_fresh [OF os _ _ c] szb req by (auto simp: valid_req_def)
  let ?a1 = "a\<lparr>ar_chunks := ar_chunks a @ [c], ar_active := Some (length (ar_chunks a))\<rparr>"
  have "map ch_buf (ar_chunks b) = map ch_buf (ar_chunks ?a1)"
    using al sz c by (auto simp: grow_arena_def Let_def dest!: alloc_at_bufs split: option.splits)
  then have "Capacity b = Capacity ?a1" by (rule Capacity_cong)
  also have "\<dots> = Capacity a + sz"
    using Capacity_eq(1) [OF arena_inv_grow(1) [OF inv f]] Capacity_eq(1) [OF inv] f szb req
    by (simp add: fresh_chunk_def valid_req_def)
  also have "\<dots> \<le> ar_maxCap a"
    using grow_size_limit [OF inv _ sz] req f szb by (auto simp: valid_req_def fresh_chunk_def chunk_ok_def)
  finally show ?thesis by simp
qed

lemma TryAllocAligned_limit:
  assumes inv: "arena_inv a" and ok: "arena_req_ok os a n align" and cap: "0 < ar_maxCap a"
    and al: "TryAllocAligned os a n align = (b, r)"
  shows "Capacity b \<le> max (Capacity a) (ar_maxCap a)"
proof (cases "0 < n \<and> isPowerOfTwo align")
  case False
  then show ?thesis using al by (simp add: TryAllocAligned_invalid)
next
  case True
  then have req: "valid_req n align" using ok by (auto simp: arena_req_ok_def valid_req_def in_int64_def)
  have os: "os_ok os (ar_chunks a)" using ok by (simp add: arena_req_ok_def)
  have "grow_arena os a n align = (b, r) \<or> map ch_buf (ar_chunks b) = map ch_buf (ar_chunks a)"
    using al TryAllocAligned_alloc [OF inv req]
    by (auto simp: allocSlow_def dest!: alloc_at_bufs scan_chunks_bufs split: option.splits)
  then show ?thesis
  proof
    assume "grow_arena os a n align = (b, r)"
    with grow_arena_limit [OF inv os req cap] show ?thesis .
  next
    assume "map ch_buf (ar_chunks b) = map ch_buf (ar_chunks a)"
    then show ?thesis using Capacity_cong [of b a] by simp
  qed
qed

section \<open>Mark and Rewind\<close>

lemma makeMark_bits:
  assumes "i < 2 ^ 32" "unat off < 2 ^ 32"
  shows "drop_bit 32 (makeMark i off) = of_nat i" "makeMark i off AND 0xFFFFFFFF = off"
proof -
  have m: "(0xFFFFFFFF :: u64) = mask 32" by (simp add: mask_eq_exp_minus_1)
  have off: "take_bit 32 off = off"
    using assms(2) by (intro unat_eqI) (simp only: unat_take_bit_mod, simp)
  have i: "unat (of_nat i :: u64) = i" using assms(1) by (simp add: unat_word_of_nat)
  have mk: "makeMark i off = push_bit 32 (of_nat i) OR off"
    using off by (simp add: makeMark_def m take_bit_eq_mask)
  show "makeMark i off AND 0xFFFFFFFF = off"
    unfolding m mk using off by (simp add: take_bit_eq_mask [symmetric] take_bit_push_bit)
  have "drop_bit 32 off = 0"
    using assms(2) by (intro unat_eqI) (simp only: unat_drop_bit_div, simp)
  moreover have "drop_bit 32 (push_bit 32 (of_nat i :: u64)) = of_nat i"
    using assms(1) by (intro unat_eqI) (simp only: unat_drop_bit_div unat_push_bit_mod i, simp)
  ultimately show "drop_bit 32 (makeMark i off) = of_nat i" by (simp add: mk)
qed

lemma parseMark_makeMark:
  assumes "i < 2 ^ 32" "unat off < 2 ^ 32"
  shows "parseMark (makeMark i off) = (int i, off)"
proof -
  have "sint (of_nat i :: u64) = int i"
    using assms(1) by (simp add: signed_of_nat signed_take_bit_int_eq_self)
  then show ?thesis using makeMark_bits [OF assms] by (simp add: parseMark_def)
qed

text \<open>What rewinding leaves: the chunks of \<open>b\<close> with the offsets of \<open>a\<close>, all later ones empty.\<close>

definition offsets_of :: "arena \<Rightarrow> arena \<Rightarrow> arena" where
  "offsets_of a b = b\<lparr>ar_chunks :=
     map (\<lambda>i. (ar_chunks b ! i)\<lparr>ch_off := (if i < length (ar_chunks a) then ch_off (ar_chunks a ! i) else 0)\<rparr>)
       [0 ..< length (ar_chunks b)],
     ar_active := ar_active a\<rparr>"

lemma live_bytes_offsets_of:
  "arena_ext a b \<Longrightarrow> live_bytes (offsets_of a b) = live_bytes a"
  by (auto simp: live_bytes_def offsets_of_def arena_ext_def split: if_splits)

lemma offsets_of_inv:
  assumes "arena_inv a" "arena_inv b" "arena_ext a b" "ar_active a \<noteq> None"
  shows "arena_inv (offsets_of a b)"
proof -
  have "chunk_ok ((ar_chunks b ! i)\<lparr>ch_off := (if i < length (ar_chunks a) then ch_off (ar_chunks a ! i) else 0)\<rparr>)"
    if "i < length (ar_chunks b)" for i
    using arena_inv_chunk [OF assms(2) that] arena_inv_chunk [OF assms(1), of i] assms(3) that
    by (auto simp: chunk_ok_def arena_ext_def)
  then show ?thesis
    using assms by (auto simp: arena_inv_def offsets_of_def sorted_wrt_iff_nth_less addr_range_def arena_ext_def)
qed

lemma Rewind_Mark_eq:
  assumes inv: "arena_inv a" "arena_inv b" and ext: "arena_ext a b"
    and act: "ar_active a = Some i" "i < 2 ^ 32" "chunk_len (ar_chunks a ! i) < 2 ^ 32"
  shows "Rewind b (Mark a) = (offsets_of a b, None)"
proof -
  let ?c = "ar_chunks a ! i"
  have i: "i < length (ar_chunks a)" using arena_inv_active [OF inv(1) act(1)] .
  have c: "chunk_ok ?c" using arena_inv_chunk [OF inv(1) i] .
  then have off: "unat (ch_off ?c) < 2 ^ 32" using act(3) by (auto simp: chunk_ok_def)
  have pm: "parseMark (Mark a) = (int i, ch_off ?c)"
    using act off by (simp add: Mark_def parseMark_makeMark)
  obtain k where k: "ar_active b = Some k" "i \<le> k" and before: "\<forall>j < i. ch_off (ar_chunks b ! j) = ch_off (ar_chunks a ! j)"
    using ext act(1) by (auto simp: arena_ext_def)
  have ib: "i < length (ar_chunks b)" "ch_buf (ar_chunks b ! i) = ch_buf ?c" "ch_off ?c \<le> ch_off (ar_chunks b ! i)"
    using ext i by (auto simp: arena_ext_def)
  have fit: "\<not> ch_off ?c > of_nat (chunk_len ?c)"
    using c act(3) by (simp add: word_less_nat_alt unat_word_of_nat chunk_ok_def)
  have after: "ch_off (ar_chunks a ! j) = 0" if "i < j" "j < length (ar_chunks a)" for j
    using inv(1) act(1) that by (auto simp: arena_inv_def)
  have map_eq: "(if j > i then (ar_chunks b ! j)\<lparr>ch_off := 0\<rparr> else if j = i then (ar_chunks b ! j)\<lparr>ch_off := ch_off ?c\<rparr> else ar_chunks b ! j)
    = (ar_chunks b ! j)\<lparr>ch_off := (if j < length (ar_chunks a) then ch_off (ar_chunks a ! j) else 0)\<rparr>" for j
    using i after before [rule_format, of j] by (cases j i rule: linorder_cases) auto
  show ?thesis
    using ib k fit act(1) by (auto simp: Rewind_def pm Let_def offsets_of_def map_eq)
qed

text \<open>A chunk of 4 GiB or more does not fit the 32 bits a mark keeps of the offset.\<close>

lemma Mark_wraps:
  assumes "ar_active a = Some i" "ch_off (ar_chunks a ! i) = 2 ^ 32"
  shows "Mark a = makeMark i 0"
  using assms by (simp add: Mark_def makeMark_def)

lemma Rewind_error_same: "Rewind a mark = (b, Some e) \<Longrightarrow> b = a"
  by (auto simp: Rewind_def Let_def split: prod.splits if_splits)

section \<open>Accounting\<close>

lemma live_bytes_Sigma:
  "live_bytes a = Sigma {..< length (ar_chunks a)} (\<lambda>i. {..< unat (ch_off (ar_chunks a ! i))})"
  by (auto simp: live_bytes_def)

lemma finite_live_bytes [simp]: "finite (live_bytes a)"
  by (simp add: live_bytes_Sigma)

lemma card_live_bytes:
  "card (live_bytes a) = sum_list (map (\<lambda>c. unat (ch_off c)) (ar_chunks a))"
  by (simp add: live_bytes_Sigma card_SigmaI sum_list_sum_nth atLeast0LessThan)

lemma card_live_bytes_le:
  assumes "arena_inv a"
  shows "card (live_bytes a) \<le> sum_list (map chunk_len (ar_chunks a))"
  unfolding card_live_bytes using assms
  by (intro sum_list_mono) (auto simp: arena_inv_def chunk_ok_def)

lemma UsedBytes_card:
  assumes "arena_inv a"
  shows "UsedBytes a = int (card (live_bytes a))"
proof -
  have small: "card (live_bytes a) \<le> 2 ^ 47"
    using card_live_bytes_le [OF assms] Capacity_eq(2) [OF assms] by linarith
  have "fold (\<lambda>c t. go_int (t + sint (ch_off c))) cs tot = fold (\<lambda>c t. go_int (t + int (unat (ch_off c)))) cs tot"
    if "\<forall>c \<in> set cs. chunk_ok c" for cs tot
    using that
  proof (induction cs arbitrary: tot)
    case (Cons c cs)
    then have "unat (ch_off c) < 2 ^ 63" by (auto simp: chunk_ok_def)
    with Cons show ?case by (simp add: sint_small)
  qed simp
  then have "UsedBytes a = fold (\<lambda>c t. go_int (t + int (unat (ch_off c)))) (ar_chunks a) 0"
    using assms by (simp add: UsedBytes_def arena_inv_def)
  also have "\<dots> = int (card (live_bytes a))"
    unfolding card_live_bytes using small by (subst fold_go_int_sum) (auto simp: card_live_bytes)
  finally show ?thesis .
qed

lemma Capacity_mono_ext:
  assumes "arena_inv a" "arena_inv b" "arena_ext a b"
  shows "Capacity a \<le> Capacity b"
proof -
  let ?n = "length (ar_chunks a)"
  have "map chunk_len (take ?n (ar_chunks b)) = map chunk_len (ar_chunks a)"
    using assms(3) by (intro nth_equalityI) (auto simp: arena_ext_def)
  then have "sum_list (map chunk_len (ar_chunks b)) =
    sum_list (map chunk_len (ar_chunks a)) + sum_list (map chunk_len (drop ?n (ar_chunks b)))"
    by (metis append_take_drop_id map_append sum_list_append)
  then show ?thesis using assms(1,2) by (simp add: Capacity_eq)
qed

section \<open>Concrete systems\<close>

text \<open>An OS that maps up to 64 KiB at a given page, for the concrete instances below.\<close>

definition demo_os :: "u64 \<Rightarrow> os_env" where
  "demo_os b = \<lparr>os_pagesize = 4096, os_mmap = (\<lambda>n. if n \<le> 65536 then Inr b else Inl 12),
     os_mprotect = None, os_munmap = (\<lambda>_ _. None)\<rparr>"

lemma demo_os_ok:
  assumes "4096 dvd unat b" "unat b < 2 ^ 46" "\<forall>c \<in> set cs. unat (ch_base c) + chunk_len c \<le> unat b \<or> unat b + 65536 \<le> unat (ch_base c)"
  shows "os_ok (demo_os b) cs"
  unfolding os_ok_def demo_os_def
proof (intro conjI allI impI ballI)
  show "\<exists>k\<ge>12. k \<le> 30 \<and> os_pagesize \<lparr>os_pagesize = 4096, os_mmap = \<lambda>n. if n \<le> 65536 then Inr b else Inl 12, os_mprotect = None, os_munmap = \<lambda>_ _. None\<rparr> = 2 ^ k"
    by (rule exI [of _ 12]) simp
qed (use assms in \<open>auto simp: addr_range_def split: if_splits\<close>)

definition no_mem_os :: os_env where
  "no_mem_os = \<lparr>os_pagesize = 4096, os_mmap = (\<lambda>_. Inl 12), os_mprotect = None, os_munmap = (\<lambda>_ _. None)\<rparr>"

lemma no_mem_os_ok: "os_ok no_mem_os cs"
  by (auto simp: os_ok_def no_mem_os_def intro!: exI [of _ 12])

end
