(* ===== verification/Checkpoint.thy ===== *)
theory Checkpoint
  imports Arena_Props
begin

text \<open>
  Savepoints of \<^verbatim>\<open>checkpoint.go\<close>: a snapshot of all chunk offsets, the rollback to it, and
  \<^verbatim>\<open>Transaction\<close>. The pointer comparison \<^verbatim>\<open>sp.arena != a\<close> is made on an identity \<open>aid\<close> that
  the caller gives each arena.
\<close>

datatype checkpoint_error = ErrInvalidSavepoint

record savepoint =
  sp_arena :: nat
  sp_offsets :: "u64 list"
  sp_activeChunkIdx :: int

definition Savepoint :: "nat \<Rightarrow> arena \<Rightarrow> savepoint" where
  "Savepoint aid a =
     \<lparr>sp_arena = aid, sp_offsets = map ch_off (ar_chunks a),
      sp_activeChunkIdx = (case ar_active a of Some i \<Rightarrow> int i | None \<Rightarrow> 0)\<rparr>"

definition Rollback :: "nat \<Rightarrow> arena \<Rightarrow> savepoint option \<Rightarrow> arena \<times> checkpoint_error option" where
  "Rollback aid a osp =
     (case osp of
        None \<Rightarrow> (a, Some ErrInvalidSavepoint)
      | Some sp \<Rightarrow>
          if sp_arena sp \<noteq> aid then (a, Some ErrInvalidSavepoint)
          else let cs = ar_chunks a; offs = sp_offsets sp; k = sp_activeChunkIdx sp
          in if length offs > length cs then (a, Some ErrInvalidSavepoint)
          else (a\<lparr>ar_chunks := map (\<lambda>i. (cs ! i)\<lparr>ch_off := (if i < length offs then offs ! i else 0)\<rparr>)
                                  [0 ..< length cs],
                  ar_active := (if 0 \<le> k \<and> k < int (length cs) then Some (nat k) else ar_active a)\<rparr>,
                None))"

text \<open>\<^verbatim>\<open>fn\<close> may return an error, succeed, or panic; a panic is passed on after the rollback.\<close>

definition Transaction ::
  "nat \<Rightarrow> (arena \<Rightarrow> arena \<times> 'err option go) \<Rightarrow> arena \<Rightarrow> arena \<times> 'err option go" where
  "Transaction aid fn a =
     (let sp = Savepoint aid a
      in case fn a of
           (b, Panic p) \<Rightarrow> (fst (Rollback aid b (Some sp)), Panic p)
         | (b, Return (Some err)) \<Rightarrow> (fst (Rollback aid b (Some sp)), Return (Some err))
         | (b, Return None) \<Rightarrow> (b, Return None))"

section \<open>Rollback gives the snapshot back\<close>

lemma Rollback_Savepoint_eq:
  assumes "arena_inv a" "ar_active a \<noteq> None" "length (ar_chunks a) \<le> length (ar_chunks b)"
  shows "Rollback aid b (Some (Savepoint aid a)) = (offsets_of a b, None)"
proof -
  obtain i where i: "ar_active a = Some i" "i < length (ar_chunks a)"
    using assms(1,2) arena_inv_active by blast
  then show ?thesis
    using assms(3) by (auto simp: Rollback_def Savepoint_def Let_def offsets_of_def)
qed

text \<open>Savepoints are one of the two snapshot mechanisms of the arena; marks are the other.\<close>

definition rollback_opt :: "nat \<Rightarrow> arena \<Rightarrow> savepoint \<Rightarrow> arena option" where
  "rollback_opt aid b sp = (case Rollback aid b (Some sp) of (u, None) \<Rightarrow> Some u | (u, Some e) \<Rightarrow> None)"

definition rewind_opt :: "arena \<Rightarrow> u64 \<Rightarrow> arena option" where
  "rewind_opt b m = (case Rewind b m of (u, None) \<Rightarrow> Some u | (u, Some e) \<Rightarrow> None)"

definition markable :: "arena \<Rightarrow> bool" where
  "markable a \<longleftrightarrow> (\<exists>i. ar_active a = Some i \<and> i < 2 ^ 32 \<and> chunk_len (ar_chunks a ! i) < 2 ^ 32)"

lemma arena_alloc_ext:
  "arena_inv a \<Longrightarrow> arena_req_ok os a n align \<Longrightarrow> arena_ext a (fst (TryAllocAligned os a n align))"
  using TryAllocAligned_ok by (simp add: alloc_outcome_def)

interpretation savepoints: rewinding_allocator arena_inv live_bytes arena_req_ok TryAllocAligned
  arena_ext "Savepoint aid" "\<lambda>a. ar_active a \<noteq> None" "rollback_opt aid" for aid
proof
  fix a b :: arena assume A: "arena_inv a" "arena_inv b" "arena_ext a b" "ar_active a \<noteq> None"
  then have "Rollback aid b (Some (Savepoint aid a)) = (offsets_of a b, None)"
    by (intro Rollback_Savepoint_eq) (auto simp: arena_ext_def)
  then show "\<exists>u. rollback_opt aid b (Savepoint aid a) = Some u \<and> arena_inv u \<and> live_bytes u = live_bytes a"
    using offsets_of_inv [OF A] live_bytes_offsets_of [OF A(3)] by (simp add: rollback_opt_def)
qed (auto intro: arena_ext_trans arena_alloc_ext)

interpretation marks: rewinding_allocator arena_inv live_bytes arena_req_ok TryAllocAligned
  arena_ext Mark markable rewind_opt
proof
  fix a b :: arena assume A: "arena_inv a" "arena_inv b" "arena_ext a b" "markable a"
  then obtain i where i: "ar_active a = Some i" "i < 2 ^ 32" "chunk_len (ar_chunks a ! i) < 2 ^ 32"
    by (auto simp: markable_def)
  have "Rewind b (Mark a) = (offsets_of a b, None)" by (rule Rewind_Mark_eq [OF A(1-3) i])
  then show "\<exists>u. rewind_opt b (Mark a) = Some u \<and> arena_inv u \<and> live_bytes u = live_bytes a"
    using offsets_of_inv [OF A(1-3)] live_bytes_offsets_of [OF A(3)] i by (simp add: rewind_opt_def)
qed (auto intro: arena_ext_trans arena_alloc_ext)

end
