(* ===== verification/Arena_Replay.thy ===== *)
theory Arena_Replay
  imports Checkpoint
begin

text \<open>
  Whole workloads on an arena: how its configuration and its capacity behave over a run of requests,
  and the simulation behind reuse after \<^verbatim>\<open>Reset\<close>: an arena that already has the chunks a run will
  need serves that run like the arena it shadows, without growing.
\<close>

section \<open>Runs\<close>

lemma run_config: "same_config a (fst (alloc_run TryAllocAligned rs a))"
proof (induction rs arbitrary: a)
  case Nil
  then show ?case by (simp add: same_config_def)
next
  case (Cons r rs)
  obtain os n al where r: "r = (os, n, al)" by (cases r)
  show ?case
    using TryAllocAligned_config [of a os n al] Cons.IH [of "fst (TryAllocAligned os a n al)"]
    by (auto simp: r same_config_def split: prod.splits)
qed

lemma run_limit:
  assumes "arena_inv a" "run_ok arena_req_ok TryAllocAligned rs a" "0 < ar_maxCap a"
  shows "Capacity (fst (alloc_run TryAllocAligned rs a)) \<le> max (Capacity a) (ar_maxCap a)"
  using assms
proof (induction rs arbitrary: a)
  case Nil
  then show ?case by simp
next
  case (Cons r rs)
  obtain os n al where r: "r = (os, n, al)" by (cases r)
  obtain b o1 where b: "TryAllocAligned os a n al = (b, o1)" by force
  have ok: "arena_req_ok os a n al" and rs: "run_ok arena_req_ok TryAllocAligned rs b"
    using Cons.prems by (auto simp: r b)
  have m: "ar_maxCap b = ar_maxCap a" using TryAllocAligned_config [of a os n al] b by (simp add: same_config_def)
  have "Capacity b \<le> max (Capacity a) (ar_maxCap a)"
    using TryAllocAligned_limit [OF Cons.prems(1) ok Cons.prems(3) b] .
  moreover have "arena_inv b"
    using arena_bump.alloc_inv [OF Cons.prems(1) ok] by (simp add: b)
  ultimately show ?case using Cons.IH [OF _ rs] Cons.prems(3) m by (auto simp: r b split: prod.splits)
qed

lemma run_pos:
  assumes "arena_inv a" "run_ok arena_req_ok TryAllocAligned rs a" "alloc_run TryAllocAligned rs a = (b, sls)" "x \<in> set sls"
  shows "0 < sl_len x"
  using assms
proof (induction rs arbitrary: a sls)
  case (Cons r rs)
  obtain os n al where r: "r = (os, n, al)" by (cases r)
  obtain t o1 where t: "TryAllocAligned os a n al = (t, o1)" by force
  obtain sls1 where run: "alloc_run TryAllocAligned rs t = (b, sls1)"
    and sls: "sls = (case o1 of None \<Rightarrow> sls1 | Some y \<Rightarrow> y # sls1)"
    using Cons.prems(3) by (auto simp: r t split: prod.splits)
  have ok: "arena_req_ok os a n al" "run_ok arena_req_ok TryAllocAligned rs t" using Cons.prems(2) by (auto simp: r t)
  have inv_t: "arena_inv t" using arena_bump.alloc_inv [OF Cons.prems(1) ok(1)] by (simp add: t)
  have "0 < sl_len y" if y: "o1 = Some y" for y
  proof -
    have "0 < n" using t y TryAllocAligned_invalid [of n al os a] by (cases "0 < n") auto
    then show ?thesis using TryAllocAligned_ok [OF Cons.prems(1) ok(1)] t y by (simp add: alloc_outcome_def got_slice_def)
  qed
  then show ?case using Cons.IH [OF inv_t ok(2) run] Cons.prems(4) sls by (cases o1) auto
qed simp

section \<open>Shadows\<close>

text \<open>Two chunks with the same memory and offset allocate alike.\<close>

definition same_chunk :: "chunk \<Rightarrow> chunk \<Rightarrow> bool" where
  "same_chunk c d \<longleftrightarrow> ch_buf d = ch_buf c \<and> ch_base d = ch_base c \<and> ch_release d = ch_release c \<and> ch_off d = ch_off c"

definition chunk_mem :: "chunk \<Rightarrow> u8 list \<times> u64 \<times> release" where
  "chunk_mem c = (ch_buf c, ch_base c, ch_release c)"

definition same_mem :: "arena \<Rightarrow> arena \<Rightarrow> bool" where
  "same_mem b a' \<longleftrightarrow> length (ar_chunks b) \<le> length (ar_chunks a') \<and>
     (\<forall>i < length (ar_chunks b). chunk_mem (ar_chunks a' ! i) = chunk_mem (ar_chunks b ! i))"

definition shadow :: "arena \<Rightarrow> arena \<Rightarrow> bool" where
  "shadow a a' \<longleftrightarrow> length (ar_chunks a) \<le> length (ar_chunks a') \<and> ar_active a' = ar_active a \<and>
     ar_active a \<noteq> None \<and>
     (\<forall>i < length (ar_chunks a). same_chunk (ar_chunks a ! i) (ar_chunks a' ! i)) \<and>
     (\<forall>i. length (ar_chunks a) \<le> i \<longrightarrow> i < length (ar_chunks a') \<longrightarrow> ch_off (ar_chunks a' ! i) = 0)"

lemma chunk_alloc_cong:
  "same_chunk c d \<Longrightarrow>
     chunk_alloc d n al = map_option (\<lambda>(c', lo, hi). (d\<lparr>ch_off := ch_off c'\<rparr>, lo, hi)) (chunk_alloc c n al)"
  by (simp add: same_chunk_def chunk_alloc_def chunk_tryAlloc_def chunk_tryAllocAligned_def Let_def)

lemma chunk_alloc_same:
  "chunk_alloc c n al = Some (c', lo, hi) \<Longrightarrow>
     ch_buf c' = ch_buf c \<and> ch_base c' = ch_base c \<and> ch_release c' = ch_release c"
  by (auto simp: chunk_alloc_def chunk_tryAlloc_def chunk_tryAllocAligned_def Let_def split: if_splits)

lemma alloc_at_shadow_None:
  "same_chunk (ar_chunks a ! i) (ar_chunks a' ! i) \<Longrightarrow>
     alloc_at (\<lambda>c. chunk_alloc c n al) a i = None \<Longrightarrow> alloc_at (\<lambda>c. chunk_alloc c n al) a' i = None"
  by (auto simp: alloc_at_def chunk_alloc_cong split: option.splits)

lemma alloc_at_shadow_Some:
  assumes "shadow a a'" "i < length (ar_chunks a)" "alloc_at (\<lambda>c. chunk_alloc c n al) a i = Some (b, s)"
  shows "\<exists>b'. alloc_at (\<lambda>c. chunk_alloc c n al) a' i = Some (b', s) \<and> shadow b b' \<and>
    map chunk_mem (ar_chunks b') = map chunk_mem (ar_chunks a')"
proof -
  obtain c lo hi where c: "chunk_alloc (ar_chunks a ! i) n al = Some (c, lo, hi)"
    and b: "b = a\<lparr>ar_chunks := (ar_chunks a)[i := c]\<rparr>" and s: "s = Slice i lo (hi - lo) (chunk_cap c - lo)"
    using assms(3) by (auto simp: alloc_at_def split: option.splits)
  have same: "same_chunk (ar_chunks a ! i) (ar_chunks a' ! i)" using assms(1,2) by (simp add: shadow_def)
  have u: "ch_buf c = ch_buf (ar_chunks a ! i)" "ch_base c = ch_base (ar_chunks a ! i)"
    "ch_release c = ch_release (ar_chunks a ! i)"
    using chunk_alloc_same [OF c] by auto
  let ?c' = "(ar_chunks a' ! i)\<lparr>ch_off := ch_off c\<rparr>"
  let ?b' = "a'\<lparr>ar_chunks := (ar_chunks a')[i := ?c']\<rparr>"
  have cl: "chunk_cap (ar_chunks a' ! i) = chunk_cap c"
    using same u by (simp add: same_chunk_def chunk_cap_def split: release.split)
  have "alloc_at (\<lambda>c. chunk_alloc c n al) a' i = Some (?b', s)"
    by (simp add: alloc_at_def chunk_alloc_cong [OF same] c s cl)
  moreover have "same_chunk c ?c'" using same u by (simp add: same_chunk_def)
  then have "shadow b ?b'" using assms(1,2) by (simp add: shadow_def b nth_list_update)
  moreover have "map chunk_mem (ar_chunks ?b') = map chunk_mem (ar_chunks a')"
    using assms(1,2) by (auto intro!: nth_equalityI simp: nth_list_update shadow_def chunk_mem_def)
  ultimately show ?thesis by blast
qed

lemma scan_shadow_None:
  "shadow a a' \<Longrightarrow> \<forall>j \<in> set js. j < length (ar_chunks a) \<Longrightarrow> scan_chunks a n al js = None \<Longrightarrow>
     scan_chunks a' n al (js @ ks) = scan_chunks a' n al ks"
proof (induction js)
  case (Cons j js)
  have "alloc_at (\<lambda>c. chunk_alloc c n al) a j = None" using Cons.prems(3) by (auto split: option.splits)
  then have j: "alloc_at (\<lambda>c. chunk_alloc c n al) a' j = None" and "scan_chunks a n al js = None"
    using Cons.prems alloc_at_shadow_None [of a j a' n al] by (auto simp: shadow_def)
  then show ?case using Cons.IH Cons.prems by simp
qed simp

lemma scan_shadow_Some:
  assumes "shadow a a'" "\<forall>j \<in> set js. j < length (ar_chunks a)" "scan_chunks a n al js = Some (b, s)"
  shows "\<exists>b'. scan_chunks a' n al (js @ ks) = Some (b', s) \<and> shadow b b' \<and>
    map chunk_mem (ar_chunks b') = map chunk_mem (ar_chunks a')"
  using assms(2,3)
proof (induction js)
  case (Cons j js)
  show ?case
  proof (cases "alloc_at (\<lambda>c. chunk_alloc c n al) a j")
    case None
    then have "alloc_at (\<lambda>c. chunk_alloc c n al) a' j = None"
      using assms(1) Cons.prems alloc_at_shadow_None [of a j a' n al] by (simp add: shadow_def)
    with None Cons show ?thesis by simp
  next
    case (Some r)
    then obtain b0 where r: "r = (b0, s)" "b = b0\<lparr>ar_active := Some j\<rparr>" using Cons.prems by (cases r) auto
    then show ?thesis
      using alloc_at_shadow_Some [OF assms(1), of j n al b0 s] Cons.prems Some by (auto simp: shadow_def)
  qed
qed simp

text \<open>The request that made the arena grow finds, in its shadow, the chunk already there.\<close>

lemma grow_shadow:
  assumes "shadow a a'" "grow_arena os a n al = (b, Some s)" "same_mem b a'"
  shows "\<exists>b'. scan_chunks a' n al [length (ar_chunks a) ..< length (ar_chunks a')] = Some (b', s) \<and> shadow b b' \<and>
    map chunk_mem (ar_chunks b') = map chunk_mem (ar_chunks a')"
proof -
  let ?k = "length (ar_chunks a)"
  obtain sz c where "grow_size a n = Some sz" and c: "newChunk os sz (ar_guardPages a) = Inr c"
    and al: "alloc_at (\<lambda>c. chunk_alloc c n al) (a\<lparr>ar_chunks := ar_chunks a @ [c], ar_active := Some ?k\<rparr>) ?k = Some (b, s)"
    using assms(2) by (auto simp: grow_arena_def Let_def split: option.splits sum.splits)
  let ?a1 = "a\<lparr>ar_chunks := ar_chunks a @ [c], ar_active := Some ?k\<rparr>"
  let ?a1' = "a'\<lparr>ar_active := Some ?k\<rparr>"
  obtain c1 lo hi where c1: "chunk_alloc c n al = Some (c1, lo, hi)" and b: "b = ?a1\<lparr>ar_chunks := ar_chunks a @ [c1]\<rparr>"
    using al by (auto simp: alloc_at_def split: option.splits)
  have u: "ch_buf c1 = ch_buf c" "ch_base c1 = ch_base c" "ch_release c1 = ch_release c"
    using chunk_alloc_same [OF c1] by auto
  have off: "ch_off c = 0" using c by (auto simp: newChunk_def split: sum.splits if_splits)
  have k: "?k < length (ar_chunks a')" using assms(3) by (simp add: same_mem_def b)
  then have "same_chunk c (ar_chunks a' ! ?k)"
    using assms(1,3) off u by (auto simp: same_mem_def same_chunk_def b shadow_def chunk_mem_def)
  then have "shadow ?a1 ?a1'" using assms(1) k by (auto simp: shadow_def nth_append less_Suc_eq)
  from alloc_at_shadow_Some [OF this _ al] obtain b' where b': "alloc_at (\<lambda>c. chunk_alloc c n al) ?a1' ?k = Some (b', s)"
    "shadow b b'" "map chunk_mem (ar_chunks b') = map chunk_mem (ar_chunks a')"
    by auto
  have js: "[?k ..< length (ar_chunks a')] = ?k # [Suc ?k ..< length (ar_chunks a')]" using k by (simp add: upt_rec)
  obtain b2 where "alloc_at (\<lambda>c. chunk_alloc c n al) a' ?k = Some (b2, s)" "b' = b2\<lparr>ar_active := Some ?k\<rparr>"
    using b'(1) by (auto simp: alloc_at_def split: option.splits)
  with b' show ?thesis by (auto simp: js)
qed

lemma TryAllocAligned_shadow:
  assumes inv: "arena_inv a" "arena_inv a'" and req: "valid_req n al" and sh: "shadow a a'"
    and al: "TryAllocAligned os a n al = (b, Some s)" and mem: "same_mem b a'"
  shows "\<exists>b'. TryAllocAligned os' a' n al = (b', Some s) \<and> shadow b b' \<and>
    map chunk_mem (ar_chunks b') = map chunk_mem (ar_chunks a')"
proof -
  obtain act where act: "ar_active a = Some act" "ar_active a' = Some act" using sh by (auto simp: shadow_def)
  have i: "act < length (ar_chunks a)" using inv(1) act(1) by (rule arena_inv_active)
  have len: "length (ar_chunks a) \<le> length (ar_chunks a')" using sh by (simp add: shadow_def)
  let ?js = "[Suc act ..< length (ar_chunks a)]" and ?ks = "[length (ar_chunks a) ..< length (ar_chunks a')]"
  have js: "[Suc act ..< length (ar_chunks a')] = ?js @ ?ks"
    using upt_add_eq_append [of "Suc act" "length (ar_chunks a)" "length (ar_chunks a') - length (ar_chunks a)"] i len by simp
  have slow: "allocSlow os a n al = (b, Some s)" using al by (simp add: TryAllocAligned_alloc [OF inv(1) req])
  have goal: "TryAllocAligned os' a' n al = allocSlow os' a' n al" by (rule TryAllocAligned_alloc [OF inv(2) req])
  show ?thesis
  proof (cases "alloc_at (\<lambda>c. chunk_alloc c n al) a act")
    case (Some r)
    then have "alloc_at (\<lambda>c. chunk_alloc c n al) a act = Some (b, s)"
      using slow act by (cases r) (simp add: allocSlow_def)
    from alloc_at_shadow_Some [OF sh i this] show ?thesis using goal act by (auto simp: allocSlow_def)
  next
    case None
    then have n': "alloc_at (\<lambda>c. chunk_alloc c n al) a' act = None"
      using sh i alloc_at_shadow_None [of a act a' n al] by (simp add: shadow_def)
    show ?thesis
    proof (cases "scan_chunks a n al ?js")
      case (Some r)
      then have "scan_chunks a n al ?js = Some (b, s)" using slow act None by (cases r) (simp add: allocSlow_def)
      from scan_shadow_Some [OF sh _ this, of ?ks] show ?thesis
        using goal act n' by (auto simp: allocSlow_def js)
    next
      case scan: None
      then have "grow_arena os a n al = (b, Some s)" using slow act None by (simp add: allocSlow_def)
      from grow_shadow [OF sh this mem] show ?thesis
        using goal act n' scan_shadow_None [OF sh _ scan, of ?ks] by (auto simp: allocSlow_def js)
    qed
  qed
qed

lemma same_mem_trans: "same_mem b c \<Longrightarrow> same_mem c d \<Longrightarrow> same_mem b d"
  by (auto simp: same_mem_def)

lemma same_mem_map:
  assumes "map chunk_mem (ar_chunks b') = map chunk_mem (ar_chunks a')"
  shows "same_mem x a' \<longleftrightarrow> same_mem x b'"
proof -
  have l: "length (ar_chunks b') = length (ar_chunks a')" using assms(1) by (metis length_map)
  have "chunk_mem (ar_chunks b' ! i) = chunk_mem (ar_chunks a' ! i)"
    if "i < length (ar_chunks a')" for i
    using assms that l by (metis nth_map)
  then show ?thesis by (auto simp: same_mem_def l)
qed

lemma arena_ext_same_mem: "arena_ext a b \<Longrightarrow> same_mem a b"
  by (auto simp: arena_ext_def same_mem_def chunk_mem_def)

lemma alloc_run_length: "length (snd (alloc_run f rs s)) \<le> length rs"
proof (induction rs arbitrary: s)
  case (Cons r rs)
  obtain e n al where r: "r = (e, n, al)" by (cases r)
  show ?case using Cons.IH [of "fst (f e s n al)"] by (auto simp: r split: prod.splits option.splits)
qed simp

lemma run_shadow:
  assumes "arena_inv a" "arena_inv a'" "run_ok arena_req_ok TryAllocAligned rs a" "shadow a a'"
    "alloc_run TryAllocAligned rs a = (b, sls)" "length sls = length rs" "same_mem b a'"
    "run_ok arena_req_ok TryAllocAligned rs' a'" "map snd rs' = map snd rs"
  shows "\<exists>b'. alloc_run TryAllocAligned rs' a' = (b', sls) \<and> shadow b b' \<and>
    map chunk_mem (ar_chunks b') = map chunk_mem (ar_chunks a')"
  using assms
proof (induction rs arbitrary: a a' sls rs')
  case Nil
  then show ?case by simp
next
  case (Cons r rs)
  obtain os n al where r: "r = (os, n, al)" by (cases r)
  obtain os' rs1 where rs': "rs' = (os', n, al) # rs1" "map snd rs1 = map snd rs"
    using Cons.prems(9) by (cases rs') (auto simp: r)
  obtain t o1 where t: "TryAllocAligned os a n al = (t, o1)" by force
  obtain sls1 where run: "alloc_run TryAllocAligned rs t = (b, sls1)"
    and sls: "sls = (case o1 of None \<Rightarrow> sls1 | Some x \<Rightarrow> x # sls1)"
    using Cons.prems(5) by (auto simp: r t split: prod.splits)
  have len: "length sls1 \<le> length rs" using alloc_run_length [of TryAllocAligned rs t] run by simp
  then obtain s where s: "o1 = Some s" "length sls1 = length rs" 
    using Cons.prems(6) sls by (cases o1) auto
  have ok: "arena_req_ok os a n al" "run_ok arena_req_ok TryAllocAligned rs t"
    using Cons.prems(3) by (auto simp: r t)
  have req: "valid_req n al"
    using ok(1) t s TryAllocAligned_invalid [of n al os a]
    by (cases "0 < n \<and> isPowerOfTwo al") (auto simp: arena_req_ok_def valid_req_def in_int64_def)
  have inv_t: "arena_inv t" using arena_bump.alloc_inv [OF Cons.prems(1) ok(1)] by (simp add: t)
  have "same_mem t b" using marks.run_ext [OF inv_t ok(2)] run by (intro arena_ext_same_mem) simp
  then have mem: "same_mem t a'" using Cons.prems(7) by (rule same_mem_trans)
  obtain t' where t': "TryAllocAligned os' a' n al = (t', Some s)" "shadow t t'"
    "map chunk_mem (ar_chunks t') = map chunk_mem (ar_chunks a')"
    using TryAllocAligned_shadow [OF Cons.prems(1,2) req Cons.prems(4) t [unfolded s] mem] by blast
  have ok': "arena_req_ok os' a' n al" "run_ok arena_req_ok TryAllocAligned rs1 t'"
    using Cons.prems(8) by (auto simp: rs' t')
  have inv_t': "arena_inv t'" using arena_bump.alloc_inv [OF Cons.prems(2) ok'(1)] by (simp add: t')
  have "same_mem b t'" using Cons.prems(7) same_mem_map [OF t'(3)] by simp
  from Cons.IH [OF inv_t inv_t' ok(2) t'(2) run s(2) this ok'(2) rs'(2)] show ?case
    using t'(1,3) s sls by (auto simp: rs')
qed

end
