(* ===== verification/Arena_Spec.thy ===== *)
theory Arena_Spec
  imports Arena_Replay
begin

text \<open>
  The properties of \<^verbatim>\<open>Arena\<close> and its savepoints that clients rely on, each with a concrete instance:
  a small arena on an OS that maps at known addresses.
\<close>

section \<open>Concrete systems\<close>

definition demo_arena :: arena where
  "demo_arena = \<lparr>ar_chunks = [\<lparr>ch_buf = replicate 16 0, ch_base = 65536, ch_off = 0, ch_release = Munmap\<rparr>],
     ar_active = Some 0, ar_chunkSize = 16, ar_maxCap = 0, ar_geometricGrowth = True,
     ar_poisonOnExit = False, ar_poisonPattern = 0, ar_guardPages = False, ar_closed = False\<rparr>"

lemma demo_arena_inv: "arena_inv demo_arena"
  by (simp add: demo_arena_def arena_inv_def chunk_ok_def)

definition demo_reqs :: "(os_env \<times> int \<times> int) list" where
  "demo_reqs = [(demo_os 131072, 10, 8), (demo_os 196608, 10, 16)]"

lemma demo_run:
  "alloc_run TryAllocAligned demo_reqs demo_arena =
     (demo_arena\<lparr>ar_chunks := [\<lparr>ch_buf = replicate 16 0, ch_base = 65536, ch_off = 10, ch_release = Munmap\<rparr>,
        \<lparr>ch_buf = replicate 16 0, ch_base = 196608, ch_off = 10, ch_release = Munmap\<rparr>], ar_active := Some 1\<rparr>,
      [Slice 0 0 10 16, Slice 1 0 10 16])"
  by code_simp

lemma demo_run_ok: "run_ok arena_req_ok TryAllocAligned demo_reqs demo_arena"
proof -
  have s: "fst (TryAllocAligned (demo_os 131072) demo_arena 10 8) =
    demo_arena\<lparr>ar_chunks := [\<lparr>ch_buf = replicate 16 0, ch_base = 65536, ch_off = 10, ch_release = Munmap\<rparr>]\<rparr>"
    by code_simp
  show ?thesis
    unfolding demo_reqs_def run_ok.simps s
    by (auto simp: arena_req_ok_def in_int64_def demo_arena_def intro!: demo_os_ok)
qed

section \<open>Properties\<close>

text \<open>C1. However many requests an arena serves, and however often it grows in between, no two
  slices it hands out share a machine address, none of them overlaps memory that was in use before,
  and the arena stays well-formed.\<close>

theorem arena_run_disjoint:
  assumes "arena_inv a" "run_ok arena_req_ok TryAllocAligned rs a" "alloc_run TryAllocAligned rs a = (b, sls)"
  shows "arena_inv b \<and>
    sorted_wrt (\<lambda>x y. byte_addr b ` region x \<inter> byte_addr b ` region y = {}) sls \<and>
    (\<forall>x \<in> set sls. byte_addr b ` region x \<inter> byte_addr a ` live_bytes a = {})"
proof (intro conjI ballI)
  have R: "arena_inv b" "live_bytes a \<subseteq> live_bytes b"
    using arena_bump.run_inv [OF assms(1,2)] assms(3) by auto
  show "arena_inv b" by (fact R(1))
  show "sorted_wrt (\<lambda>x y. byte_addr b ` region x \<inter> byte_addr b ` region y = {}) sls"
    by (rule arena_bump.run_addr_disjoint [OF assms])
  fix x assume x: "x \<in> set sls"
  have "byte_addr a ` live_bytes a = byte_addr b ` live_bytes a"
    using arena_bump.run_addr_stable [OF assms(1,2)] assms(3) by (auto intro!: image_cong)
  then show "byte_addr b ` region x \<inter> byte_addr a ` live_bytes a = {}"
    using arena_bump.run_fresh [OF assms x] inj_on_byte_addr [OF R(1)] R(2)
      inj_on_image_Int [of "byte_addr b" "live_bytes b" "region x" "live_bytes a"] by simp
qed

lemma arena_run_disjoint_witness:
  "byte_addr (fst (alloc_run TryAllocAligned demo_reqs demo_arena)) ` region (Slice 0 0 10 16) \<inter>
   byte_addr (fst (alloc_run TryAllocAligned demo_reqs demo_arena)) ` region (Slice 1 0 10 16) = {}"
  using arena_run_disjoint [OF demo_arena_inv demo_run_ok demo_run] by (simp only: demo_run) simp

text \<open>C4. A request with arguments in the Go \<^verbatim>\<open>int\<close> range that succeeds returns exactly the requested
  number of bytes, starting at an address that is a multiple of the alignment, inside the buffer of a
  chunk of the arena, all of them unused before; every chunk keeps its place.\<close>

theorem TryAllocAligned_slice:
  assumes "arena_inv a" "arena_req_ok os a n align" "TryAllocAligned os a n align = (b, Some s)"
  shows "0 < n \<and> isPowerOfTwo align \<and> int (sl_len s) = n \<and> sl_chunk s < length (ar_chunks b) \<and>
    sl_hi s \<le> chunk_len (ar_chunks b ! sl_chunk s) \<and>
    nat align dvd byte_addr b (sl_chunk s, sl_lo s) \<and>
    region s \<inter> live_bytes a = {} \<and> region s \<subseteq> live_bytes b \<and> live_bytes a \<subseteq> live_bytes b \<and>
    (\<forall>p \<in> live_bytes a. byte_addr b p = byte_addr a p)"
proof -
  have req: "0 < n \<and> isPowerOfTwo align" using assms(3) TryAllocAligned_invalid [of n align os a] by (cases "0 < n \<and> isPowerOfTwo align") auto
  have g: "got_slice a n align b s" "arena_ext a b" "arena_inv b"
    using TryAllocAligned_ok [OF assms(1,2)] assms(3) by (auto simp: alloc_outcome_def)
  have "chunk_ok (ar_chunks b ! sl_chunk s)" using g by (simp add: got_slice_def arena_inv_chunk)
  then have "sl_hi s \<le> chunk_len (ar_chunks b ! sl_chunk s)" using g by (simp add: got_slice_def chunk_ok_def)
  with req g arena_ext_live [OF g(2)] show ?thesis
    by (auto simp: got_slice_def arena_ext_def byte_addr_def live_bytes_def)
qed

lemma demo_req: "arena_req_ok (demo_os 131072) demo_arena 10 8"
  using demo_run_ok by (simp add: demo_reqs_def)

lemma TryAllocAligned_slice_witness:
  "nat 8 dvd byte_addr (fst (TryAllocAligned (demo_os 131072) demo_arena 10 8)) (0, 0)"
proof -
  have "TryAllocAligned (demo_os 131072) demo_arena 10 8 =
    (fst (TryAllocAligned (demo_os 131072) demo_arena 10 8), Some (Slice 0 0 10 16))" by code_simp
  from TryAllocAligned_slice [OF demo_arena_inv demo_req this] show ?thesis by simp
qed



text \<open>\<^verbatim>\<open>UsedBytes\<close> is the exact number of bytes in use, \<^verbatim>\<open>Stats\<close> reports it together
  with \<^verbatim>\<open>Capacity\<close>, use never exceeds capacity, and no sum wraps.\<close>

lemma UsedBytes_exact:
  assumes "arena_inv a"
  shows "UsedBytes a = int (card (live_bytes a)) \<and> Stats a = (UsedBytes a, Capacity a) \<and>
    UsedBytes a \<le> Capacity a \<and> Capacity a \<le> 2 ^ 47"
proof -
  have F: "fold (\<lambda>c (used, cap). (f c used, g c cap)) cs (x, y) = (fold f cs x, fold g cs y)"
    for f :: "chunk \<Rightarrow> int \<Rightarrow> int" and g :: "chunk \<Rightarrow> int \<Rightarrow> int" and cs x y
    by (induction cs arbitrary: x y) auto
  have "Stats a = (UsedBytes a, Capacity a)"
    by (simp add: Stats_def UsedBytes_def Capacity_def F)
  then show ?thesis
    using UsedBytes_card [OF assms] card_live_bytes_le [OF assms] Capacity_eq [OF assms] by simp
qed

lemma UsedBytes_exact_witness: "UsedBytes demo_arena \<le> Capacity demo_arena"
  using UsedBytes_exact [OF demo_arena_inv] by simp

text \<open>C7. A fixed arena never holds more than the size it was created with: whatever is requested
  of it, its capacity stays at that size and the lengths of all slices it has handed out add up to at
  most that.\<close>

theorem NewFixedArena_limit:
  assumes "NewFixedArena os sz m = (m', Return a)" "os_ok os []" "sz < 2 ^ 62"
    "run_ok arena_req_ok TryAllocAligned rs a" "alloc_run TryAllocAligned rs a = (b, sls)"
  shows "Capacity b = sz \<and> int (sum_list (map sl_len sls)) \<le> sz"
proof -
  have sz: "0 < sz" using assms(1) by (auto simp: NewFixedArena_def NewArena_def split: if_splits)
  have cfg: "ar_chunkSize (arena_config sz [Some (WithMaxCapacity sz)]) = sz"
    "ar_maxCap (arena_config sz [Some (WithMaxCapacity sz)]) = sz"
    using sz by (auto simp: arena_config_def)
  note N = assms(1) [unfolded NewFixedArena_def]
  obtain chk where a: "fresh_chunk [] sz chk" "a = (arena_config sz [Some (WithMaxCapacity sz)])\<lparr>ar_chunks := [chk], ar_active := Some 0\<rparr>"
    using NewArena_Return [OF N assms(2)] assms(3) by (auto simp: cfg)
  have inv: "arena_inv a" and live: "live_bytes a = {}" using NewArena_inv [OF N assms(2)] assms(3) by (auto simp: cfg)
  have capa: "Capacity a = sz" "ar_maxCap a = sz"
    using a sz assms(3) by (auto simp: Capacity_def fresh_chunk_def cfg in_int64_def)
  have R: "arena_inv b" "arena_ext a b"
    using arena_bump.run_inv [OF inv assms(4)] marks.run_ext [OF inv assms(4)] assms(5) by auto
  have "Capacity b = sz"
    using run_limit [OF inv assms(4)] Capacity_mono_ext [OF inv R] capa sz assms(5) by simp
  moreover have "card (live_bytes a) + sum_list (map sl_len sls) \<le> card (live_bytes b)"
    by (rule arena_bump.run_total [OF inv assms(4,5)]) simp
  ultimately show ?thesis
    using card_live_bytes_le [OF R(1)] Capacity_eq(1) [OF R(1)] live by simp
qed

lemma NewFixedArena_limit_witness:
  "Capacity (fst (alloc_run TryAllocAligned [(demo_os 131072, 10, 8), (demo_os 131072, 10, 16)]
     (demo_arena\<lparr>ar_maxCap := 16\<rparr>))) = 16"
proof -
  let ?rs = "[(demo_os 131072, 10, 8), (demo_os 131072, 10, 16)]" and ?a = "demo_arena\<lparr>ar_maxCap := 16\<rparr>"
  have n: "NewFixedArena (demo_os 65536) 16 metrics0 = (fst (NewFixedArena (demo_os 65536) 16 metrics0), Return ?a)"
    by code_simp
  have o: "os_ok (demo_os 65536) []" by (rule demo_os_ok) auto
  have s: "fst (TryAllocAligned (demo_os 131072) ?a 10 8) =
    ?a\<lparr>ar_chunks := [\<lparr>ch_buf = replicate 16 0, ch_base = 65536, ch_off = 10, ch_release = Munmap\<rparr>]\<rparr>"
    by code_simp
  have r: "run_ok arena_req_ok TryAllocAligned ?rs ?a"
    unfolding run_ok.simps s by (auto simp: arena_req_ok_def in_int64_def demo_arena_def intro!: demo_os_ok)
  from NewFixedArena_limit [OF n o _ r surjective_pairing] show ?thesis by simp
qed



text \<open>C3. A transaction whose body fails or panics leaves the arena as it found it: the bytes in
  use are those of before, the error or panic is passed on; a body that succeeds keeps its
  allocations. The body may be any computation that ends in an arena with at least the chunks it
  started from, among them every run of allocations.\<close>

theorem Transaction_atomic:
  assumes "arena_inv a" "ar_active a \<noteq> None" "fn a = (b, r)" "arena_inv b" "arena_ext a b"
  shows "snd (Transaction aid fn a) = r \<and>
    (r = Return None \<longrightarrow> fst (Transaction aid fn a) = b) \<and>
    (r \<noteq> Return None \<longrightarrow> arena_inv (fst (Transaction aid fn a)) \<and>
       live_bytes (fst (Transaction aid fn a)) = live_bytes a \<and>
       UsedBytes (fst (Transaction aid fn a)) = UsedBytes a)"
proof -
  have R: "Rollback aid b (Some (Savepoint aid a)) = (offsets_of a b, None)"
    using assms by (intro Rollback_Savepoint_eq) (auto simp: arena_ext_def)
  have O: "arena_inv (offsets_of a b)" "live_bytes (offsets_of a b) = live_bytes a"
    using offsets_of_inv [OF assms(1,4,5,2)] live_bytes_offsets_of [OF assms(5)] by auto
  show ?thesis
    using O UsedBytes_card [OF O(1)] UsedBytes_card [OF assms(1)]
    by (cases r rule: go.exhaust) (auto simp: Transaction_def Let_def assms(3) R split: option.splits)
qed

definition demo_body :: "arena \<Rightarrow> arena \<times> nat option go" where
  "demo_body a = (fst (alloc_run TryAllocAligned demo_reqs a), Panic NilDereference)"

lemma Transaction_atomic_witness:
  "live_bytes (fst (Transaction 1 demo_body demo_arena)) = {}"
proof -
  have b: "arena_inv (fst (demo_body demo_arena))" "arena_ext demo_arena (fst (demo_body demo_arena))"
    using arena_bump.run_inv [OF demo_arena_inv demo_run_ok] marks.run_ext [OF demo_arena_inv demo_run_ok]
    by (auto simp: demo_body_def)
  have l: "live_bytes demo_arena = {}" by (auto simp: live_bytes_def demo_arena_def)
  show ?thesis
    using Transaction_atomic [OF demo_arena_inv _ _ b, where fn = demo_body and r = "Panic NilDereference" and aid = 1] l
    by (auto simp: demo_body_def demo_arena_def)
qed

text \<open>C5. The memory a workload needed once is enough to serve it again: after \<^verbatim>\<open>Reset\<close>, the same
  requests, all of which succeeded on the fresh arena, get the very same slices and the arena does
  not grow, even if the OS would now refuse every mapping.\<close>

theorem Reset_replay:
  assumes "arena_inv a" "ar_active a = Some 0" "live_bytes a = {}"
    "run_ok arena_req_ok TryAllocAligned rs a" "alloc_run TryAllocAligned rs a = (b, sls)" "length sls = length rs"
    "run_ok arena_req_ok TryAllocAligned rs' (Reset b)" "map snd rs' = map snd rs"
  shows "\<exists>b'. alloc_run TryAllocAligned rs' (Reset b) = (b', sls) \<and> Capacity b' = Capacity b \<and>
    length (ar_chunks b') = length (ar_chunks b)"
proof -
  have R: "arena_inv b" "arena_ext a b"
    using arena_bump.run_inv [OF assms(1,4)] marks.run_ext [OF assms(1,4)] assms(5) by auto
  have ne: "ar_chunks a \<noteq> []" using assms(1,2) by (auto simp: arena_inv_def)
  have "ch_off (ar_chunks a ! i) = 0" if "i < length (ar_chunks a)" for i
  proof -
    have "\<not> 0 < unat (ch_off (ar_chunks a ! i))" using assms(3) that by (auto simp: live_bytes_def)
    then show ?thesis by (simp add: unat_eq_zero)
  qed
  then have sh: "shadow a (Reset b)"
    using R(2) assms(2) ne by (auto simp: shadow_def Reset_def Let_def same_chunk_def arena_ext_def)
  have mem: "same_mem b (Reset b)" by (auto simp: same_mem_def Reset_def Let_def chunk_mem_def)
  obtain b' where b': "alloc_run TryAllocAligned rs' (Reset b) = (b', sls)" "map chunk_mem (ar_chunks b') = map chunk_mem (ar_chunks (Reset b))"
    using run_shadow [OF assms(1) Reset_inv [OF R(1)] assms(4) sh assms(5,6) mem assms(7,8)] by blast
  have "map ch_buf (ar_chunks b') = map ch_buf (ar_chunks (Reset b))"
    using arg_cong [OF b'(2), of "map fst"] by (simp add: chunk_mem_def comp_def)
  then have "Capacity b' = Capacity b" using Capacity_cong [of b' "Reset b"] Capacity_Reset by simp
  moreover have "length (ar_chunks b') = length (ar_chunks b)" 
    using arg_cong [OF b'(2), of length] by (simp add: Reset_def Let_def)
  ultimately show ?thesis using b'(1) by blast
qed

lemma Reset_replay_witness:
  "\<exists>b'. alloc_run TryAllocAligned [(no_mem_os, 10, 8), (no_mem_os, 10, 16)]
     (Reset (fst (alloc_run TryAllocAligned demo_reqs demo_arena))) = (b', [Slice 0 0 10 16, Slice 1 0 10 16])"
proof -
  have l: "live_bytes demo_arena = {}" by (auto simp: live_bytes_def demo_arena_def)
  have r: "run_ok arena_req_ok TryAllocAligned [(no_mem_os, 10, 8), (no_mem_os, 10, 16)] a" for a
    by (simp add: arena_req_ok_def no_mem_os_ok in_int64_def)
  show ?thesis
    using Reset_replay [OF demo_arena_inv _ l demo_run_ok demo_run _ r]
    by (simp add: demo_run) (auto simp: demo_reqs_def demo_arena_def)
qed

text \<open>\<^verbatim>\<open>Close\<close> does not end the arena: an allocation after it maps a new chunk and succeeds,
  and no later \<^verbatim>\<open>Close\<close> gives that chunk back, because the \<^verbatim>\<open>closed\<close> flag is already set.\<close>

lemma alloc_after_Close_leaks:
  assumes "arena_inv a" "\<not> ar_closed a" "ar_maxCap a = 0" "Close os a m = (m', b, e)"
    "0 < n" "n < 2 ^ 63" "os_ok os' []" "newChunk os' (max n (ar_chunkSize a)) (ar_guardPages a) = Inr c"
  shows "\<exists>d s. TryAlloc os' b n = (d, Some s) \<and> int (sl_len s) = n \<and> map ch_buf (ar_chunks d) = [ch_buf c] \<and>
    ar_closed d \<and> (\<forall>os'' m2. Close os'' d m2 = (m2, d, None))"
proof -
  have b: "b = a\<lparr>ar_closed := True, ar_chunks := [], ar_active := None\<rparr>"
    using assms(2,4) by (simp add: Close_def)
  then have bf: "ar_chunks b = []" "ar_active b = None" "ar_guardPages b = ar_guardPages a" "ar_closed b" by simp_all
  have cs: "0 < ar_chunkSize a" "ar_chunkSize a < 2 ^ 62" using assms(1) by (auto simp: arena_inv_def)
  have g: "grow_size b n = Some (max n (ar_chunkSize a))"
    using assms(3) by (auto simp: grow_size_def Let_def max_def Capacity_def b)
  have f: "fresh_chunk [] (max n (ar_chunkSize a)) c"
    using newChunk_fresh [OF assms(7) _ _ assms(8)] assms(5,6) cs by simp
  have "chunk_alloc c n 1 \<noteq> None"
    using f assms(5,6) by (intro alloc_at_fresh) (auto simp: valid_req_1)
  then obtain c' lo hi where al: "chunk_alloc c n 1 = Some (c', lo, hi)" by auto
  have ok: "chunk_ok c" using f by (simp add: fresh_chunk_def)
  note A = chunk_alloc_Some [OF ok assms(5,6) _ _ al]
  have A': "hi = lo + nat n" "ch_buf c' = ch_buf c" using A by (auto simp: isPowerOfTwo_def)
  have "TryAlloc os' b n = (b\<lparr>ar_chunks := [c'], ar_active := Some 0\<rparr>, Some (Slice 0 lo (hi - lo) (chunk_cap c' - lo)))"
    using assms(5,8) al by (simp add: TryAlloc_def allocSlow_def grow_arena_def g Let_def alloc_at_def bf)
  with A' show ?thesis using assms(5) by (simp add: Close_def bf)
qed

lemma alloc_after_Close_leaks_witness:
  "\<exists>d s. TryAlloc (demo_os 131072) (fst (snd (Close no_mem_os demo_arena metrics0))) 8 = (d, Some s) \<and> ar_closed d"
proof -
  have o: "os_ok (demo_os 131072) []" by (rule demo_os_ok) auto
  have c: "newChunk (demo_os 131072) (max 8 (ar_chunkSize demo_arena)) (ar_guardPages demo_arena) =
    Inr \<lparr>ch_buf = replicate 16 0, ch_base = 131072, ch_off = 0, ch_release = Munmap\<rparr>"
    by code_simp
  have e: "Close no_mem_os demo_arena metrics0 =
    (fst (Close no_mem_os demo_arena metrics0), fst (snd (Close no_mem_os demo_arena metrics0)),
     snd (snd (Close no_mem_os demo_arena metrics0)))" by simp
  show ?thesis
    using alloc_after_Close_leaks [OF demo_arena_inv _ _ e _ _ o c] by (auto simp: demo_arena_def)
qed

end
