(* ===== verification/LocalArena.thy ===== *)
theory LocalArena
  imports Arena_Props
begin

text \<open>
  \<^verbatim>\<open>LocalArena\<close> of \<^verbatim>\<open>arena.go\<close>: the unsynchronised single-goroutine bump allocator. Its allocation
  is an inlined variant of the shared arena's; the theory shows that it refines the shared arena for
  alignments up to the page size, and what happens beyond it.
\<close>

section \<open>State and operations\<close>

record local_arena =
  la_chunks :: "chunk list"
  la_activeIdx :: nat
  la_chunkSize :: int
  la_closed :: bool

definition NewLocalArena :: "os_env \<Rightarrow> int \<Rightarrow> local_arena go" where
  "NewLocalArena os sz =
     (if sz \<le> 0 then Panic (PanicMsg ''arena size must be > 0'')
      else case newChunk os sz False of
             Inl e \<Rightarrow> Panic (PanicErrno e)
           | Inr chk \<Rightarrow> Return \<lparr>la_chunks = [chk], la_activeIdx = 0, la_chunkSize = sz, la_closed = False\<rparr>)"

text \<open>\<^verbatim>\<open>alignedOff\<close> and \<^verbatim>\<open>end\<close>, computed in three places alike.\<close>

definition local_offs :: "chunk \<Rightarrow> int \<Rightarrow> int \<Rightarrow> u64 \<times> u64" where
  "local_offs c n align =
     (let mask = (word_of_int (align - 1) :: u64);
          curAddr = ch_base c + ch_off c;
          alignedAddr = (curAddr + mask) AND NOT mask;
          alignedOff = alignedAddr - ch_base c
      in (alignedOff, alignedOff + word_of_int n))"

text \<open>\<^verbatim>\<open>chk.buf[lo:hi]\<close>, which panics unless \<^verbatim>\<open>lo <= hi <= cap(chk.buf)\<close>.\<close>

definition slice_expr :: "chunk \<Rightarrow> nat \<Rightarrow> u64 \<Rightarrow> u64 \<Rightarrow> slice go" where
  "slice_expr c i lo hi =
     (if lo \<le> hi \<and> unat hi \<le> chunk_cap c
      then Return (Slice i (unat lo) (unat hi - unat lo) (chunk_cap c - unat lo))
      else Panic SliceOutOfRange)"

text \<open>The attempt on chunk \<open>i\<close>, with the chunk made active on success.\<close>

definition local_at :: "local_arena \<Rightarrow> int \<Rightarrow> int \<Rightarrow> nat \<Rightarrow> (local_arena \<times> slice go) option" where
  "local_at la n align i =
     (let c = la_chunks la ! i; (alignedOff, hi) = local_offs c n align
      in if alignedOff \<ge> ch_off c \<and> hi \<le> of_nat (chunk_len c)
         then Some (la\<lparr>la_chunks := (la_chunks la)[i := c\<lparr>ch_off := hi\<rparr>], la_activeIdx := i\<rparr>,
                    slice_expr c i alignedOff hi)
         else None)"

fun local_scan :: "local_arena \<Rightarrow> int \<Rightarrow> int \<Rightarrow> nat list \<Rightarrow> (local_arena \<times> slice go) option" where
  "local_scan la n align [] = None"
| "local_scan la n align (i # is) =
     (case local_at la n align i of Some r \<Rightarrow> Some r | None \<Rightarrow> local_scan la n align is)"

definition LocalCapacity :: "local_arena \<Rightarrow> int" where
  "LocalCapacity la = fold (\<lambda>c tot. go_int (tot + int (chunk_len c))) (la_chunks la) 0"

definition growAndAlloc :: "os_env \<Rightarrow> local_arena \<Rightarrow> int \<Rightarrow> int \<Rightarrow> local_arena \<times> slice go" where
  "growAndAlloc os la n align =
     (case local_scan la n align [Suc (la_activeIdx la) ..< length (la_chunks la)] of
        Some r \<Rightarrow> r
      | None \<Rightarrow>
          (let curCap = LocalCapacity la;
               newSize = (if n > curCap then n else curCap)
           in case newChunk os newSize False of
                Inl e \<Rightarrow> (la, Panic (PanicErrno e))
              | Inr chk \<Rightarrow>
                  (let k = length (la_chunks la); (alignedOff, hi) = local_offs chk n align
                   in (la\<lparr>la_chunks := la_chunks la @ [chk\<lparr>ch_off := hi\<rparr>], la_activeIdx := k\<rparr>,
                       slice_expr chk k alignedOff hi))))"

definition LocalAllocAligned :: "os_env \<Rightarrow> local_arena \<Rightarrow> int \<Rightarrow> int \<Rightarrow> local_arena \<times> slice go" where
  "LocalAllocAligned os la n align =
     (if n \<le> 0 then (la, Panic (PanicMsg ''alloc size must be > 0''))
      else if \<not> isPowerOfTwo align then (la, Panic (PanicMsg ''alignment must be power of 2''))
      else if \<not> la_activeIdx la < length (la_chunks la) then (la, Panic IndexOutOfRange)
      else case local_at la n align (la_activeIdx la) of
             Some r \<Rightarrow> r
           | None \<Rightarrow> growAndAlloc os la n align)"

definition LocalAlloc :: "os_env \<Rightarrow> local_arena \<Rightarrow> int \<Rightarrow> local_arena \<times> slice go" where
  "LocalAlloc os la n = LocalAllocAligned os la n 1"

definition CacheLineSize :: int where "CacheLineSize = 64"

definition LocalAllocCacheAligned :: "os_env \<Rightarrow> local_arena \<Rightarrow> int \<Rightarrow> local_arena \<times> slice go" where
  "LocalAllocCacheAligned os la n = LocalAllocAligned os la n CacheLineSize"

definition LocalStats :: "local_arena \<Rightarrow> int \<times> int" where
  "LocalStats la = fold (\<lambda>c (used, cap). (go_int (used + sint (ch_off c)), go_int (cap + int (chunk_len c))))
     (la_chunks la) (0, 0)"

definition LocalReset :: "local_arena \<Rightarrow> local_arena" where
  "LocalReset la = la\<lparr>la_chunks := map (\<lambda>c. c\<lparr>ch_off := 0\<rparr>) (la_chunks la), la_activeIdx := 0\<rparr>"

definition LocalClose :: "os_env \<Rightarrow> local_arena \<Rightarrow> local_arena \<times> nat option" where
  "LocalClose os la =
     (if la_closed la then (la, None)
      else (la\<lparr>la_closed := True, la_chunks := []\<rparr>, release_all os (la_chunks la) None))"

section \<open>Refinement of the shared arena\<close>

text \<open>The shared arena that a local one stands for: unlimited, and growing by doubling, which is what
  a chunk size equal to the present capacity gives.\<close>

definition la_abs :: "local_arena \<Rightarrow> arena" where
  "la_abs la = \<lparr>ar_chunks = la_chunks la, ar_active = Some (la_activeIdx la), ar_chunkSize = LocalCapacity la,
     ar_maxCap = 0, ar_geometricGrowth = True, ar_poisonOnExit = False, ar_poisonPattern = 0,
     ar_guardPages = False, ar_closed = la_closed la\<rparr>"

definition local_inv :: "local_arena \<Rightarrow> bool" where
  "local_inv la \<longleftrightarrow> arena_inv (la_abs la) \<and> (\<forall>c \<in> set (la_chunks la). ch_release c = Munmap)"

lemma la_abs_simps [simp]:
  "ar_chunks (la_abs la) = la_chunks la" "ar_active (la_abs la) = Some (la_activeIdx la)"
  "ar_chunkSize (la_abs la) = LocalCapacity la" "ar_maxCap (la_abs la) = 0"
  "ar_geometricGrowth (la_abs la)" "\<not> ar_guardPages (la_abs la)"
  by (simp_all add: la_abs_def)

lemma Capacity_la_abs [simp]: "Capacity (la_abs la) = LocalCapacity la"
  by (simp add: Capacity_def LocalCapacity_def)

lemma local_offs_eq:
  assumes "chunk_ok c" "valid_req n align"
  shows "unat (fst (local_offs c n align)) = alloc_pos c align"
    "unat (snd (local_offs c n align)) = alloc_pos c align + nat n"
    "unat (ch_off c) \<le> alloc_pos c align"
proof -
  have v: "0 < n" "n < 2 ^ 63" "isPowerOfTwo align" "align < 2 ^ 63" using assms(2) by (auto simp: valid_req_def)
  define A where "A = ((ch_base c + ch_off c + word_of_int (align - 1)) AND NOT (word_of_int (align - 1))) - ch_base c"
  note al = aligned_off [OF assms(1) v(3,4), folded A_def]
  have r: "unat (word_of_int n :: u64) = nat n" using v by (intro unat_word_of_int) auto
  have "unat (A + word_of_int n) = alloc_pos c align + nat n"
    using unat_add_small [of A "word_of_int n"] al v by (simp add: r nat_less_iff)
  then show "unat (fst (local_offs c n align)) = alloc_pos c align"
    "unat (snd (local_offs c n align)) = alloc_pos c align + nat n"
    "unat (ch_off c) \<le> alloc_pos c align"
    using al unfolding local_offs_def Let_def A_def [symmetric] by simp_all
qed

text \<open>The inlined attempt succeeds exactly when the chunk's own routine does, with the same slice.\<close>

lemma local_at_refines:
  assumes "chunk_ok (la_chunks la ! i)" "ch_release (la_chunks la ! i) = Munmap" "valid_req n align"
  shows "local_at la n align i =
    (case alloc_at (\<lambda>c. chunk_alloc c n align) (la_abs la) i of
       None \<Rightarrow> None
     | Some (b, s) \<Rightarrow> Some (la\<lparr>la_chunks := ar_chunks b, la_activeIdx := i\<rparr>, Return s))"
proof -
  let ?c = "la_chunks la ! i"
  have v: "0 < n" "n < 2 ^ 63" "isPowerOfTwo align" "align < 2 ^ 63" using assms(3) by (auto simp: valid_req_def)
  obtain lo hi where lh: "local_offs ?c n align = (lo, hi)" by force
  note L = local_offs_eq [OF assms(1,3), unfolded lh fst_conv snd_conv]
  have l: "unat (of_nat (chunk_len ?c) :: u64) = chunk_len ?c"
    using assms(1) by (intro unat_word_of_nat) (auto simp: chunk_ok_def)
  have hi: "of_nat (alloc_pos ?c align + nat n) = hi" by (simp only: L(2) [symmetric]) simp
  show ?thesis
  proof (cases "alloc_pos ?c align + nat n \<le> chunk_len ?c")
    case True
    then have "slice_expr ?c i lo hi = Return (Slice i (alloc_pos ?c align) (nat n) (chunk_cap ?c - alloc_pos ?c align))"
      using L assms(2) by (simp add: slice_expr_def word_le_nat_alt chunk_cap_def)
    with True L show ?thesis
      unfolding local_at_def alloc_at_def chunk_alloc_eq [OF assms(1) v] la_abs_simps Let_def lh hi
      by (simp add: word_le_nat_alt l)
  next
    case False
    with L show ?thesis
      unfolding local_at_def alloc_at_def chunk_alloc_eq [OF assms(1) v] la_abs_simps Let_def lh
      by (simp add: word_le_nat_alt l)
  qed
qed

lemma local_scan_refines:
  assumes "local_inv la" "valid_req n align" "\<forall>j \<in> set js. j < length (la_chunks la)"
  shows "local_scan la n align js =
    (case scan_chunks (la_abs la) n align js of
       None \<Rightarrow> None
     | Some (b, s) \<Rightarrow> Some (la\<lparr>la_chunks := ar_chunks b, la_activeIdx := the (ar_active b)\<rparr>, Return s))"
  using assms(3)
proof (induction js)
  case (Cons j js)
  have "chunk_ok (la_chunks la ! j)" "ch_release (la_chunks la ! j) = Munmap"
    using assms(1) Cons.prems arena_inv_chunk [of "la_abs la" j] by (auto simp: local_inv_def)
  note L = local_at_refines [OF this assms(2)]
  show ?case
    using Cons by (auto simp: L split: option.splits)
qed simp

lemma grow_size_la_abs:
  assumes "local_inv la" "0 < n"
  shows "grow_size (la_abs la) n = Some (if n > LocalCapacity la then n else LocalCapacity la)"
  using assms Capacity_eq [of "la_abs la"]
  by (auto simp: grow_size_def Let_def local_inv_def arena_inv_def)

text \<open>Up to a page, the fresh chunk always has room, so that the unchecked slice expression of the
  last step is in bounds.\<close>

lemma newChunk_Munmap: "newChunk os sz False = Inr c \<Longrightarrow> ch_release c = Munmap"
  by (auto simp: newChunk_def allocArenaBuffer_def split: sum.splits)

definition local_result :: "local_arena \<Rightarrow> arena \<Rightarrow> local_arena" where
  "local_result la b = la\<lparr>la_chunks := ar_chunks b, la_activeIdx := the (ar_active b)\<rparr>"

lemma growAndAlloc_refines:
  assumes inv: "local_inv la" and req: "valid_req n align" "align \<le> 4096" and os: "os_ok os (la_chunks la)"
    and scan: "scan_chunks (la_abs la) n align [Suc (la_activeIdx la) ..< length (la_chunks la)] = None"
    and g: "grow_arena os (la_abs la) n align = (b, r)"
  shows "growAndAlloc os la n align = (local_result la b,
    case r of Some s \<Rightarrow> Return s
    | None \<Rightarrow> (case newChunk os (max n (LocalCapacity la)) False of Inl e \<Rightarrow> Panic (PanicErrno e)))"
proof -
  let ?sz = "if n > LocalCapacity la then n else LocalCapacity la"
  have n: "0 < n" "n < 2 ^ 63" using req by (auto simp: valid_req_def)
  have sz: "?sz = max n (LocalCapacity la)" by auto
  have gs: "grow_size (la_abs la) n = Some ?sz" by (rule grow_size_la_abs [OF inv n(1)])
  have ls: "local_scan la n align [Suc (la_activeIdx la) ..< length (la_chunks la)] = None"
    by (subst local_scan_refines [OF inv req(1)]) (auto simp: scan)
  have res: "local_result la (la_abs la) = la" by (simp add: local_result_def)
  show ?thesis
  proof (cases "newChunk os ?sz False")
    case (Inl e)
    with g gs have "b = la_abs la" "r = None" by (auto simp: grow_arena_def)
    with Inl ls show ?thesis by (auto simp: growAndAlloc_def Let_def max_def res split: if_splits)
  next
    case (Inr c)
    have szb: "n \<le> ?sz" "?sz < 2 ^ 63"
      using n inv Capacity_eq [of "la_abs la"] by (auto simp: local_inv_def)
    have f: "fresh_chunk (la_chunks la) ?sz c"
      using newChunk_fresh [OF os _ _ Inr] szb n by simp
    have c: "chunk_ok c" "ch_release c = Munmap" using f newChunk_Munmap [OF Inr] by (auto simp: fresh_chunk_def)
    have v: "0 < n" "n < 2 ^ 63" "isPowerOfTwo align" "align < 2 ^ 63" using req by (auto simp: valid_req_def)
    have fit: "alloc_pos c align + nat n \<le> chunk_len c"
      using alloc_at_fresh [OF f req szb(1)] by (auto simp: chunk_alloc_eq [OF c(1) v] Let_def split: if_splits)
    obtain lo hi where lh: "local_offs c n align = (lo, hi)" by force
    note L = local_offs_eq [OF c(1) req(1), unfolded lh fst_conv snd_conv]
    have hi: "of_nat (alloc_pos c align + nat n) = hi" by (simp only: L(2) [symmetric]) simp
    have cap: "chunk_len c \<le> chunk_cap c" using c(2) by (simp add: chunk_cap_def)
    have sl: "slice_expr c (length (la_chunks la)) lo hi =
      Return (Slice (length (la_chunks la)) (alloc_pos c align) (nat n) (chunk_cap c - alloc_pos c align))"
      using L fit cap by (simp add: slice_expr_def word_le_nat_alt)
    have hi': "word_of_nat (alloc_pos c align) + word_of_nat (nat n) = hi" using hi by simp
    have "ar_chunks b = la_chunks la @ [c\<lparr>ch_off := hi\<rparr>]" "ar_active b = Some (length (la_chunks la))"
      "r = Some (Slice (length (la_chunks la)) (alloc_pos c align) (nat n) (chunk_cap c - alloc_pos c align))"
      using g fit unfolding grow_arena_def gs option.case alloc_at_def Inr
      by (auto simp: Let_def chunk_alloc_eq [OF c(1) v] Inr hi')
    with ls Inr show ?thesis by (simp add: growAndAlloc_def Let_def lh sl local_result_def)
  qed
qed

lemma LocalAllocAligned_refines:
  assumes inv: "local_inv la" and req: "valid_req n align" "align \<le> 4096" and os: "os_ok os (la_chunks la)"
    and al: "TryAllocAligned os (la_abs la) n align = (b, r)"
  shows "LocalAllocAligned os la n align = (local_result la b,
    case r of Some s \<Rightarrow> Return s
    | None \<Rightarrow> (case newChunk os (max n (LocalCapacity la)) False of Inl e \<Rightarrow> Panic (PanicErrno e)))"
proof -
  have ai: "arena_inv (la_abs la)" using inv by (simp add: local_inv_def)
  have i: "la_activeIdx la < length (la_chunks la)" using arena_inv_active [OF ai] by simp
  have ci: "chunk_ok (la_chunks la ! la_activeIdx la)" "ch_release (la_chunks la ! la_activeIdx la) = Munmap"
    using inv arena_inv_chunk [OF ai] i by (auto simp: local_inv_def)
  have v: "0 < n" "isPowerOfTwo align" using req by (auto simp: valid_req_def)
  have slow: "allocSlow os (la_abs la) n align = (b, r)" using al by (simp add: TryAllocAligned_alloc [OF ai req(1)])
  note at = local_at_refines [OF ci req(1)]
  show ?thesis
  proof (cases "alloc_at (\<lambda>c. chunk_alloc c n align) (la_abs la) (la_activeIdx la)")
    case (Some x)
    with slow have x: "x = (b, the r)" "r \<noteq> None" by (cases x; auto simp: allocSlow_def)+
    have "ar_active b = Some (la_activeIdx la)" using alloc_at_active [of _ "la_abs la"] Some x by fastforce
    with Some x v i show ?thesis by (auto simp: LocalAllocAligned_def at local_result_def)
  next
    case None
    then have L: "LocalAllocAligned os la n align = growAndAlloc os la n align"
      using v i by (simp add: LocalAllocAligned_def at)
    show ?thesis
    proof (cases "scan_chunks (la_abs la) n align [Suc (la_activeIdx la) ..< length (la_chunks la)]")
      case scan: None
      with slow None have "grow_arena os (la_abs la) n align = (b, r)" by (simp add: allocSlow_def)
      from growAndAlloc_refines [OF inv req os scan this] show ?thesis by (simp add: L)
    next
      case (Some x)
      with slow None have x: "x = (b, the r)" "r \<noteq> None" by (cases x; auto simp: allocSlow_def)+
      have "local_scan la n align [Suc (la_activeIdx la) ..< length (la_chunks la)] =
        Some (local_result la b, Return (the r))"
        by (subst local_scan_refines [OF inv req(1)]) (auto simp: Some x local_result_def)
      with x show ?thesis by (auto simp: L growAndAlloc_def)
    qed
  qed
qed

section \<open>The local arena is a bump allocator\<close>

definition local_try :: "os_env \<Rightarrow> local_arena \<Rightarrow> int \<Rightarrow> int \<Rightarrow> local_arena \<times> slice option" where
  "local_try os la n align =
     (case LocalAllocAligned os la n align of (la', Return s) \<Rightarrow> (la', Some s) | (la', Panic _) \<Rightarrow> (la', None))"

definition local_req_ok :: "os_env \<Rightarrow> local_arena \<Rightarrow> int \<Rightarrow> int \<Rightarrow> bool" where
  "local_req_ok os la n align \<longleftrightarrow> os_ok os (la_chunks la) \<and> in_int64 n \<and> align \<le> 4096"

definition local_live :: "local_arena \<Rightarrow> (nat \<times> nat) set" where
  "local_live la = live_bytes (la_abs la)"

definition local_addr :: "local_arena \<Rightarrow> nat \<times> nat \<Rightarrow> nat" where
  "local_addr la = byte_addr (la_abs la)"

lemma local_try_invalid: "\<not> (0 < n \<and> isPowerOfTwo align) \<Longrightarrow> local_try os la n align = (la, None)"
  by (auto simp: local_try_def LocalAllocAligned_def)

lemma local_try_eq:
  assumes "local_inv la" "valid_req n align" "align \<le> 4096" "os_ok os (la_chunks la)"
    and "TryAllocAligned os (la_abs la) n align = (b, r)"
  shows "local_try os la n align = (local_result la b, r)"
proof (cases r)
  case None
  then have "(0 < ar_maxCap (la_abs la) \<and> ar_maxCap (la_abs la) - Capacity (la_abs la) < n) \<or>
     (\<exists>sz e. n \<le> sz \<and> newChunk os sz (ar_guardPages (la_abs la)) = Inl e)"
    using TryAllocAligned_None [of "la_abs la" os n align b] assms by (simp add: local_inv_def)
  have "\<exists>e. newChunk os (max n (LocalCapacity la)) False = Inl e"
  proof (rule ccontr)
    assume "\<not> ?thesis"
    then obtain c where c: "newChunk os (max n (LocalCapacity la)) False = Inr c"
      by (cases "newChunk os (max n (LocalCapacity la)) False") auto
    have n: "0 < n" "n < 2 ^ 63" using assms(2) by (auto simp: valid_req_def)
    have "snd (grow_arena os (la_abs la) n align) = None"
      using assms(1,2,5) None
      by (auto simp: TryAllocAligned_alloc local_inv_def allocSlow_def split: option.splits)
    moreover have gs: "grow_size (la_abs la) n = Some (max n (LocalCapacity la))"
      using grow_size_la_abs [OF assms(1) n(1)] by (simp add: max_def split: if_splits)
    moreover have "max n (LocalCapacity la) < 2 ^ 63"
      using n assms(1) Capacity_eq [of "la_abs la"] by (simp add: local_inv_def)
    then have "fresh_chunk (la_chunks la) (max n (LocalCapacity la)) c"
      using newChunk_fresh [OF assms(4) _ _ c] n by simp
    then have "chunk_alloc c n align \<noteq> None" using alloc_at_fresh assms(2,3) by fastforce
    ultimately show False using c by (auto simp: grow_arena_def Let_def alloc_at_def nth_append)
  qed
  then show ?thesis
    using LocalAllocAligned_refines [OF assms] None by (auto simp: local_try_def)
next
  case (Some s)
  then show ?thesis using LocalAllocAligned_refines [OF assms] by (simp add: local_try_def)
qed

text \<open>What an allocation gives, in terms of the shared arena it refines.\<close>

lemma chunk_alloc_release: "chunk_alloc c n al = Some (c', lo, hi) \<Longrightarrow> ch_release c' = ch_release c"
  by (auto simp: chunk_alloc_def chunk_tryAlloc_def chunk_tryAllocAligned_def Let_def split: if_splits)

definition munmap_only :: "arena \<Rightarrow> bool" where
  "munmap_only a \<longleftrightarrow> (\<forall>c \<in> set (ar_chunks a). ch_release c = Munmap)"

lemma munmap_only_active [simp]: "munmap_only (a\<lparr>ar_active := x\<rparr>) = munmap_only a"
  by (simp add: munmap_only_def)

lemma alloc_at_munmap:
  assumes "munmap_only a" "alloc_at (\<lambda>c. chunk_alloc c n al) a i = Some (b, s)"
  shows "munmap_only b"
proof (cases "i < length (ar_chunks a)")
  case True
  then have "ar_chunks a ! i \<in> set (ar_chunks a)" by simp
  moreover obtain c' lo hi where c': "chunk_alloc (ar_chunks a ! i) n al = Some (c', lo, hi)"
    and b: "b = a\<lparr>ar_chunks := (ar_chunks a)[i := c']\<rparr>"
    using assms(2) by (auto simp: alloc_at_def split: option.splits)
  ultimately have "ch_release c' = Munmap"
    using assms(1) chunk_alloc_release [OF c'] by (simp add: munmap_only_def)
  then show ?thesis
    using assms(1) by (auto simp: munmap_only_def b dest!: set_update_subset_insert [THEN subsetD])
next
  case False
  with assms show ?thesis by (auto simp: munmap_only_def alloc_at_def list_update_beyond split: option.splits)
qed

lemma scan_munmap: "munmap_only a \<Longrightarrow> scan_chunks a n al js = Some (b, s) \<Longrightarrow> munmap_only b"
  by (induction js) (auto dest: alloc_at_munmap split: option.splits)

lemma TryAllocAligned_munmap:
  assumes "arena_inv a" "valid_req n al" "munmap_only a" "\<not> ar_guardPages a"
  shows "munmap_only (fst (TryAllocAligned os a n al))"
proof -
  have g: "munmap_only (fst (grow_arena os a n al))"
    unfolding grow_arena_def using assms(3,4)
    by (auto simp: Let_def munmap_only_def dest!: newChunk_Munmap alloc_at_munmap [rotated] split: option.splits sum.splits)
  then show ?thesis
    using assms(3) by (auto simp: TryAllocAligned_alloc [OF assms(1,2)] allocSlow_def
        dest: alloc_at_munmap scan_munmap split: option.splits)
qed

lemma local_try_outcome:
  assumes inv: "local_inv la" and ok: "local_req_ok os la n align"
    and t: "local_try os la n align = (la', r)"
  shows "local_inv la' \<and> arena_ext (la_abs la) (la_abs la') \<and>
    (\<forall>s. r = Some s \<longrightarrow> region s \<inter> local_live la = {} \<and> region s \<subseteq> local_live la' \<and> sl_len s = nat n \<and>
       nat align dvd local_addr la' (sl_chunk s, sl_lo s))"
proof (cases "0 < n \<and> isPowerOfTwo align")
  case False
  then show ?thesis using inv t by (simp add: local_try_invalid)
next
  case True
  then have req: "valid_req n align" "align \<le> 4096" and os: "os_ok os (la_chunks la)"
    using ok by (auto simp: local_req_ok_def valid_req_def in_int64_def)
  have ai: "arena_inv (la_abs la)" using inv by (simp add: local_inv_def)
  obtain b where b: "TryAllocAligned os (la_abs la) n align = (b, r)" and la': "la' = local_result la b"
    using t local_try_eq [OF inv req os] by (metis fst_conv prod.exhaust snd_conv)
  note O = TryAllocAligned_outcome [OF ai req(1), of os, simplified, OF os, unfolded b]
  have act: "ar_active b \<noteq> None" using O by (auto simp: alloc_outcome_def arena_ext_def)
  have f: "ar_chunks (la_abs la') = ar_chunks b" "ar_active (la_abs la') = ar_active b"
    using act by (auto simp: la' local_result_def)
  have live: "live_bytes (la_abs la') = live_bytes b" "byte_addr (la_abs la') = byte_addr b"
    unfolding live_bytes_def byte_addr_def f by simp_all
  have ext: "arena_ext (la_abs la) (la_abs la')"
    using O unfolding alloc_outcome_def arena_ext_def f by simp
  have "map ch_buf (ar_chunks (la_abs la')) = map ch_buf (ar_chunks b)" by (simp only: f)
  then have cap: "LocalCapacity la' = Capacity b" using Capacity_cong [of "la_abs la'" b] by simp
  have capb: "0 < Capacity b" "Capacity b \<le> 2 ^ 47"
    using O Capacity_eq [of b] Capacity_mono_ext [of "la_abs la" b] ai
    by (auto simp: alloc_outcome_def arena_inv_def)
  have "arena_inv b" using O by (simp add: alloc_outcome_def)
  then have "arena_inv (la_abs la')"
    using capb unfolding arena_inv_def f by (simp add: cap)
  moreover have "munmap_only b"
    using TryAllocAligned_munmap [OF ai req(1), of os] inv b by (simp add: local_inv_def munmap_only_def)
  ultimately have "local_inv la'" using f by (simp add: local_inv_def munmap_only_def)
  then show ?thesis
    using O ext by (auto simp: alloc_outcome_def got_slice_def local_live_def local_addr_def live)
qed

interpretation local_bump: addressed_allocator local_inv local_live local_req_ok local_try local_addr
proof
  fix la os n align assume A: "local_inv la" "local_req_ok os la n align"
  obtain la' r where t: "local_try os la n align = (la', r)" by force
  note O = local_try_outcome [OF A t]
  show "local_inv (fst (local_try os la n align))" "local_live la \<subseteq> local_live (fst (local_try os la n align))"
    using O arena_ext_live by (auto simp: t local_live_def)
  show "region sl \<inter> local_live la = {} \<and> region sl \<subseteq> local_live b"
    if "local_try os la n align = (b, Some sl)" for b sl
    using O that by (simp add: t)
  show "local_addr (fst (local_try os la n align)) p = local_addr la p" if "p \<in> local_live la" for p
    using O that by (auto simp: t arena_ext_def local_addr_def byte_addr_def live_bytes_def local_live_def)
next
  fix la assume "local_inv la" then show "inj_on (local_addr la) (local_live la)"
    unfolding local_addr_def local_live_def by (intro inj_on_byte_addr) (simp add: local_inv_def)
qed

lemma NewLocalArena_inv:
  assumes "NewLocalArena os sz = Return la" "os_ok os []" "sz < 2 ^ 62"
  shows "local_inv la" "local_live la = {}"
proof -
  obtain c where c: "0 < sz" "newChunk os sz False = Inr c"
    and la: "la = \<lparr>la_chunks = [c], la_activeIdx = 0, la_chunkSize = sz, la_closed = False\<rparr>"
    using assms(1) by (auto simp: NewLocalArena_def split: if_splits sum.splits)
  have f: "fresh_chunk [] sz c" using newChunk_fresh [OF assms(2) c(1) _ c(2)] assms(3) by simp
  then have "LocalCapacity la = sz" using c assms(3) by (simp add: LocalCapacity_def la fresh_chunk_def in_int64_def)
  with f c assms(3) show "local_inv la" "local_live la = {}"
    using newChunk_Munmap [OF c(2)]
    by (auto simp: la local_inv_def arena_inv_def fresh_chunk_def local_live_def live_bytes_def)
qed

lemma LocalReset_inv: "local_inv la \<Longrightarrow> local_inv (LocalReset la)"
proof -
  assume inv: "local_inv la"
  have "LocalCapacity (LocalReset la) = LocalCapacity la"
    by (simp add: LocalReset_def LocalCapacity_def fold_map comp_def)
  with inv show ?thesis
    by (auto simp: LocalReset_def local_inv_def arena_inv_def chunk_ok_def sorted_wrt_map addr_range_def)
qed

section \<open>Properties\<close>

text \<open>C8. The unsynchronised allocator refines the shared one: for alignments up to the page size
  it returns the very slice the shared arena would, leaves the same chunks and offsets, and fails (by a
  panic with the error of the OS) exactly when the shared arena does.\<close>

theorem LocalAllocAligned_refines_arena:
  assumes "local_inv la" "valid_req n align" "align \<le> 4096" "os_ok os (la_chunks la)"
    "TryAllocAligned os (la_abs la) n align = (b, r)"
  shows "\<exists>la' res. LocalAllocAligned os la n align = (la', res) \<and> local_inv la' \<and>
    la_chunks la' = ar_chunks b \<and> ar_active b = Some (la_activeIdx la') \<and>
    (case r of Some s \<Rightarrow> res = Return s | None \<Rightarrow> \<exists>e. res = Panic (PanicErrno e))"
proof -
  have ok: "local_req_ok os la n align" using assms(2-4) by (auto simp: local_req_ok_def valid_req_def in_int64_def)
  note T = local_try_eq [OF assms]
  have "ar_active b \<noteq> None"
    using assms by (auto simp: local_inv_def arena_ext_def alloc_outcome_def
        dest!: TryAllocAligned_outcome [of "la_abs la" n align os])
  moreover have "local_inv (local_result la b)" using local_try_outcome [OF assms(1) ok T] by simp
  moreover have "\<exists>e. res = Panic (PanicErrno e)"
    if res: "LocalAllocAligned os la n align = (local_result la b, res)" "r = None" for res
  proof -
    obtain p where p: "res = Panic p" using T res by (cases res) (auto simp: local_try_def)
    show ?thesis
    proof (cases "newChunk os (max n (LocalCapacity la)) False")
      case (Inl e)
      then show ?thesis using LocalAllocAligned_refines [OF assms] that by auto
    next
      case (Inr c)
      have gs: "grow_size (la_abs la) n = Some (max n (LocalCapacity la))"
        using grow_size_la_abs [OF assms(1)] assms(2) by (simp add: max_def valid_req_def split: if_splits)
      have n: "0 < n" "n < 2 ^ 63" using assms(2) by (auto simp: valid_req_def)
      have "fresh_chunk (la_chunks la) (max n (LocalCapacity la)) c"
        using newChunk_fresh [OF assms(4) _ _ Inr] n assms(1) Capacity_eq [of "la_abs la"] by (simp add: local_inv_def)
      then have "chunk_alloc c n align \<noteq> None" using alloc_at_fresh assms(2,3) by fastforce
      then have "snd (grow_arena os (la_abs la) n align) \<noteq> None"
        using gs Inr by (auto simp: grow_arena_def Let_def alloc_at_def nth_append)
      then show ?thesis
        using assms(1,2,5) that(2)
        by (auto simp: TryAllocAligned_alloc local_inv_def allocSlow_def split: option.splits)
    qed
  qed
  ultimately show ?thesis
    using LocalAllocAligned_refines [OF assms]
    by (auto simp: local_result_def split: option.splits)
qed

definition demo_local :: local_arena where
  "demo_local = \<lparr>la_chunks = [\<lparr>ch_buf = replicate 16 0, ch_base = 65536, ch_off = 10, ch_release = Munmap\<rparr>],
     la_activeIdx = 0, la_chunkSize = 16, la_closed = False\<rparr>"

lemma demo_local_inv: "local_inv demo_local"
  by (simp add: demo_local_def local_inv_def arena_inv_def chunk_ok_def LocalCapacity_def in_int64_def)

lemma LocalAllocAligned_refines_arena_witness:
  "\<exists>la'. LocalAllocAligned (demo_os 131072) demo_local 10 64 = (la', Return (Slice 1 0 10 16))"
proof -
  have o: "os_ok (demo_os 131072) (la_chunks demo_local)"
    by (rule demo_os_ok) (auto simp: demo_local_def)
  have v: "valid_req 10 64" by (simp add: valid_req_def isPowerOfTwo_def)
  have t: "TryAllocAligned (demo_os 131072) (la_abs demo_local) 10 64 =
    (fst (TryAllocAligned (demo_os 131072) (la_abs demo_local) 10 64), Some (Slice 1 0 10 16))"
    by code_simp
  show ?thesis using LocalAllocAligned_refines_arena [OF demo_local_inv v _ o t] by auto
qed

text \<open>Beyond the page size the last step of \<^verbatim>\<open>growAndAlloc\<close> is unchecked: a fresh chunk
  whose base is not aligned to the request is appended, its offset is set past its end, the slice
  expression panics, and from then on the arena reports more bytes in use than it has.\<close>

lemma growAndAlloc_overrun:
  "\<exists>la'. local_inv demo_local \<and> os_ok (demo_os 135168) (la_chunks demo_local) \<and>
     LocalAllocAligned (demo_os 135168) demo_local 8 8192 = (la', Panic SliceOutOfRange) \<and>
     LocalStats la' = (4096 + 18, 32)"
proof -
  have o: "os_ok (demo_os 135168) (la_chunks demo_local)"
    by (rule demo_os_ok) (auto simp: demo_local_def)
  have "snd (LocalAllocAligned (demo_os 135168) demo_local 8 8192) = Panic SliceOutOfRange"
    "LocalStats (fst (LocalAllocAligned (demo_os 135168) demo_local 8 8192)) = (4096 + 18, 32)"
    by code_simp+
  then show ?thesis using o demo_local_inv by (metis prod.collapse)
qed

end
