(* ===== verification/Concurrent_Chunk.thy ===== *)
theory Concurrent_Chunk
  imports Chunk
begin

text \<open>
  Goroutines allocating from one chunk at the same time. Every round of the loops of \<^verbatim>\<open>tryAlloc\<close> and
  \<^verbatim>\<open>tryAllocAligned\<close> is an atomic load, a computation on local variables, and an atomic
  compare-and-swap; the step relation interleaves these actions of any number of goroutines
  (Go's atomics are sequentially consistent). The theory shows that every execution is equivalent to a
  sequential one, and that every execution comes to an end.
\<close>

section \<open>The system\<close>

datatype alloc_op = TryAllocOp int | TryAllocAlignedOp int int

text \<open>One loop body: from the chunk with the loaded offset, the offset to swap in and the slice
  bounds, or failure.\<close>

fun alloc_body :: "alloc_op \<Rightarrow> chunk \<Rightarrow> (chunk \<times> nat \<times> nat) option" where
  "alloc_body (TryAllocOp n) c = chunk_tryAlloc c n"
| "alloc_body (TryAllocAlignedOp n align) c = chunk_tryAllocAligned c n align"

text \<open>A goroutine is about to load, or has loaded \<open>off\<close> and is about to swap in \<open>new\<close> for the
  slice \<open>lo:hi\<close>, or has returned.\<close>

datatype goroutine =
    AtLoad alloc_op
  | AtSwap alloc_op u64 u64 nat nat
  | Returned alloc_op "(nat \<times> nat) option"

type_synonym system = "chunk \<times> goroutine list"

inductive cstep :: "system \<Rightarrow> system \<Rightarrow> bool" where
  load_fail: "i < length ts \<Longrightarrow> ts ! i = AtLoad op \<Longrightarrow> alloc_body op c = None \<Longrightarrow>
    cstep (c, ts) (c, ts[i := Returned op None])"
| load_ok: "i < length ts \<Longrightarrow> ts ! i = AtLoad op \<Longrightarrow> alloc_body op c = Some (c', lo, hi) \<Longrightarrow>
    cstep (c, ts) (c, ts[i := AtSwap op (ch_off c) (ch_off c') lo hi])"
| swap_ok: "i < length ts \<Longrightarrow> ts ! i = AtSwap op off new lo hi \<Longrightarrow> ch_off c = off \<Longrightarrow>
    cstep (c, ts) (c\<lparr>ch_off := new\<rparr>, ts[i := Returned op (Some (lo, hi))])"
| swap_fail: "i < length ts \<Longrightarrow> ts ! i = AtSwap op off new lo hi \<Longrightarrow> ch_off c \<noteq> off \<Longrightarrow>
    cstep (c, ts) (c, ts[i := AtLoad op])"

inductive_cases cstep_elim [elim!]: "cstep (c, ts) s'"

code_pred cstep .

text \<open>The sequential execution of a list of requests.\<close>

fun seq_run :: "chunk \<Rightarrow> alloc_op list \<Rightarrow> chunk \<times> (nat \<times> nat) option list" where
  "seq_run c [] = (c, [])"
| "seq_run c (op # ops) =
     (case alloc_body op c of
        None \<Rightarrow> (case seq_run c ops of (d, rs) \<Rightarrow> (d, None # rs))
      | Some (c', lo, hi) \<Rightarrow> (case seq_run c' ops of (d, rs) \<Rightarrow> (d, Some (lo, hi) # rs)))"

fun op_ok :: "alloc_op \<Rightarrow> bool" where
  "op_ok (TryAllocOp n) = in_int64 n"
| "op_ok (TryAllocAlignedOp n align) = (in_int64 n \<and> in_int64 align)"

fun op_align :: "alloc_op \<Rightarrow> nat" where
  "op_align (TryAllocOp n) = 1"
| "op_align (TryAllocAlignedOp n align) = nat align"

section \<open>One body\<close>

lemma alloc_body_Some:
  assumes "chunk_ok c" "op_ok op" "alloc_body op c = Some (c', lo, hi)"
  shows "c' = c\<lparr>ch_off := ch_off c'\<rparr>" "unat (ch_off c') = hi" "unat (ch_off c) \<le> lo" "lo < hi" "hi \<le> chunk_len c"
    "chunk_ok c'" "op_align op dvd unat (ch_base c) + lo"
proof -
  have "\<exists>n align. 0 < n \<and> n < 2 ^ 63 \<and> isPowerOfTwo align \<and> align < 2 ^ 63 \<and>
    chunk_alloc c n align = Some (c', lo, hi) \<and> op_align op = nat align"
  proof (cases op)
    case (TryAllocOp n)
    then have "0 < n" using assms(3) by (auto simp: chunk_tryAlloc_def split: if_splits)
    with TryAllocOp assms(2,3) show ?thesis
      by (intro exI [of _ n] exI [of _ 1]) (auto simp: chunk_alloc_def isPowerOfTwo_def in_int64_def)
  next
    case (TryAllocAlignedOp n align)
    then have v: "0 < n" "n < 2 ^ 63" "isPowerOfTwo align" "align < 2 ^ 63"
      using assms(2,3) by (auto simp: chunk_tryAllocAligned_def in_int64_def split: if_splits)
    then have "chunk_alloc c n align = chunk_tryAllocAligned c n align"
      by (simp add: chunk_alloc_eq [OF assms(1)] chunk_tryAllocAligned_eq [OF assms(1)])
    with v TryAllocAlignedOp assms(3) show ?thesis by auto
  qed
  then obtain n align where v: "0 < n" "n < 2 ^ 63" "isPowerOfTwo align" "align < 2 ^ 63"
    and al: "chunk_alloc c n align = Some (c', lo, hi)" and oa: "op_align op = nat align" by auto
  note A = chunk_alloc_Some [OF assms(1) v al]
  show "unat (ch_off c') = hi" "unat (ch_off c) \<le> lo" "lo < hi" "hi \<le> chunk_len c" "chunk_ok c'"
    "op_align op dvd unat (ch_base c) + lo"
    using A v oa by auto
  show "c' = c\<lparr>ch_off := ch_off c'\<rparr>"
    using al by (auto simp: chunk_alloc_def chunk_tryAlloc_def chunk_tryAllocAligned_def Let_def split: if_splits)
qed

section \<open>Invariant\<close>

definition swap_inv :: "chunk \<Rightarrow> goroutine \<Rightarrow> bool" where
  "swap_inv c t \<longleftrightarrow> (\<forall>op off new lo hi. t = AtSwap op off new lo hi \<longrightarrow>
     off \<le> ch_off c \<and> alloc_body op (c\<lparr>ch_off := off\<rparr>) = Some (c\<lparr>ch_off := new\<rparr>, lo, hi))"

fun op_of :: "goroutine \<Rightarrow> alloc_op" where
  "op_of (AtLoad op) = op"
| "op_of (AtSwap op _ _ _ _) = op"
| "op_of (Returned op _) = op"

definition sys_inv :: "system \<Rightarrow> bool" where
  "sys_inv s \<longleftrightarrow> chunk_ok (fst s) \<and> (\<forall>t \<in> set (snd s). op_ok (op_of t) \<and> swap_inv (fst s) t)"

lemma chunk_ok_off_less: "chunk_ok c \<Longrightarrow> off \<le> ch_off c \<Longrightarrow> chunk_ok (c\<lparr>ch_off := off\<rparr>)"
  by (auto simp: chunk_ok_def word_le_nat_alt)

text \<open>A swap that succeeds does what the whole body would do at that moment.\<close>

lemma swap_is_body:
  assumes "sys_inv (c, ts)" "i < length ts" "ts ! i = AtSwap op (ch_off c) new lo hi"
  shows "alloc_body op c = Some (c\<lparr>ch_off := new\<rparr>, lo, hi)"
  using assms nth_mem [OF assms(2)] by (fastforce simp: sys_inv_def swap_inv_def)

lemma sys_inv_cstep:
  assumes "sys_inv s" "cstep s s'"
  shows "sys_inv s'"
  using assms(2,1)
proof (cases rule: cstep.cases)
  case (load_fail i ts op c)
  with assms(1) nth_mem [OF load_fail(3)] show ?thesis
    by (fastforce simp: sys_inv_def swap_inv_def dest!: set_update_subset_insert [THEN subsetD])
next
  case (load_ok i ts op c c' lo hi)
  then have m: "op_ok op" "chunk_ok c" using assms(1) nth_mem [OF load_ok(3)] by (fastforce simp: sys_inv_def)+
  have "swap_inv c (AtSwap op (ch_off c) (ch_off c') lo hi)"
    using load_ok(5) alloc_body_Some(1) [OF m(2,1) load_ok(5)] by (auto simp: swap_inv_def)
  with load_ok m assms(1) show ?thesis
    by (fastforce simp: sys_inv_def dest!: set_update_subset_insert [THEN subsetD])
next
  case (swap_ok i ts op off new lo hi c)
  have b: "alloc_body op c = Some (c\<lparr>ch_off := new\<rparr>, lo, hi)"
    using swap_is_body [of c ts i op new lo hi] assms(1) swap_ok by simp
  have m: "op_ok op" "chunk_ok c" using assms(1) swap_ok nth_mem [OF swap_ok(3)] by (fastforce simp: sys_inv_def)+
  note B = alloc_body_Some [OF m(2,1) b]
  then have "ch_off c \<le> new" by (simp add: word_le_nat_alt)
  then have "swap_inv (c\<lparr>ch_off := new\<rparr>) t" if "swap_inv c t" for t
    using that by (fastforce simp: swap_inv_def)
  with swap_ok B(6) m assms(1) show ?thesis
    by (fastforce simp: sys_inv_def swap_inv_def [of _ "Returned _ _"] dest!: set_update_subset_insert [THEN subsetD])
next
  case (swap_fail i ts op off new lo hi c)
  with assms(1) nth_mem [OF swap_fail(3)] show ?thesis
    by (fastforce simp: sys_inv_def swap_inv_def [of _ "AtLoad _"] dest!: set_update_subset_insert [THEN subsetD])
qed

section \<open>Every execution is equivalent to a sequential one\<close>

fun result_of :: "goroutine \<Rightarrow> (nat \<times> nat) option" where
  "result_of (Returned _ r) = r"
| "result_of _ = None"

fun returned :: "goroutine \<Rightarrow> bool" where
  "returned (Returned _ _) = True"
| "returned _ = False"

lemma seq_run_snoc:
  "seq_run c (ops @ [op]) =
     (case seq_run c ops of (d, rs) \<Rightarrow>
        (case alloc_body op d of None \<Rightarrow> (d, rs @ [None]) | Some (d', lo, hi) \<Rightarrow> (d', rs @ [Some (lo, hi)])))"
  by (induction ops arbitrary: c) (auto split: option.splits prod.splits)

definition linearised :: "chunk \<Rightarrow> alloc_op list \<Rightarrow> system \<Rightarrow> nat list \<Rightarrow> bool" where
  "linearised c0 ops s order \<longleftrightarrow>
     distinct order \<and> set order = {i. i < length (snd s) \<and> returned (snd s ! i)} \<and>
     map op_of (snd s) = ops \<and>
     seq_run c0 (map (\<lambda>i. ops ! i) order) = (fst s, map (\<lambda>i. result_of (snd s ! i)) order)"

lemma map_nth_update_notin:
  "i \<notin> set order \<Longrightarrow> map (\<lambda>j. f (ts[i := t] ! j)) order = map (\<lambda>j. f (ts ! j)) order"
  by (intro map_cong refl) (metis nth_list_update_neq)

lemma map_op_of_update:
  "i < length ts \<Longrightarrow> op_of t = op_of (ts ! i) \<Longrightarrow> map op_of (ts[i := t]) = map op_of ts"
  by (simp add: map_update list_update_same_conv)

lemma linearised_return:
  assumes lin: "linearised c0 ops (c, ts) order" and i: "i < length ts" "\<not> returned (ts ! i)"
    and b: "case alloc_body (op_of (ts ! i)) c of None \<Rightarrow> r = None \<and> d = c | Some (c', lo, hi) \<Rightarrow> r = Some (lo, hi) \<and> d = c'"
  shows "linearised c0 ops (d, ts[i := Returned (op_of (ts ! i)) r]) (order @ [i])"
proof -
  have ni: "i \<notin> set order" using lin i by (auto simp: linearised_def)
  then have m: "map (\<lambda>j. result_of (ts[i := Returned op r] ! j)) order = map (\<lambda>j. result_of (ts ! j)) order" for op
    by (rule map_nth_update_notin)
  have ops: "ops = map op_of ts" using lin by (simp add: linearised_def)
  have o: "ops ! i = op_of (ts ! i)" "map op_of (ts[i := Returned (op_of (ts ! i)) r]) = ops"
    using i(1) by (simp_all add: ops map_op_of_update)
  show ?thesis
    unfolding linearised_def
  proof (intro conjI)
    show "set (order @ [i]) = {j. j < length (snd (d, ts[i := Returned (op_of (ts ! i)) r])) \<and>
        returned (snd (d, ts[i := Returned (op_of (ts ! i)) r]) ! j)}"
      using lin i by (auto simp: linearised_def nth_list_update)
    show "seq_run c0 (map (\<lambda>i. ops ! i) (order @ [i])) = (fst (d, ts[i := Returned (op_of (ts ! i)) r]),
        map (\<lambda>j. result_of (snd (d, ts[i := Returned (op_of (ts ! i)) r]) ! j)) (order @ [i]))"
      using lin i b by (auto simp: linearised_def seq_run_snoc o m split: option.splits)
  qed (use lin ni o in \<open>auto simp: linearised_def\<close>)
qed

lemma linearised_same:
  assumes "linearised c0 ops (c, ts) order" "i < length ts" "\<not> returned (ts ! i)" "\<not> returned t" "op_of t = op_of (ts ! i)"
  shows "linearised c0 ops (c, ts[i := t]) order"
proof -
  have ni: "i \<notin> set order" using assms by (auto simp: linearised_def)
  then have "map (\<lambda>j. result_of (ts[i := t] ! j)) order = map (\<lambda>j. result_of (ts ! j)) order"
    by (rule map_nth_update_notin)
  moreover have "{j. j < length ts \<and> returned (ts[i := t] ! j)} = {j. j < length ts \<and> returned (ts ! j)}"
    using assms by (auto simp: nth_list_update)
  moreover have "map op_of (ts[i := t]) = map op_of ts"
    using assms by (intro map_op_of_update)
  ultimately show ?thesis using assms(1) by (simp add: linearised_def)
qed

lemma linearised_cstep:
  assumes "sys_inv s" "cstep s s'" "linearised c0 ops s order"
  shows "\<exists>order'. linearised c0 ops s' order'"
  using assms(2)
proof (cases rule: cstep.cases)
  case (load_fail i ts op c)
  then show ?thesis using linearised_return [of c0 ops c ts order i None c] assms(3) by auto
next
  case (load_ok i ts op c c' lo hi)
  then show ?thesis using linearised_same [of c0 ops c ts order i "AtSwap op (ch_off c) (ch_off c') lo hi"] assms(3) by auto
next
  case (swap_ok i ts op off new lo hi c)
  have "alloc_body op c = Some (c\<lparr>ch_off := new\<rparr>, lo, hi)"
    using swap_is_body [of c ts i op new lo hi] assms(1) swap_ok by simp
  then show ?thesis using linearised_return [of c0 ops c ts order i "Some (lo, hi)" "c\<lparr>ch_off := new\<rparr>"] assms(3) swap_ok by auto
next
  case (swap_fail i ts op off new lo hi c)
  then show ?thesis using linearised_same [of c0 ops c ts order i "AtLoad op"] assms(3) by auto
qed

lemma sys_inv_init: "chunk_ok c \<Longrightarrow> \<forall>op \<in> set ops. op_ok op \<Longrightarrow> sys_inv (c, map AtLoad ops)"
  by (auto simp: sys_inv_def swap_inv_def)

lemma linearised_init: "linearised c ops (c, map AtLoad ops) []"
  by (auto simp: linearised_def comp_def)

lemma reachable_linearised:
  assumes "chunk_ok c" "\<forall>op \<in> set ops. op_ok op" "cstep\<^sup>*\<^sup>* (c, map AtLoad ops) s"
  shows "sys_inv s \<and> (\<exists>order. linearised c ops s order)"
  using assms(3)
proof (induction rule: rtranclp_induct)
  case base
  then show ?case using sys_inv_init [OF assms(1,2)] linearised_init by blast
next
  case (step s s')
  then show ?case using sys_inv_cstep linearised_cstep by blast
qed

section \<open>Consequences of linearisation\<close>

lemma seq_run_bounds:
  assumes "chunk_ok c" "\<forall>op \<in> set ops. op_ok op" "seq_run c ops = (d, rs)"
  shows "chunk_ok d \<and> ch_base d = ch_base c \<and> ch_buf d = ch_buf c \<and> unat (ch_off c) \<le> unat (ch_off d) \<and> length rs = length ops \<and>
    (\<forall>i < length rs. \<forall>lo hi. rs ! i = Some (lo, hi) \<longrightarrow>
       unat (ch_off c) \<le> lo \<and> lo < hi \<and> hi \<le> unat (ch_off d) \<and> op_align (ops ! i) dvd unat (ch_base c) + lo)"
  using assms
proof (induction ops arbitrary: c rs)
  case (Cons op ops)
  show ?case
  proof (cases "alloc_body op c")
    case None
    with Cons obtain rs' where rs': "seq_run c ops = (d, rs')" "rs = None # rs'" by (auto split: prod.splits)
    with Cons.IH [OF Cons.prems(1) _ rs'(1)] Cons.prems(2) show ?thesis by (auto simp: nth_Cons split: nat.splits)
  next
    case (Some r)
    obtain c' lo hi where r: "r = (c', lo, hi)" by (cases r)
    with Some Cons obtain rs' where rs': "seq_run c' ops = (d, rs')" "rs = Some (lo, hi) # rs'" by (auto split: prod.splits)
    note B = alloc_body_Some [OF Cons.prems(1) _ Some [unfolded r]]
    have op: "op_ok op" using Cons.prems(2) by simp
    have "ch_base c' = ch_base c" "ch_buf c' = ch_buf c" by (subst B(1) [OF op], simp)+
    with Cons.IH [OF B(6) _ rs'(1)] Cons.prems(2) B [OF op] rs'(2) show ?thesis
      by (auto simp: nth_Cons split: nat.splits)
  qed
qed auto

lemma seq_run_disjoint:
  assumes "chunk_ok c" "\<forall>op \<in> set ops. op_ok op" "seq_run c ops = (d, rs)"
  shows "sorted_wrt (\<lambda>x y. \<forall>lo hi lo' hi'. x = Some (lo, hi) \<longrightarrow> y = Some (lo', hi') \<longrightarrow> hi \<le> lo') rs"
  using assms
proof (induction ops arbitrary: c rs)
  case (Cons op ops)
  show ?case
  proof (cases "alloc_body op c")
    case None
    with Cons obtain rs' where rs': "seq_run c ops = (d, rs')" "rs = None # rs'" by (auto split: prod.splits)
    with Cons.IH [OF Cons.prems(1) _ rs'(1)] Cons.prems(2) show ?thesis by auto
  next
    case (Some r)
    obtain c' lo hi where r: "r = (c', lo, hi)" by (cases r)
    with Some Cons obtain rs' where rs': "seq_run c' ops = (d, rs')" "rs = Some (lo, hi) # rs'" by (auto split: prod.splits)
    note B = alloc_body_Some [OF Cons.prems(1) _ Some [unfolded r]]
    have op: "op_ok op" "\<forall>op \<in> set ops. op_ok op" using Cons.prems(2) by simp_all
    have "\<forall>y \<in> set rs'. \<forall>lo' hi'. y = Some (lo', hi') \<longrightarrow> hi \<le> lo'"
      using seq_run_bounds [OF B(6) [OF op(1)] op(2) rs'(1)] B(2) [OF op(1)] by (auto simp: in_set_conv_nth)
    with Cons.IH [OF B(6) [OF op(1)] op(2) rs'(1)] rs'(2) show ?thesis by auto
  qed
qed simp

section \<open>Every execution ends\<close>

text \<open>A goroutine with a stale offset still has to fail its swap and load again; one that succeeds
  uses up a byte of the chunk.\<close>

fun weight :: "u64 \<Rightarrow> goroutine \<Rightarrow> nat" where
  "weight cur (AtLoad _) = 2"
| "weight cur (AtSwap _ off _ _ _) = (if off = cur then 1 else 3)"
| "weight cur (Returned _ _) = 0"

definition sys_weight :: "system \<Rightarrow> nat" where
  "sys_weight s = sum_list (map (weight (ch_off (fst s))) (snd s))"

definition room :: "system \<Rightarrow> nat" where
  "room s = chunk_len (fst s) - unat (ch_off (fst s))"

lemma sum_list_update_less:
  "i < length xs \<Longrightarrow> y < xs ! i \<Longrightarrow> sum_list (xs[i := y]) < sum_list (xs :: nat list)"
  by (induction xs arbitrary: i) (auto split: nat.splits simp: nth_Cons)

lemma sys_weight_less:
  "i < length ts \<Longrightarrow> weight (ch_off c) t < weight (ch_off c) (ts ! i) \<Longrightarrow> sys_weight (c, ts[i := t]) < sys_weight (c, ts)"
  by (simp add: sys_weight_def map_update sum_list_update_less)

lemma cstep_decreases:
  assumes "sys_inv s" "cstep s s'"
  shows "(s', s) \<in> measures [room, sys_weight]"
  using assms(2)
proof (cases rule: cstep.cases)
  case (swap_ok i ts op off new lo hi c)
  have b: "alloc_body op c = Some (c\<lparr>ch_off := new\<rparr>, lo, hi)"
    using swap_is_body [of c ts i op new lo hi] assms(1) swap_ok by simp
  have m: "op_ok op" "chunk_ok c" using assms(1) swap_ok nth_mem [OF swap_ok(3)] by (fastforce simp: sys_inv_def)+
  from alloc_body_Some [OF m(2,1) b] have "unat (ch_off c) < unat new" "unat new \<le> chunk_len c" by simp_all
  then have "chunk_len c - unat new < chunk_len c - unat (ch_off c)" by linarith
  then show ?thesis by (simp add: swap_ok room_def)
qed (use sys_weight_less in \<open>auto simp: room_def\<close>)

lemma cstep_wf: "wf {(s', s). sys_inv s \<and> cstep s s'}"
  by (rule wf_subset [OF wf_measures [of "[room, sys_weight]"]]) (use cstep_decreases in blast)

lemma cstep_progress:
  assumes "i < length ts" "\<not> returned (ts ! i)"
  shows "\<exists>s'. cstep (c, ts) s'"
proof (cases "ts ! i")
  case (AtLoad op)
  show ?thesis
  proof (cases "alloc_body op c")
    case None
    with AtLoad assms(1) show ?thesis by (blast intro: load_fail)
  next
    case (Some r)
    with AtLoad assms(1) show ?thesis by (cases r) (blast intro: load_ok)
  qed
next
  case (AtSwap op off new lo hi)
  then show ?thesis using assms(1) swap_ok [of i ts op off] swap_fail [of i ts op off] by (cases "ch_off c = off") blast+
qed (use assms in auto)

section \<open>Properties\<close>

text \<open>C9. Concurrent allocation is linearisable: whatever the interleaving of loads and swaps, the
  goroutines that have returned can be put in an order in which executing the loop bodies one after
  the other, each alone, gives every one of them its result and the chunk its present offset.\<close>

theorem concurrent_linearisable:
  assumes "chunk_ok c" "\<forall>op \<in> set ops. op_ok op" "cstep\<^sup>*\<^sup>* (c, map AtLoad ops) (d, ts)"
  shows "\<exists>order. distinct order \<and> set order = {i. i < length ts \<and> returned (ts ! i)} \<and>
    seq_run c (map (\<lambda>i. ops ! i) order) = (d, map (\<lambda>i. result_of (ts ! i)) order)"
  using reachable_linearised [OF assms] by (auto simp: linearised_def)

definition demo_chunk :: chunk where
  "demo_chunk = \<lparr>ch_buf = replicate 16 0, ch_base = 65536, ch_off = 0, ch_release = Munmap\<rparr>"

lemma demo_chunk_ok: "chunk_ok demo_chunk"
  by (simp add: demo_chunk_def chunk_ok_def)

text \<open>Two goroutines load the same offset; the second one to swap has to start over.\<close>

lemma demo_steps:
  "cstep\<^sup>*\<^sup>* (demo_chunk, map AtLoad [TryAllocOp 5, TryAllocAlignedOp 4 8])
     (demo_chunk\<lparr>ch_off := 12\<rparr>, [Returned (TryAllocOp 5) (Some (0, 5)), Returned (TryAllocAlignedOp 4 8) (Some (8, 12))])"
proof -
  let ?A = "TryAllocOp 5" and ?B = "TryAllocAlignedOp 4 8"
  have a: "alloc_body ?A demo_chunk = Some (demo_chunk\<lparr>ch_off := 5\<rparr>, 0, 5)"
    and b: "alloc_body ?B demo_chunk = Some (demo_chunk\<lparr>ch_off := 4\<rparr>, 0, 4)"
    and b2: "alloc_body ?B (demo_chunk\<lparr>ch_off := 5\<rparr>) = Some (demo_chunk\<lparr>ch_off := 12\<rparr>, 8, 12)"
    by code_simp+
  have o: "ch_off demo_chunk = 0" by (simp add: demo_chunk_def)
  have "cstep (demo_chunk, [AtLoad ?A, AtLoad ?B]) (demo_chunk, [AtSwap ?A 0 5 0 5, AtLoad ?B])"
    using load_ok [OF _ _ a, of 0 "[AtLoad ?A, AtLoad ?B]"] by (simp add: o)
  moreover have "cstep (demo_chunk, [AtSwap ?A 0 5 0 5, AtLoad ?B]) (demo_chunk, [AtSwap ?A 0 5 0 5, AtSwap ?B 0 4 0 4])"
    using load_ok [OF _ _ b, of 1 "[AtSwap ?A 0 5 0 5, AtLoad ?B]"] by (simp add: o)
  moreover have "cstep (demo_chunk, [AtSwap ?A 0 5 0 5, AtSwap ?B 0 4 0 4])
    (demo_chunk\<lparr>ch_off := 5\<rparr>, [Returned ?A (Some (0, 5)), AtSwap ?B 0 4 0 4])"
    using swap_ok [of 0 "[AtSwap ?A 0 5 0 5, AtSwap ?B 0 4 0 4]" ?A 0 5 0 5 demo_chunk] by (simp add: o)
  moreover have "cstep (demo_chunk\<lparr>ch_off := 5\<rparr>, [Returned ?A (Some (0, 5)), AtSwap ?B 0 4 0 4])
    (demo_chunk\<lparr>ch_off := 5\<rparr>, [Returned ?A (Some (0, 5)), AtLoad ?B])"
    using swap_fail [of 1 "[Returned ?A (Some (0, 5)), AtSwap ?B 0 4 0 4]" ?B 0 4 0 4 "demo_chunk\<lparr>ch_off := 5\<rparr>"] by simp
  moreover have "cstep (demo_chunk\<lparr>ch_off := 5\<rparr>, [Returned ?A (Some (0, 5)), AtLoad ?B])
    (demo_chunk\<lparr>ch_off := 5\<rparr>, [Returned ?A (Some (0, 5)), AtSwap ?B 5 12 8 12])"
    using load_ok [OF _ _ b2, of 1 "[Returned ?A (Some (0, 5)), AtLoad ?B]"] by simp
  moreover have "cstep (demo_chunk\<lparr>ch_off := 5\<rparr>, [Returned ?A (Some (0, 5)), AtSwap ?B 5 12 8 12])
    (demo_chunk\<lparr>ch_off := 12\<rparr>, [Returned ?A (Some (0, 5)), Returned ?B (Some (8, 12))])"
    using swap_ok [of 1 "[Returned ?A (Some (0, 5)), AtSwap ?B 5 12 8 12]" ?B 5 12 8 12 "demo_chunk\<lparr>ch_off := 5\<rparr>"] by simp
  ultimately show ?thesis by (auto intro: rtranclp.rtrancl_into_rtrancl)
qed

lemma demo_ops_ok: "\<forall>op \<in> set [TryAllocOp 5, TryAllocAlignedOp 4 8]. op_ok op"
  by (simp add: in_int64_def)

lemma concurrent_linearisable_witness:
  "\<exists>order. set order = {0, 1} \<and> fst (seq_run demo_chunk (map (\<lambda>i. [TryAllocOp 5, TryAllocAlignedOp 4 8] ! i) order)) =
     demo_chunk\<lparr>ch_off := 12\<rparr>"
proof -
  have "{i. i < Suc (Suc 0) \<and> returned ([Returned (TryAllocOp 5) (Some (0, 5)), Returned (TryAllocAlignedOp 4 8) (Some (8, 12))] ! i)} = {0, 1}"
    by (auto simp: less_Suc_eq)
  moreover obtain order where
    "set order = {i. i < length [Returned (TryAllocOp 5) (Some (0, 5)), Returned (TryAllocAlignedOp 4 8) (Some (8, 12))] \<and>
       returned ([Returned (TryAllocOp 5) (Some (0, 5)), Returned (TryAllocAlignedOp 4 8) (Some (8, 12))] ! i)}"
    and *: "fst (seq_run demo_chunk (map (\<lambda>i. [TryAllocOp 5, TryAllocAlignedOp 4 8] ! i) order)) = demo_chunk\<lparr>ch_off := 12\<rparr>"
    using concurrent_linearisable [OF demo_chunk_ok demo_ops_ok demo_steps] by (elim exE conjE) (simp only: fst_conv)
  ultimately have "set order = {0, 1}" by simp
  with * show ?thesis by blast
qed

text \<open>Two goroutines never get overlapping slices from one chunk, and every slice lies in the part
  of the buffer that was free at the start, on the alignment its request asked for.\<close>

lemma concurrent_disjoint:
  assumes "chunk_ok c" "\<forall>op \<in> set ops. op_ok op" "cstep\<^sup>*\<^sup>* (c, map AtLoad ops) (d, ts)"
    "i < length ts" "result_of (ts ! i) = Some (lo, hi)"
  shows "unat (ch_off c) \<le> lo \<and> lo < hi \<and> hi \<le> unat (ch_off d) \<and> hi \<le> chunk_len c \<and>
    op_align (ops ! i) dvd unat (ch_base c) + lo \<and>
    (\<forall>j < length ts. \<forall>lo' hi'. j \<noteq> i \<longrightarrow> result_of (ts ! j) = Some (lo', hi') \<longrightarrow> hi \<le> lo' \<or> hi' \<le> lo)"
proof -
  obtain order where lin: "linearised c ops (d, ts) order" using reachable_linearised [OF assms(1-3)] by blast
  let ?rs = "map (\<lambda>i. result_of (ts ! i)) order" and ?os = "map (\<lambda>i. ops ! i) order"
  have run: "seq_run c ?os = (d, ?rs)" using lin by (simp add: linearised_def)
  have len: "length ts = length ops" using lin unfolding linearised_def by (metis length_map snd_conv)
  have so: "set order = {i. i < length ts \<and> returned (ts ! i)}" using lin by (simp add: linearised_def)
  have ok: "\<forall>op \<in> set ?os. op_ok op" using assms(2) so len by simp
  note B = seq_run_bounds [OF assms(1) ok run] and D = seq_run_disjoint [OF assms(1) ok run]
  have in_order: "j \<in> set order" if "j < length ts" "result_of (ts ! j) = Some r" for j r
    using that so by (cases "ts ! j") auto
  obtain p where p: "p < length order" "order ! p = i" using in_order [OF assms(4,5)] by (auto simp: in_set_conv_nth)
  have "hi \<le> lo' \<or> hi' \<le> lo" if j: "j < length ts" "j \<noteq> i" "result_of (ts ! j) = Some (lo', hi')" for j lo' hi'
  proof -
    obtain q where q: "q < length order" "order ! q = j" using in_order [OF j(1,3)] by (auto simp: in_set_conv_nth)
    have "p \<noteq> q" using p q j(2) by auto
    then show ?thesis
      using D [unfolded sorted_wrt_iff_nth_less, rule_format, of p q] D [unfolded sorted_wrt_iff_nth_less, rule_format, of q p]
        p q j(3) assms(5) by (cases "p < q") simp_all
  qed
  moreover have "chunk_len d = chunk_len c" "unat (ch_off d) \<le> chunk_len d" using B by (auto simp: chunk_ok_def)
  moreover have "unat (ch_off c) \<le> lo \<and> lo < hi \<and> hi \<le> unat (ch_off d) \<and> op_align (ops ! i) dvd unat (ch_base c) + lo"
    using B p assms(5) by fastforce
  ultimately show ?thesis by auto
qed

lemma concurrent_disjoint_witness:
  "op_align (TryAllocAlignedOp 4 8) dvd unat (ch_base demo_chunk) + 8"
  using concurrent_disjoint [OF demo_chunk_ok demo_ops_ok demo_steps, of 1] by simp

text \<open>C10. The compare-and-swap loops end: no interleaving of any number of goroutines runs forever,
  and when no step is left all of them have returned.\<close>

theorem concurrent_terminates:
  assumes "chunk_ok c" "\<forall>op \<in> set ops. op_ok op"
  shows "\<not> (\<exists>f. f 0 = (c, map AtLoad ops) \<and> (\<forall>n. cstep (f n) (f (Suc n)))) \<and>
    (\<forall>d ts. cstep\<^sup>*\<^sup>* (c, map AtLoad ops) (d, ts) \<longrightarrow> (\<nexists>s'. cstep (d, ts) s') \<longrightarrow> (\<forall>t \<in> set ts. returned t))"
proof (intro conjI allI impI ballI)
  show "\<not> (\<exists>f. f 0 = (c, map AtLoad ops) \<and> (\<forall>n. cstep (f n) (f (Suc n))))"
  proof
    assume "\<exists>f. f 0 = (c, map AtLoad ops) \<and> (\<forall>n. cstep (f n) (f (Suc n)))"
    then obtain f where f: "f 0 = (c, map AtLoad ops)" "\<And>n. cstep (f n) (f (Suc n))" by blast
    have "sys_inv (f n)" for n
      by (induction n) (use f sys_inv_init [OF assms] sys_inv_cstep in auto)
    then have "\<forall>n. (f (Suc n), f n) \<in> {(s', s). sys_inv s \<and> cstep s s'}" using f(2) by blast
    with cstep_wf show False by (auto simp: wf_iff_no_infinite_down_chain)
  qed
next
  fix d ts t assume "\<nexists>s'. cstep (d, ts) s'" "t \<in> set ts"
  then show "returned t" using cstep_progress by (metis in_set_conv_nth)
qed

lemma concurrent_terminates_witness:
  "\<not> (\<exists>f. f 0 = (demo_chunk, map AtLoad [TryAllocOp 5, TryAllocAlignedOp 4 8]) \<and> (\<forall>n. cstep (f n) (f (Suc n))))"
  using concurrent_terminates [OF demo_chunk_ok demo_ops_ok] by blast

end
