(* ===== verification/Scope.thy ===== *)
theory Scope
  imports Arena_Props
begin

text \<open>
  Scopes of \<^verbatim>\<open>arena.go\<close>: allocation through a scope, the typed allocators with Go's type layout and
  the pointer test that keeps garbage-collected data out of the arena, cleanups, poisoning on exit, and
  the \<^verbatim>\<open>Region\<close> wrapper. \<^verbatim>\<open>reflect\<close> and \<^verbatim>\<open>unsafe.Sizeof\<close>/\<^verbatim>\<open>Alignof\<close> are modelled on the type
  language below with the layout of the gc compiler on a 64-bit target.

  A cleanup is any computation on the world that may panic; the world is the arena together with the
  rest of the program's state. Cleanups that touch the scope itself or the metrics are not
  modelled. After
  \<^verbatim>\<open>Close\<close> chunk indices are reused, so the poisoning of a closed arena is a \<open>MemoryFault\<close> as long as no
  chunk was mapped since.
\<close>

section \<open>Go types\<close>

datatype gotype =
    TBool | TInt nat | TUint nat | TUintptr | TFloat nat | TComplex nat
  | TString | TPointer | TSlice | TMap | TChan | TInterface | TFunc | TUnsafePointer
  | TStruct "gotype list"
  | TArray nat gotype

text \<open>\<^verbatim>\<open>HasPointersReflect\<close> on a non-nil type: the kinds of the switch, structs by their fields, arrays by
  their element type.\<close>

fun HasPointers :: "gotype \<Rightarrow> bool" where
  "HasPointers (TStruct fs) = list_ex HasPointers fs"
| "HasPointers (TArray n t) = HasPointers t"
| "HasPointers t = (t \<in> {TPointer, TSlice, TMap, TChan, TInterface, TFunc, TString, TUnsafePointer})"

definition HasPointersReflect :: "gotype option \<Rightarrow> bool" where
  "HasPointersReflect t = (case t of None \<Rightarrow> False | Some t \<Rightarrow> HasPointers t)"

text \<open>\<^verbatim>\<open>reflect.TypeOf(zero)\<close> for \<^verbatim>\<open>var zero T\<close>: the dynamic type, which a nil interface has not.\<close>

definition reflect_TypeOf_zero :: "gotype \<Rightarrow> gotype option" where
  "reflect_TypeOf_zero t = (if t = TInterface then None else Some t)"

text \<open>Size and alignment. A struct lays its fields out in order, pads after a trailing zero-size field
  and rounds up to its alignment.\<close>

fun alignof :: "gotype \<Rightarrow> nat" where
  "alignof TBool = 1"
| "alignof (TInt w) = w div 8"
| "alignof (TUint w) = w div 8"
| "alignof (TFloat w) = w div 8"
| "alignof (TComplex w) = w div 16"
| "alignof (TStruct fs) = foldr (\<lambda>f m. max (alignof f) m) fs 1"
| "alignof (TArray n t) = alignof t"
| "alignof _ = 8"

fun sizeof :: "gotype \<Rightarrow> nat" where
  "sizeof TBool = 1"
| "sizeof (TInt w) = w div 8"
| "sizeof (TUint w) = w div 8"
| "sizeof (TFloat w) = w div 8"
| "sizeof (TComplex w) = w div 8"
| "sizeof TString = 16"
| "sizeof TSlice = 24"
| "sizeof TInterface = 16"
| "sizeof (TStruct fs) =
     (let body = foldl (\<lambda>off f. align_up (alignof f) off + sizeof f) 0 fs;
          padded = (if body > 0 \<and> fs \<noteq> [] \<and> last (map sizeof fs) = 0 then body + 1 else body)
      in align_up (alignof (TStruct fs)) padded)"
| "sizeof (TArray n t) = n * sizeof t"
| "sizeof _ = 8"

text \<open>The scalar widths Go has.\<close>

fun wf_type :: "gotype \<Rightarrow> bool" where
  "wf_type (TInt w) = (w \<in> {8, 16, 32, 64})"
| "wf_type (TUint w) = (w \<in> {8, 16, 32, 64})"
| "wf_type (TFloat w) = (w \<in> {32, 64})"
| "wf_type (TComplex w) = (w \<in> {64, 128})"
| "wf_type (TStruct fs) = list_all wf_type fs"
| "wf_type (TArray n t) = wf_type t"
| "wf_type _ = True"

text \<open>What the garbage collector must see: the byte offsets of the pointer words in a value.\<close>

fun pointer_words :: "gotype \<Rightarrow> nat list" where
  "pointer_words (TStruct fs) =
     fst (foldl (\<lambda>st f. let p = align_up (alignof f) (snd st)
            in (fst st @ map ((+) p) (pointer_words f), p + sizeof f)) ([], 0) fs)"
| "pointer_words (TArray n t) = concat (map (\<lambda>i. map ((+) (i * sizeof t)) (pointer_words t)) [0 ..< n])"
| "pointer_words TInterface = [0, 8]"
| "pointer_words t = (if t \<in> {TPointer, TSlice, TMap, TChan, TFunc, TString, TUnsafePointer} then [0] else [])"

lemma pointer_words_HasPointers: "pointer_words t \<noteq> [] \<Longrightarrow> HasPointers t"
proof (induction t rule: HasPointers.induct)
  case (1 fs)
  have "\<exists>f \<in> set fs. pointer_words f \<noteq> []"
    if "fst (foldl (\<lambda>st f. let p = align_up (alignof f) (snd st)
            in (fst st @ map ((+) p) (pointer_words f), p + sizeof f)) (ws0, off) fs) \<noteq> []" "ws0 = []" for ws0 off fs
    using that
  proof (induction fs arbitrary: ws0 off)
    case (Cons f fs)
    then show ?case by (cases "pointer_words f = []") (auto simp: Let_def)
  qed simp
  with 1 show ?case by (fastforce simp: list_ex_iff)
qed auto

section \<open>State\<close>

type_synonym 'w world = "arena \<times> 'w"
type_synonym 'w cleanup = "'w world \<Rightarrow> 'w world \<times> unit go"

record 'w scope =
  sc_used :: u64
  sc_active :: bool
  sc_cleanups :: "'w cleanup list"
  sc_poisonOnExit :: bool
  sc_poisonPattern :: u8
  sc_allocs :: "slice list"

definition EnterScope :: "arena \<Rightarrow> metrics \<Rightarrow> metrics \<times> 'w scope" where
  "EnterScope a m =
     (RecordScopeEnter m,
      \<lparr>sc_used = 0, sc_active = True, sc_cleanups = [], sc_poisonOnExit = ar_poisonOnExit a,
       sc_poisonPattern = ar_poisonPattern a, sc_allocs = []\<rparr>)"

definition OnExit :: "'w cleanup \<Rightarrow> 'w scope \<Rightarrow> 'w scope" where
  "OnExit f s = s\<lparr>sc_cleanups := sc_cleanups s @ [f]\<rparr>"

definition trackAlloc :: "slice \<Rightarrow> 'w scope \<Rightarrow> 'w scope" where
  "trackAlloc buf s =
     (let s1 = s\<lparr>sc_used := sc_used s + of_nat (sl_len buf)\<rparr>
      in if sc_poisonOnExit s1 then s1\<lparr>sc_allocs := sc_allocs s1 @ [buf]\<rparr> else s1)"

definition ScopeTryAlloc :: "os_env \<Rightarrow> 'w scope \<Rightarrow> arena \<Rightarrow> int \<Rightarrow> 'w scope \<times> arena \<times> slice option" where
  "ScopeTryAlloc os s a n =
     (if \<not> sc_active s \<or> n \<le> 0 then (s, a, None)
      else case TryAlloc os a n of
             (a', Some buf) \<Rightarrow> (trackAlloc buf s, a', Some buf)
           | (a', None) \<Rightarrow> (s, a', None))"

definition ScopeAllocOrErr :: "os_env \<Rightarrow> 'w scope \<Rightarrow> arena \<Rightarrow> int \<Rightarrow> 'w scope \<times> arena \<times> (arena_error + slice)" where
  "ScopeAllocOrErr os s a n =
     (if \<not> sc_active s then (s, a, Inl ErrScopeInactive)
      else if n \<le> 0 then (s, a, Inl ErrInvalidAllocSize)
      else case ScopeTryAlloc os s a n of
             (s', a', Some buf) \<Rightarrow> (s', a', Inr buf)
           | (s', a', None) \<Rightarrow> (s', a', Inl ErrArenaOutOfMemory))"

text \<open>On out-of-memory \<^verbatim>\<open>Scope.Alloc\<close> returns the nil slice.\<close>

definition ScopeAlloc :: "os_env \<Rightarrow> 'w scope \<Rightarrow> arena \<Rightarrow> int \<Rightarrow> 'w scope \<times> arena \<times> slice option go" where
  "ScopeAlloc os s a n =
     (if \<not> sc_active s then (s, a, Panic (PanicMsg ''scope is not active''))
      else if n \<le> 0 then (s, a, Panic (PanicMsg ''Alloc size must be > 0''))
      else case ScopeTryAlloc os s a n of (s', a', r) \<Rightarrow> (s', a', Return r))"

definition ScopeUsedBytes :: "'w scope \<Rightarrow> int" where
  "ScopeUsedBytes s = sint (sc_used s)"

section \<open>Exit\<close>

fun run_cleanups :: "'w cleanup list \<Rightarrow> 'w world \<Rightarrow> 'w world \<times> unit go" where
  "run_cleanups [] w = (w, Return ())"
| "run_cleanups (f # fs) w =
     (case f w of (w', Return _) \<Rightarrow> run_cleanups fs w' | (w', Panic p) \<Rightarrow> (w', Panic p))"

definition poison_slice :: "u8 \<Rightarrow> slice \<Rightarrow> arena \<Rightarrow> arena option" where
  "poison_slice pat b a =
     (let i = sl_chunk b; lo = sl_lo b; hi = sl_hi b
      in if i < length (ar_chunks a) \<and> hi \<le> chunk_len (ar_chunks a ! i)
         then let c = ar_chunks a ! i
              in Some (a\<lparr>ar_chunks := (ar_chunks a)[i := c\<lparr>ch_buf :=
                   take lo (ch_buf c) @ replicate (sl_len b) pat @ drop hi (ch_buf c)\<rparr>]\<rparr>)
         else if sl_len b = 0 then Some a else None)"

fun poison_all :: "u8 \<Rightarrow> slice list \<Rightarrow> arena \<Rightarrow> arena option" where
  "poison_all pat [] a = Some a"
| "poison_all pat (b # bs) a = (case poison_slice pat b a of None \<Rightarrow> None | Some a' \<Rightarrow> poison_all pat bs a')"

definition Exit :: "'w scope \<Rightarrow> 'w world \<Rightarrow> metrics \<Rightarrow> metrics \<times> 'w scope \<times> 'w world \<times> unit go" where
  "Exit s w m =
     (if \<not> sc_active s then (m, s, w, Panic (PanicMsg ''scope already exited''))
      else let s1 = s\<lparr>sc_active := False\<rparr>; m1 = RecordScopeExit m (sint (sc_used s))
      in case run_cleanups (rev (sc_cleanups s)) w of
           (w1, Panic p) \<Rightarrow> (m1, s1, w1, Panic p)
         | (w1, Return _) \<Rightarrow>
             (let s2 = s1\<lparr>sc_cleanups := []\<rparr>
              in if sc_poisonOnExit s2
                 then case poison_all (sc_poisonPattern s2) (sc_allocs s2) (fst w1) of
                        None \<Rightarrow> (m1, s2, w1, Panic MemoryFault)
                      | Some a \<Rightarrow> (m1, s2\<lparr>sc_allocs := []\<rparr>, (a, snd w1), Return ())
                 else (m1, s2, w1, Return ())))"

text \<open>\<^verbatim>\<open>WithScope\<close>: the body gets the scope and the world; whatever way it ends, the deferred function
  exits a scope that is still active. A panic of the exit replaces the result of the body.\<close>

definition WithScope ::
  "('w scope \<Rightarrow> 'w world \<Rightarrow> metrics \<Rightarrow> metrics \<times> 'w scope \<times> 'w world \<times> 'err option go) option \<Rightarrow> 'w world \<Rightarrow> metrics
   \<Rightarrow> metrics \<times> 'w scope option \<times> 'w world \<times> 'err option go" where
  "WithScope ofn w m =
     (case ofn of
        None \<Rightarrow> (m, None, w, Return None)
      | Some fn \<Rightarrow>
          (case EnterScope (fst w) m of (m1, s) \<Rightarrow>
            (case fn s w m1 of (m2, s1, w1, r) \<Rightarrow>
              (if sc_active s1
               then case Exit s1 w1 m2 of
                      (m3, s2, w2, Return _) \<Rightarrow> (m3, Some s2, w2, r)
                    | (m3, s2, w2, Panic p) \<Rightarrow> (m3, Some s2, w2, Panic p)
               else (m2, Some s1, w1, r)))))"

section \<open>Typed allocation\<close>

text \<open>Where a value lives: on the Go heap (\<^verbatim>\<open>new\<close>, \<^verbatim>\<open>make\<close>) or in arena memory.\<close>

datatype placed = GoHeap | InArena slice

definition alloc_tracked ::
  "os_env \<Rightarrow> 'w scope \<Rightarrow> arena \<Rightarrow> int \<Rightarrow> int \<Rightarrow> 'w scope \<times> arena \<times> slice go" where
  "alloc_tracked os s a sz align =
     (case AllocAligned os a sz align of
        (a', Panic p) \<Rightarrow> (s, a', Panic p)
      | (a', Return buf) \<Rightarrow> (trackAlloc buf s, a', Return buf))"

definition on_heap :: "gotype \<Rightarrow> bool" where
  "on_heap t \<longleftrightarrow> (reflect_TypeOf_zero t \<noteq> None \<and> HasPointersReflect (reflect_TypeOf_zero t)) \<or> sizeof t = 0"

definition AllocValue :: "os_env \<Rightarrow> 'w scope \<Rightarrow> arena \<Rightarrow> gotype \<Rightarrow> 'w scope \<times> arena \<times> placed go" where
  "AllocValue os s a t =
     (if \<not> sc_active s then (s, a, Panic (PanicMsg ''scope is not active''))
      else if on_heap t then (s, a, Return GoHeap)
      else case alloc_tracked os s a (int (sizeof t)) (int (alignof t)) of
             (s', a', Return buf) \<Rightarrow> (s', a', Return (InArena buf))
           | (s', a', Panic p) \<Rightarrow> (s', a', Panic p))"

text \<open>The run-time check of \<^verbatim>\<open>unsafe.Slice\<close>; \<open>p\<close> is the address.\<close>

definition unsafe_Slice :: "int \<Rightarrow> nat \<Rightarrow> int \<Rightarrow> unit go" where
  "unsafe_Slice p sz len =
     (if int sz * len > 2 ^ 64 - p then Panic (PanicMsg ''unsafe.Slice: len out of range'') else Return ())"

text \<open>The common tail of \<^verbatim>\<open>AllocSliceCap\<close> and \<^verbatim>\<open>AllocSliceAligned\<close>: \<^verbatim>\<open>size*capacity\<close> is an \<^verbatim>\<open>int\<close>
  product and wraps.\<close>

definition slice_in_arena ::
  "os_env \<Rightarrow> 'w scope \<Rightarrow> arena \<Rightarrow> gotype \<Rightarrow> int \<Rightarrow> int \<Rightarrow> int \<Rightarrow> 'w scope \<times> arena \<times> (placed \<times> int \<times> int) go" where
  "slice_in_arena os s a t len cap align =
     (case alloc_tracked os s a (go_int (int (sizeof t) * cap)) align of
        (s', a', Panic p) \<Rightarrow> (s', a', Panic p)
      | (s', a', Return buf) \<Rightarrow>
          (case unsafe_Slice (uint (ch_base (ar_chunks a' ! sl_chunk buf)) + int (sl_lo buf)) (sizeof t) cap of
             Panic p \<Rightarrow> (s', a', Panic p)
           | Return _ \<Rightarrow> (s', a', Return (InArena buf, len, cap))))"

definition AllocSliceCap ::
  "os_env \<Rightarrow> 'w scope \<Rightarrow> arena \<Rightarrow> gotype \<Rightarrow> int \<Rightarrow> int \<Rightarrow> 'w scope \<times> arena \<times> (placed \<times> int \<times> int) go" where
  "AllocSliceCap os s a t len cap =
     (if \<not> sc_active s then (s, a, Panic (PanicMsg ''scope is not active''))
      else if len < 0 \<or> cap < len then (s, a, Panic (PanicMsg ''invalid slice bounds''))
      else if on_heap t
      then (case makeslice (sizeof t) len cap of
              Panic p \<Rightarrow> (s, a, Panic p) | Return _ \<Rightarrow> (s, a, Return (GoHeap, len, cap)))
      else slice_in_arena os s a t len cap (int (alignof t)))"

definition AllocSlice :: "os_env \<Rightarrow> 'w scope \<Rightarrow> arena \<Rightarrow> gotype \<Rightarrow> int \<Rightarrow> 'w scope \<times> arena \<times> (placed \<times> int \<times> int) go" where
  "AllocSlice os s a t n = AllocSliceCap os s a t n n"

definition AllocAlignedValue :: "os_env \<Rightarrow> 'w scope \<Rightarrow> arena \<Rightarrow> gotype \<Rightarrow> int \<Rightarrow> 'w scope \<times> arena \<times> placed go" where
  "AllocAlignedValue os s a t align =
     (if \<not> sc_active s then (s, a, Panic (PanicMsg ''scope is not active''))
      else if on_heap t then (s, a, Return GoHeap)
      else if \<not> isPowerOfTwo align then (s, a, Panic (PanicMsg ''alignment must be power of 2''))
      else let align' = (if int (alignof t) > align then int (alignof t) else align)
      in case alloc_tracked os s a (int (sizeof t)) align' of
             (s', a', Return buf) \<Rightarrow> (s', a', Return (InArena buf))
           | (s', a', Panic p) \<Rightarrow> (s', a', Panic p))"

definition AllocSliceAligned ::
  "os_env \<Rightarrow> 'w scope \<Rightarrow> arena \<Rightarrow> gotype \<Rightarrow> int \<Rightarrow> int \<Rightarrow> int \<Rightarrow> 'w scope \<times> arena \<times> (placed \<times> int \<times> int) go" where
  "AllocSliceAligned os s a t len cap align =
     (if \<not> sc_active s then (s, a, Panic (PanicMsg ''scope is not active''))
      else if len < 0 \<or> cap < len then (s, a, Panic (PanicMsg ''invalid slice bounds''))
      else if on_heap t
      then (case makeslice (sizeof t) len cap of
              Panic p \<Rightarrow> (s, a, Panic p) | Return _ \<Rightarrow> (s, a, Return (GoHeap, len, cap)))
      else if \<not> isPowerOfTwo align then (s, a, Panic (PanicMsg ''alignment must be power of 2''))
      else slice_in_arena os s a t len cap (if int (alignof t) > align then int (alignof t) else align))"

definition AllocCacheAligned :: "os_env \<Rightarrow> 'w scope \<Rightarrow> arena \<Rightarrow> gotype \<Rightarrow> 'w scope \<times> arena \<times> placed go" where
  "AllocCacheAligned os s a t = AllocAlignedValue os s a t 64"

definition AllocSliceCacheAligned ::
  "os_env \<Rightarrow> 'w scope \<Rightarrow> arena \<Rightarrow> gotype \<Rightarrow> int \<Rightarrow> int \<Rightarrow> 'w scope \<times> arena \<times> (placed \<times> int \<times> int) go" where
  "AllocSliceCacheAligned os s a t len cap = AllocSliceAligned os s a t len cap 64"

section \<open>Region\<close>

record 'w go_region =
  rg_arena :: "arena option"
  rg_scope :: "'w scope option"

definition NewRegion :: "os_env \<Rightarrow> int \<Rightarrow> metrics \<Rightarrow> metrics \<times> 'w go_region go" where
  "NewRegion os sz m =
     (case NewArena os sz [] m of
        (m1, Panic p) \<Rightarrow> (m1, Panic p)
      | (m1, Return a) \<Rightarrow>
          (case EnterScope a m1 of (m2, s) \<Rightarrow> (m2, Return \<lparr>rg_arena = Some a, rg_scope = Some s\<rparr>)))"

text \<open>\<^verbatim>\<open>if r.scope != nil && r.scope.Active() { r.scope.Exit() }\<close>\<close>

definition exit_if_active :: "'w scope option \<Rightarrow> 'w world \<Rightarrow> metrics \<Rightarrow> metrics \<times> 'w scope option \<times> 'w world \<times> unit go" where
  "exit_if_active os w m =
     (case os of
        Some s \<Rightarrow> if sc_active s then (case Exit s w m of (m', s', w', r) \<Rightarrow> (m', Some s', w', r)) else (m, os, w, Return ())
      | None \<Rightarrow> (m, None, w, Return ()))"

definition RegionReset :: "'w go_region \<Rightarrow> 'w \<Rightarrow> metrics \<Rightarrow> metrics \<times> 'w go_region \<times> 'w \<times> unit go" where
  "RegionReset r w m =
     (case rg_arena r of
        None \<Rightarrow> (m, r, w, Return ())
      | Some a \<Rightarrow>
          (case exit_if_active (rg_scope r) (a, w) m of
             (m1, s, (a1, w1), Panic p) \<Rightarrow> (m1, r\<lparr>rg_arena := Some a1, rg_scope := s\<rparr>, w1, Panic p)
           | (m1, s, (a1, w1), Return _) \<Rightarrow>
               (let a2 = Reset a1
                in case EnterScope a2 m1 of
                     (m2, s2) \<Rightarrow> (m2, r\<lparr>rg_arena := Some a2, rg_scope := Some s2\<rparr>, w1, Return ()))))"

definition RegionDone ::
  "os_env \<Rightarrow> 'w go_region \<Rightarrow> 'w \<Rightarrow> metrics \<Rightarrow> metrics \<times> 'w go_region \<times> 'w \<times> nat option go" where
  "RegionDone os r w m =
     (case rg_arena r of
        None \<Rightarrow> (m, r\<lparr>rg_scope := None\<rparr>, w, Return None)
      | Some a \<Rightarrow>
          (case exit_if_active (rg_scope r) (a, w) m of
             (m1, s, (a1, w1), Panic p) \<Rightarrow> (m1, r\<lparr>rg_arena := Some a1, rg_scope := s\<rparr>, w1, Panic p)
           | (m1, s, (a1, w1), Return _) \<Rightarrow>
               (case Close os a1 m1 of
                  (m2, a2, e) \<Rightarrow> (m2, r\<lparr>rg_arena := None, rg_scope := None\<rparr>, w1, Return e))))"

section \<open>Scope allocation is arena allocation\<close>

lemma TryAlloc_aligned_1:
  "arena_inv a \<Longrightarrow> n < 2 ^ 63 \<Longrightarrow> TryAlloc os a n = TryAllocAligned os a n 1"
proof (cases "0 < n")
  case True
  moreover assume "arena_inv a" "n < 2 ^ 63"
  ultimately show ?thesis by (simp add: TryAlloc_alloc TryAllocAligned_alloc valid_req_1)
qed (simp add: TryAlloc_def TryAllocAligned_def)

fun scope_run :: "(os_env \<times> int) list \<Rightarrow> 'w scope \<Rightarrow> arena \<Rightarrow> 'w scope \<times> arena \<times> slice list" where
  "scope_run [] s a = (s, a, [])"
| "scope_run ((os, n) # rs) s a =
     (case ScopeTryAlloc os s a n of (s1, a1, r) \<Rightarrow>
        (case scope_run rs s1 a1 of (s2, a2, sls) \<Rightarrow>
           (s2, a2, (case r of None \<Rightarrow> sls | Some b \<Rightarrow> b # sls))))"

abbreviation byte_reqs :: "(os_env \<times> int) list \<Rightarrow> (os_env \<times> int \<times> int) list" where
  "byte_reqs rs \<equiv> map (\<lambda>(os, n). (os, n, 1)) rs"

definition track_all :: "slice list \<Rightarrow> 'w scope \<Rightarrow> 'w scope" where
  "track_all sls s = fold trackAlloc sls s"

lemma trackAlloc_simps [simp]:
  "sc_active (trackAlloc b s) = sc_active s" "sc_poisonOnExit (trackAlloc b s) = sc_poisonOnExit s"
  "sc_cleanups (trackAlloc b s) = sc_cleanups s" "sc_poisonPattern (trackAlloc b s) = sc_poisonPattern s"
  "sc_used (trackAlloc b s) = sc_used s + of_nat (sl_len b)"
  "sc_allocs (trackAlloc b s) = sc_allocs s @ (if sc_poisonOnExit s then [b] else [])"
  by (simp_all add: trackAlloc_def Let_def)

lemma track_all_simps [simp]:
  "sc_active (track_all bs s) = sc_active s" "sc_poisonOnExit (track_all bs s) = sc_poisonOnExit s"
  "sc_cleanups (track_all bs s) = sc_cleanups s" "sc_poisonPattern (track_all bs s) = sc_poisonPattern s"
  "sc_used (track_all bs s) = sc_used s + of_nat (sum_list (map sl_len bs))"
  "sc_allocs (track_all bs s) = sc_allocs s @ (if sc_poisonOnExit s then bs else [])"
  unfolding track_all_def by (induction bs arbitrary: s) auto

lemma scope_run_eq:
  assumes "sc_active s" "arena_inv a" "run_ok arena_req_ok TryAllocAligned (byte_reqs rs) a"
    and "alloc_run TryAllocAligned (byte_reqs rs) a = (b, sls)"
  shows "scope_run rs s a = (track_all sls s, b, sls)"
  using assms
proof (induction rs arbitrary: s a sls)
  case (Cons r rs)
  obtain os n where r: "r = (os, n)" by (cases r)
  obtain t o1 where t: "TryAllocAligned os a n 1 = (t, o1)" by force
  obtain sls1 where run: "alloc_run TryAllocAligned (byte_reqs rs) t = (b, sls1)"
    and sls: "sls = (case o1 of None \<Rightarrow> sls1 | Some x \<Rightarrow> x # sls1)"
    using Cons.prems(4) by (auto simp: r t split: prod.splits)
  have ok: "arena_req_ok os a n 1" "run_ok arena_req_ok TryAllocAligned (byte_reqs rs) t"
    using Cons.prems(3) by (auto simp: r t)
  have inv_t: "arena_inv t" using arena_bump.alloc_inv [OF Cons.prems(2) ok(1)] by (simp add: t)
  have ta: "TryAlloc os a n = (t, o1)"
    using ok(1) Cons.prems(2) t by (subst TryAlloc_aligned_1) (auto simp: arena_req_ok_def in_int64_def)
  have neg: "n \<le> 0 \<Longrightarrow> t = a \<and> o1 = None" using t by (auto simp: TryAllocAligned_def)
  show ?case
  proof (cases o1)
    case None
    then have "ScopeTryAlloc os s a n = (s, t, None)" using ta neg Cons.prems(1) by (auto simp: ScopeTryAlloc_def)
    then show ?thesis using Cons.IH [OF Cons.prems(1) inv_t ok(2) run] None sls by (simp add: r)
  next
    case (Some x)
    then have "ScopeTryAlloc os s a n = (trackAlloc x s, t, Some x)" using ta neg Cons.prems(1) by (auto simp: ScopeTryAlloc_def)
    then show ?thesis
      using Cons.IH [OF _ inv_t ok(2) run, of "trackAlloc x s"] Cons.prems(1) Some sls by (simp add: r track_all_def)
  qed
qed (simp add: track_all_def)

section \<open>Poisoning\<close>

definition arena_byte :: "arena \<Rightarrow> nat \<times> nat \<Rightarrow> u8" where
  "arena_byte a p = ch_buf (ar_chunks a ! fst p) ! snd p"

definition in_bounds :: "arena \<Rightarrow> slice \<Rightarrow> bool" where
  "in_bounds a b \<longleftrightarrow> sl_chunk b < length (ar_chunks a) \<and> sl_hi b \<le> chunk_len (ar_chunks a ! sl_chunk b)"

text \<open>The arena's memory aside, nothing changes.\<close>

definition same_layout :: "arena \<Rightarrow> arena \<Rightarrow> bool" where
  "same_layout a b \<longleftrightarrow> length (ar_chunks b) = length (ar_chunks a) \<and>
     (\<forall>i < length (ar_chunks a). chunk_len (ar_chunks b ! i) = chunk_len (ar_chunks a ! i) \<and>
        ch_off (ar_chunks b ! i) = ch_off (ar_chunks a ! i) \<and> ch_base (ar_chunks b ! i) = ch_base (ar_chunks a ! i)) \<and>
     ar_active b = ar_active a"

lemma poison_slice_ok:
  assumes "in_bounds a b"
  shows "\<exists>a'. poison_slice pat b a = Some a' \<and> same_layout a a' \<and>
    (\<forall>i j. i < length (ar_chunks a) \<longrightarrow> j < chunk_len (ar_chunks a ! i) \<longrightarrow>
       arena_byte a' (i, j) = (if (i, j) \<in> region b then pat else arena_byte a (i, j)))"
proof -
  let ?c = "ar_chunks a ! sl_chunk b" and ?lo = "sl_lo b" and ?hi = "sl_hi b"
  let ?buf = "take ?lo (ch_buf ?c) @ replicate (sl_len b) pat @ drop ?hi (ch_buf ?c)"
  let ?a' = "a\<lparr>ar_chunks := (ar_chunks a)[sl_chunk b := ?c\<lparr>ch_buf := ?buf\<rparr>]\<rparr>"
  have B: "sl_chunk b < length (ar_chunks a)" "?lo + sl_len b \<le> chunk_len ?c" "?hi = ?lo + sl_len b"
    using assms by (auto simp: in_bounds_def sl_hi_def)
  have len: "length ?buf = chunk_len ?c" using B by simp
  have nth: "?buf ! j = (if ?lo \<le> j \<and> j < ?hi then pat else ch_buf ?c ! j)" if "j < chunk_len ?c" for j
    using that B by (auto simp: nth_append)
  have "poison_slice pat b a = Some ?a'"
    using assms by (simp add: poison_slice_def in_bounds_def Let_def)
  moreover have "same_layout a ?a'" using B(1) len by (auto simp: same_layout_def nth_list_update)
  moreover have "arena_byte ?a' (i, j) = (if (i, j) \<in> region b then pat else arena_byte a (i, j))"
    if "i < length (ar_chunks a)" "j < chunk_len (ar_chunks a ! i)" for i j
  proof (cases "i = sl_chunk b")
    case True
    with nth [of j] that B show ?thesis by (simp add: arena_byte_def mem_region_iff)
  next
    case False
    then show ?thesis by (simp add: arena_byte_def mem_region_iff)
  qed
  ultimately show ?thesis by blast
qed

lemma same_layout_trans: "same_layout a b \<Longrightarrow> same_layout b c \<Longrightarrow> same_layout a c"
  by (auto simp: same_layout_def)

lemma poison_all_ok:
  assumes "\<forall>b \<in> set bs. in_bounds a b"
  shows "\<exists>a'. poison_all pat bs a = Some a' \<and> same_layout a a' \<and>
    (\<forall>i j. i < length (ar_chunks a) \<longrightarrow> j < chunk_len (ar_chunks a ! i) \<longrightarrow>
       arena_byte a' (i, j) = (if \<exists>b \<in> set bs. (i, j) \<in> region b then pat else arena_byte a (i, j)))"
  using assms
proof (induction bs arbitrary: a)
  case Nil
  then show ?case by (simp add: same_layout_def)
next
  case (Cons b bs)
  obtain a1 where a1: "poison_slice pat b a = Some a1" "same_layout a a1"
    "\<And>i j. i < length (ar_chunks a) \<Longrightarrow> j < chunk_len (ar_chunks a ! i) \<Longrightarrow>
       arena_byte a1 (i, j) = (if (i, j) \<in> region b then pat else arena_byte a (i, j))"
    using poison_slice_ok [of a b pat] Cons.prems by auto
  have "\<forall>b \<in> set bs. in_bounds a1 b" using Cons.prems a1(2) by (auto simp: in_bounds_def same_layout_def)
  from Cons.IH [OF this] obtain a2 where a2: "poison_all pat bs a1 = Some a2" "same_layout a1 a2"
    "\<And>i j. i < length (ar_chunks a1) \<Longrightarrow> j < chunk_len (ar_chunks a1 ! i) \<Longrightarrow>
       arena_byte a2 (i, j) = (if \<exists>b \<in> set bs. (i, j) \<in> region b then pat else arena_byte a1 (i, j))"
    by blast
  have "arena_byte a2 (i, j) = (if \<exists>b \<in> set (b # bs). (i, j) \<in> region b then pat else arena_byte a (i, j))"
    if "i < length (ar_chunks a)" "j < chunk_len (ar_chunks a ! i)" for i j
    using a1(2) a1(3) [of i j] a2(3) [of i j] that by (auto simp: same_layout_def)
  then show ?case using a1 a2 same_layout_trans [OF a1(2) a2(2)] by simp
qed

section \<open>Typed allocation\<close>

lemma foldr_max_align:
  assumes "\<forall>f \<in> set fs. alignof f \<in> {1, 2, 4, 8}"
  shows "foldr (\<lambda>f m. max (alignof f) m) fs 1 \<in> {1, 2, 4, 8}"
  using assms by (induction fs) (auto simp: max_def)

lemma alignof_wf: "wf_type t \<Longrightarrow> alignof t \<in> {1, 2, 4, 8}"
proof (induction t rule: wf_type.induct)
  case (5 fs)
  then have "\<forall>f \<in> set fs. alignof f \<in> {1, 2, 4, 8}" by (simp add: list_all_iff)
  then show ?case unfolding alignof.simps by (rule foldr_max_align)
qed auto

lemma AllocAligned_Return:
  assumes "AllocAligned os a n align = (b, Return s)"
  shows "TryAllocAligned os a n align = (b, Some s)" "0 < n" "isPowerOfTwo align"
  using assms by (auto simp: AllocAligned_def panic_on_err_def AllocAlignedOrErr_def split: if_splits option.splits prod.splits sum.splits)

lemma alloc_tracked_Return:
  assumes "alloc_tracked os s a n align = (s', b, Return buf)" "arena_inv a" "os_ok os (ar_chunks a)" "in_int64 n" "in_int64 align"
  shows "0 < n" "int (sl_len buf) = n" "nat align dvd byte_addr b (sl_chunk buf, sl_lo buf)"
    "region buf \<inter> live_bytes a = {}" "region buf \<subseteq> live_bytes b" "s' = trackAlloc buf s"
proof -
  have al: "AllocAligned os a n align = (b, Return buf)" "s' = trackAlloc buf s"
    using assms(1) by (auto simp: alloc_tracked_def split: prod.splits go.splits)
  note R = AllocAligned_Return [OF al(1)]
  have "alloc_outcome a n align (b, Some buf)"
    using TryAllocAligned_ok [OF assms(2), of os n align] assms(3-5) R(1) by (simp add: arena_req_ok_def)
  with R(2) al(2) show "0 < n" "int (sl_len buf) = n" "nat align dvd byte_addr b (sl_chunk buf, sl_lo buf)"
    "region buf \<inter> live_bytes a = {}" "region buf \<subseteq> live_bytes b" "s' = trackAlloc buf s"
    by (auto simp: alloc_outcome_def got_slice_def)
qed

lemma on_heap_pointers: "\<not> on_heap t \<Longrightarrow> t \<noteq> TInterface \<Longrightarrow> pointer_words t = []"
  using pointer_words_HasPointers [of t]
  by (auto simp: on_heap_def reflect_TypeOf_zero_def HasPointersReflect_def)

lemma slice_in_arena_Return:
  assumes "slice_in_arena os s a t len cap align = (s', b, Return (InArena buf, l, c))"
    "arena_inv a" "os_ok os (ar_chunks a)" "0 \<le> cap" "in_int64 align"
  shows "l = len" "c = cap" "int (sl_len buf) = int (sizeof t) * cap"
    "nat align dvd byte_addr b (sl_chunk buf, sl_lo buf)" "region buf \<inter> live_bytes a = {}" "region buf \<subseteq> live_bytes b"
proof -
  let ?x = "int (sizeof t) * cap"
  have al: "alloc_tracked os s a (go_int ?x) align = (s', b, Return buf)" and lc: "l = len" "c = cap"
    and us: "?x \<le> 2 ^ 64 - (uint (ch_base (ar_chunks b ! sl_chunk buf)) + int (sl_lo buf))"
    using assms(1) by (auto simp: slice_in_arena_def unsafe_Slice_def split: prod.splits go.splits if_splits)
  note A = alloc_tracked_Return [OF al assms(2,3) in_int64_go_int assms(5)]
  have "0 \<le> ?x" using assms(4) by simp
  moreover have "?x < 2 ^ 63"
  proof (rule ccontr)
    assume "\<not> ?thesis"
    then consider "2 ^ 63 \<le> ?x" "?x < 2 ^ 64" | "?x = 2 ^ 64"
      using us uint_ge_0 [of "ch_base (ar_chunks b ! sl_chunk buf)"] by linarith
    then show False
    proof cases
      case 1
      then have "go_int ?x = ?x - 2 ^ 64" by (rule go_int_wrap)
      with 1 A(1) show ?thesis by linarith
    next
      case 2
      then have "go_int ?x = 0" by (simp only: go_int_mod) simp
      with A(1) show ?thesis by simp
    qed
  qed
  ultimately have "go_int ?x = ?x" by (intro go_int_nonneg)
  with A lc show "l = len" "c = cap" "int (sl_len buf) = int (sizeof t) * cap"
    "nat align dvd byte_addr b (sl_chunk buf, sl_lo buf)" "region buf \<inter> live_bytes a = {}" "region buf \<subseteq> live_bytes b"
    by auto
qed

end
