(* ===== verification/Scope_Spec.thy ===== *)
theory Scope_Spec
  imports Scope Arena_Spec
begin

text \<open>
  The properties of scopes: cleanup order, poisoning after any run of allocations, exact typed
  allocation, and which data stays out of the arena.
\<close>

section \<open>Exit\<close>

lemma run_cleanups_pure:
  "run_cleanups (map (\<lambda>g w. (g w, Return ())) gs) w = (fold (\<lambda>g. g) gs w, Return ())"
  by (induction gs arbitrary: w) auto

lemma run_cleanups_append_panic:
  "run_cleanups (map (\<lambda>g w. (g w, Return ())) gs @ f # fs) w =
     (case f (fold (\<lambda>g. g) gs w) of (w', Return _) \<Rightarrow> run_cleanups fs w' | (w', Panic p) \<Rightarrow> (w', Panic p))"
  by (induction gs arbitrary: w) auto

text \<open>\<^verbatim>\<open>Exit\<close> runs every registered cleanup exactly once, the last registered first, and
  leaves an inactive scope on which a second \<^verbatim>\<open>Exit\<close> panics and runs nothing; when a cleanup panics,
  those registered before it are not run and the panic is passed on.\<close>

lemma Exit_LIFO:
  assumes "sc_active s"
  shows "(\<not> sc_poisonOnExit s \<longrightarrow> sc_cleanups s = map (\<lambda>g w. (g w, Return ())) gs \<longrightarrow>
     (\<exists>m' s'. Exit s w m = (m', s', fold (\<lambda>g. g) (rev gs) w, Return ()) \<and> \<not> sc_active s' \<and> sc_cleanups s' = [] \<and>
        (\<forall>w2 m2. Exit s' w2 m2 = (m2, s', w2, Panic (PanicMsg ''scope already exited''))))) \<and>
   (sc_cleanups s = before @ [f] @ map (\<lambda>g w. (g w, Return ())) gs \<longrightarrow>
    f (fold (\<lambda>g. g) (rev gs) w) = (w', Panic p) \<longrightarrow>
     (\<exists>m' s'. Exit s w m = (m', s', w', Panic p) \<and> \<not> sc_active s'))"
proof (intro conjI impI)
  assume "\<not> sc_poisonOnExit s" "sc_cleanups s = map (\<lambda>g w. (g w, Return ())) gs"
  with assms show "\<exists>m' s'. Exit s w m = (m', s', fold (\<lambda>g. g) (rev gs) w, Return ()) \<and> \<not> sc_active s' \<and>
     sc_cleanups s' = [] \<and> (\<forall>w2 m2. Exit s' w2 m2 = (m2, s', w2, Panic (PanicMsg ''scope already exited'')))"
    by (auto simp: Exit_def Let_def rev_map run_cleanups_pure)
next
  assume "sc_cleanups s = before @ [f] @ map (\<lambda>g w. (g w, Return ())) gs" "f (fold (\<lambda>g. g) (rev gs) w) = (w', Panic p)"
  with assms show "\<exists>m' s'. Exit s w m = (m', s', w', Panic p) \<and> \<not> sc_active s'"
    by (auto simp: Exit_def Let_def rev_map run_cleanups_append_panic)
qed

text \<open>Two cleanups that log their number.\<close>

definition log_cleanup :: "nat \<Rightarrow> nat list world \<Rightarrow> nat list world" where
  "log_cleanup k w = (fst w, snd w @ [k])"

definition demo_scope :: "nat list scope" where
  "demo_scope = OnExit (\<lambda>w. (log_cleanup 2 w, Return ())) (OnExit (\<lambda>w. (log_cleanup 1 w, Return ()))
     (snd (EnterScope demo_arena metrics0)))"

lemma Exit_LIFO_witness:
  "\<exists>m' s'. Exit demo_scope (demo_arena, []) metrics0 = (m', s', (demo_arena, [2, 1]), Return ())"
proof -
  have s: "sc_active demo_scope" "\<not> sc_poisonOnExit demo_scope"
    "sc_cleanups demo_scope = map (\<lambda>g w. (g w, Return ())) [log_cleanup 1, log_cleanup 2]"
    by (simp_all add: demo_scope_def OnExit_def EnterScope_def demo_arena_def)
  show ?thesis
    using Exit_LIFO [OF s(1), of "[log_cleanup 1, log_cleanup 2]" "(demo_arena, [])" metrics0] s
    by (fastforce simp: log_cleanup_def)
qed

section \<open>Poisoning\<close>

lemma ext_byte: "arena_ext a b \<Longrightarrow> p \<in> live_bytes a \<Longrightarrow> arena_byte b p = arena_byte a p"
  by (auto simp: arena_ext_def arena_byte_def live_bytes_def)

lemma live_in_bounds:
  assumes "arena_inv b" "region x \<subseteq> live_bytes b" "0 < sl_len x"
  shows "in_bounds b x"
proof -
  have "(sl_chunk x, sl_hi x - 1) \<in> region x" using assms(3) by (simp add: mem_region_iff sl_hi_def)
  then have "(sl_chunk x, sl_hi x - 1) \<in> live_bytes b" using assms(2) by blast
  with assms(1) arena_inv_chunk [of b "sl_chunk x"] show ?thesis
    by (auto simp: live_bytes_def in_bounds_def chunk_ok_def)
qed

text \<open>C11. In a scope of an arena that poisons on exit, every byte handed out by any run of
  allocations reads as the poison pattern after \<^verbatim>\<open>Exit\<close>, every byte that was in use before the scope
  keeps its value, and \<^verbatim>\<open>UsedBytes\<close> of the scope was exactly the sum of the lengths handed out.\<close>

theorem Scope_poison:
  assumes "arena_inv a" "ar_poisonOnExit a" "EnterScope a m0 = (m1, s0)"
    "run_ok arena_req_ok TryAllocAligned (byte_reqs rs) a" "scope_run rs s0 a = (s1, b, sls)"
  shows "ScopeUsedBytes s1 = int (sum_list (map sl_len sls)) \<and>
    (\<exists>m' s2 c. Exit s1 (b, w) m = (m', s2, (c, w), Return ()) \<and> \<not> sc_active s2 \<and> live_bytes c = live_bytes b \<and>
      (\<forall>x \<in> set sls. \<forall>p \<in> region x. arena_byte c p = ar_poisonPattern a) \<and>
      (\<forall>p \<in> live_bytes a. arena_byte c p = arena_byte a p))"
proof -
  have s0: "sc_active s0" "sc_poisonOnExit s0" "sc_cleanups s0 = []" "sc_allocs s0 = []" "sc_used s0 = 0"
    "sc_poisonPattern s0 = ar_poisonPattern a"
    using assms(2,3) by (auto simp: EnterScope_def)
  obtain b' sls' where run: "alloc_run TryAllocAligned (byte_reqs rs) a = (b', sls')" by force
  with scope_run_eq [OF s0(1) assms(1,4) run] assms(5)
  have s1: "s1 = track_all sls s0" and run: "alloc_run TryAllocAligned (byte_reqs rs) a = (b, sls)" by auto
  have R: "arena_inv b" "arena_ext a b"
    using arena_bump.run_inv [OF assms(1,4)] marks.run_ext [OF assms(1,4)] run by auto
  note F = arena_bump.run_fresh [OF assms(1,4) run]
  have "sum_list (map sl_len sls) \<le> card (live_bytes b)"
    using arena_bump.run_total [OF assms(1,4) run] by simp
  then have sm: "sum_list (map sl_len sls) \<le> 2 ^ 47"
    using card_live_bytes_le [OF R(1)] Capacity_eq(2) [OF R(1)] by linarith
  then have u: "ScopeUsedBytes s1 = int (sum_list (map sl_len sls))"
    by (simp only: s1 ScopeUsedBytes_def track_all_simps s0 add_0_left) (simp add: sint_small unat_word_of_nat)
  have ib: "in_bounds b x \<or> sl_len x = 0" if "x \<in> set sls" for x
    using live_in_bounds [OF R(1)] F [OF that] by auto
  have pos: "0 < sl_len x" if "x \<in> set sls" for x
    using run_pos [OF assms(1,4) run that] .
  have "\<forall>x \<in> set sls. in_bounds b x" using ib pos by fastforce
  from poison_all_ok [OF this, of "ar_poisonPattern a"] obtain c where
    c: "poison_all (ar_poisonPattern a) sls b = Some c" "same_layout b c"
    "\<And>i j. i < length (ar_chunks b) \<Longrightarrow> j < chunk_len (ar_chunks b ! i) \<Longrightarrow>
       arena_byte c (i, j) = (if \<exists>x \<in> set sls. (i, j) \<in> region x then ar_poisonPattern a else arena_byte b (i, j))"
    by blast
  have byte: "arena_byte c p = (if \<exists>x \<in> set sls. p \<in> region x then ar_poisonPattern a else arena_byte b p)"
    if "p \<in> live_bytes b" for p
    using that c(3) [of "fst p" "snd p"] arena_inv_chunk [OF R(1), of "fst p"]
    by (auto simp: live_bytes_def chunk_ok_def)
  have "live_bytes c = live_bytes b" using c(2) by (auto simp: same_layout_def live_bytes_def)
  moreover have "\<forall>x \<in> set sls. \<forall>p \<in> region x. arena_byte c p = ar_poisonPattern a"
    using byte F by (metis subsetD)
  moreover have "arena_byte c p = arena_byte a p" if p: "p \<in> live_bytes a" for p
  proof -
    have "p \<in> live_bytes b" using arena_ext_live [OF R(2)] p by blast
    moreover have "\<not> (\<exists>x \<in> set sls. p \<in> region x)" using F p by blast
    ultimately show ?thesis using byte ext_byte [OF R(2) p] by simp
  qed
  moreover have "\<exists>m' s2. Exit s1 (b, w) m = (m', s2, (c, w), Return ()) \<and> \<not> sc_active s2"
    using s0 c(1) by (simp add: Exit_def Let_def s1)
  ultimately show ?thesis using u by blast
qed

definition poison_arena :: arena where
  "poison_arena = demo_arena\<lparr>ar_poisonOnExit := True, ar_poisonPattern := 0xDD\<rparr>"

lemma poison_arena_inv: "arena_inv poison_arena"
  by (simp add: poison_arena_def demo_arena_def arena_inv_def chunk_ok_def)

definition poison_scope :: "unit scope" where
  "poison_scope = snd (EnterScope poison_arena metrics0)"

lemma Scope_poison_witness:
  "\<exists>m' s2 c. Exit (fst (scope_run [(demo_os 131072, 10)] poison_scope poison_arena))
     (fst (snd (scope_run [(demo_os 131072, 10)] poison_scope poison_arena)), ()) metrics0 =
     (m', s2, (c, ()), Return ()) \<and> arena_byte c (0, 9) = 0xDD"
proof -
  have ok: "run_ok arena_req_ok TryAllocAligned (byte_reqs [(demo_os 131072, 10)]) poison_arena"
    by (auto simp: arena_req_ok_def in_int64_def poison_arena_def demo_arena_def intro!: demo_os_ok)
  have "snd (snd (scope_run [(demo_os 131072, 10)] poison_scope poison_arena)) = [Slice 0 0 10 16]"
    by code_simp
  then have run: "scope_run [(demo_os 131072, 10)] poison_scope poison_arena =
    (fst (scope_run [(demo_os 131072, 10)] poison_scope poison_arena),
     fst (snd (scope_run [(demo_os 131072, 10)] poison_scope poison_arena)), [Slice 0 0 10 16])"
    (is "?l = (?s, ?b, _)")
    by (metis prod.collapse)
  have e: "EnterScope poison_arena metrics0 = (fst (EnterScope poison_arena metrics0 :: metrics \<times> unit scope), poison_scope)"
    by (simp add: poison_scope_def)
  have p: "ar_poisonOnExit poison_arena" "ar_poisonPattern poison_arena = 0xDD" by (simp_all add: poison_arena_def)
  from Scope_poison [OF poison_arena_inv p(1) e ok run, of "()" metrics0] obtain m' s2 c where
    "Exit ?s (?b, ()) metrics0 = (m', s2, (c, ()), Return ())" "\<forall>q \<in> region (Slice 0 0 10 16). arena_byte c q = 0xDD"
    by (auto simp: p)
  then show ?thesis by (auto simp: region_def sl_hi_def)
qed

section \<open>Typed allocation\<close>

text \<open>C12. \<^verbatim>\<open>AllocSliceCap\<close> with any length and capacity either panics or returns a slice whose
  element memory is real: in arena memory it holds exactly \<^verbatim>\<open>size*capacity\<close> fresh bytes, aligned for
  the type, although the source multiplies two \<^verbatim>\<open>int\<close>s that may overflow.\<close>

theorem AllocSliceCap_exact:
  assumes "arena_inv a" "os_ok os (ar_chunks a)" "wf_type t"
    "AllocSliceCap os s a t len cap = (s', b, Return (p, l, c))"
  shows "l = len \<and> c = cap \<and> 0 \<le> len \<and> len \<le> cap \<and>
    (case p of GoHeap \<Rightarrow> b = a \<and> int (sizeof t) * cap \<le> maxAlloc
     | InArena buf \<Rightarrow> int (sl_len buf) = int (sizeof t) * cap \<and> alignof t dvd byte_addr b (sl_chunk buf, sl_lo buf) \<and>
         region buf \<inter> live_bytes a = {} \<and> region buf \<subseteq> live_bytes b)"
proof -
  have g: "0 \<le> len" "len \<le> cap" using assms(4) by (auto simp: AllocSliceCap_def split: if_splits)
  show ?thesis
  proof (cases "on_heap t")
    case True
    with assms(4) show ?thesis
      by (auto simp: AllocSliceCap_def makeslice_def split: if_splits go.splits)
  next
    case False
    then have sl: "slice_in_arena os s a t len cap (int (alignof t)) = (s', b, Return (p, l, c))"
      using assms(4) by (auto simp: AllocSliceCap_def split: if_splits)
    then obtain buf where p: "p = InArena buf" by (auto simp: slice_in_arena_def split: prod.splits go.splits)
    have "in_int64 (int (alignof t))" using alignof_wf [OF assms(3)] by (auto simp: in_int64_def)
    from slice_in_arena_Return [OF sl [unfolded p] assms(1,2) _ this] g show ?thesis by (simp add: p)
  qed
qed

lemma AllocSliceCap_exact_witness:
  "alignof (TUint 32) dvd byte_addr (fst (snd (AllocSliceCap (demo_os 131072) demo_scope demo_arena (TUint 32) 2 3))) (0, 0)"
proof -
  have o: "os_ok (demo_os 131072) (ar_chunks demo_arena)" using demo_req by (simp add: arena_req_ok_def)
  have "snd (snd (AllocSliceCap (demo_os 131072) demo_scope demo_arena (TUint 32) 2 3)) = Return (InArena (Slice 0 0 12 16), 2, 3)"
    by code_simp
  then have e: "AllocSliceCap (demo_os 131072) demo_scope demo_arena (TUint 32) 2 3 =
    (fst (AllocSliceCap (demo_os 131072) demo_scope demo_arena (TUint 32) 2 3),
     fst (snd (AllocSliceCap (demo_os 131072) demo_scope demo_arena (TUint 32) 2 3)), Return (InArena (Slice 0 0 12 16), 2, 3))"
    by (metis prod.collapse)
  have w: "wf_type (TUint 32)" by simp
  from AllocSliceCap_exact [OF demo_arena_inv o w e] show ?thesis by (simp only: placed.case slice.sel)
qed

text \<open>Which of the typed allocators put a value of a type into arena memory.\<close>

definition put_in_arena :: "os_env \<Rightarrow> 'w scope \<Rightarrow> arena \<Rightarrow> gotype \<Rightarrow> bool" where
  "put_in_arena os s a t \<longleftrightarrow>
     (\<exists>s' b buf. AllocValue os s a t = (s', b, Return (InArena buf)) \<or>
        (\<exists>align. AllocAlignedValue os s a t align = (s', b, Return (InArena buf))) \<or>
        (\<exists>len cap l c. AllocSliceCap os s a t len cap = (s', b, Return (InArena buf, l, c))) \<or>
        (\<exists>len cap align l c. AllocSliceAligned os s a t len cap align = (s', b, Return (InArena buf, l, c))))"

lemma put_in_arena_on_heap: "put_in_arena os s a t \<Longrightarrow> \<not> on_heap t"
  by (auto simp: put_in_arena_def AllocValue_def AllocAlignedValue_def AllocSliceCap_def AllocSliceAligned_def
      split: if_splits go.splits)

text \<open>C13. No typed allocator puts a word that the garbage collector must see into arena memory,
  whatever structs and arrays the type is built from, unless the type is itself an interface type.\<close>

theorem typed_alloc_gc_safe:
  assumes "put_in_arena os s a t" "t \<noteq> TInterface"
  shows "pointer_words t = []"
  using on_heap_pointers put_in_arena_on_heap assms by blast

lemma typed_alloc_gc_safe_witness: "pointer_words (TStruct [TBool, TUint 32]) = []"
proof -
  have "snd (snd (AllocValue (demo_os 131072) demo_scope demo_arena (TStruct [TBool, TUint 32]))) = Return (InArena (Slice 0 0 8 16))"
    by code_simp
  then have "put_in_arena (demo_os 131072) demo_scope demo_arena (TStruct [TBool, TUint 32])"
    unfolding put_in_arena_def by (metis prod.collapse)
  then show ?thesis by (rule typed_alloc_gc_safe) simp
qed

text \<open>The exception is real: \<^verbatim>\<open>reflect.TypeOf\<close> of a nil interface value is nil, the pointer test is
  skipped, and the two pointer words of an interface end up in memory the collector does not scan.\<close>

lemma AllocValue_interface_off_heap:
  "\<exists>s' b buf. AllocValue (demo_os 131072) demo_scope demo_arena TInterface = (s', b, Return (InArena buf)) \<and>
     pointer_words TInterface = [0, 8]"
proof -
  have "snd (snd (AllocValue (demo_os 131072) demo_scope demo_arena TInterface)) = Return (InArena (Slice 0 0 16 16))"
    by code_simp
  then show ?thesis by (metis prod.collapse pointer_words.simps(3))
qed

section \<open>WithScope\<close>




end
