(* ===== verification/Pool.thy ===== *)
theory Pool
  imports Prelude
begin

text \<open>
  The object pool of \<^verbatim>\<open>pool.go\<close>, run by one goroutine: both backends, the options, the debug tracker of
  double frees (\<^verbatim>\<open>pool_debug_enabled.go\<close>) and the statistics. An object is its address, its contents the raw bytes
  of the \<^verbatim>\<open>T\<close> stored there. The lock-free backend with several goroutines is the theory
  Pool_Concurrent.

  \<^verbatim>\<open>sync.Pool\<close> may hand out any of its items or none: its \<^verbatim>\<open>Get\<close> is the parameter \<open>get\<close>, a choice
  from the items it holds. The constructor \<^verbatim>\<open>newFn\<close> is a parameter too.
\<close>

section \<open>State\<close>

datatype PoolBackend = PoolBackendTreiber | PoolBackendSync

record pool =
  po_items :: "nat list"
  po_backend :: PoolBackend
  po_resetFn :: "(u8 list \<Rightarrow> u8 list) option"
  po_zeroOnFree :: bool
  po_poisonOnFree :: bool
  po_poisonPattern :: u8
  po_tracker :: "nat set"
  po_inUse :: int
  po_total :: int
  po_peak :: int

type_synonym objects = "nat \<Rightarrow> u8 list"

datatype pool_option =
    WithPoolBackend PoolBackend
  | WithResetFn "u8 list \<Rightarrow> u8 list"
  | WithZeroOnFree
  | WithPoisonOnFree u8

fun apply_pool_option :: "pool_option \<Rightarrow> pool \<Rightarrow> pool" where
  "apply_pool_option (WithPoolBackend b) p = p\<lparr>po_backend := b\<rparr>"
| "apply_pool_option (WithResetFn f) p = p\<lparr>po_resetFn := Some f\<rparr>"
| "apply_pool_option WithZeroOnFree p = p\<lparr>po_zeroOnFree := True\<rparr>"
| "apply_pool_option (WithPoisonOnFree pat) p = p\<lparr>po_poisonOnFree := True, po_poisonPattern := pat\<rparr>"

definition empty_pool :: pool where
  "empty_pool = \<lparr>po_items = [], po_backend = PoolBackendTreiber, po_resetFn = None, po_zeroOnFree = False,
     po_poisonOnFree = False, po_poisonPattern = 0, po_tracker = {}, po_inUse = 0, po_total = 0, po_peak = 0\<rparr>"

definition NewPool :: "bool \<Rightarrow> pool_option option list \<Rightarrow> pool go" where
  "NewPool newFn_nil opts =
     (if newFn_nil then Panic (PanicMsg ''Pool requires a constructor'')
      else Return (fold (\<lambda>o1 p. case o1 of None \<Rightarrow> p | Some f \<Rightarrow> apply_pool_option f p) opts empty_pool))"

definition NewSyncPool :: "bool \<Rightarrow> pool_option option list \<Rightarrow> pool go" where
  "NewSyncPool newFn_nil opts = NewPool newFn_nil (Some (WithPoolBackend PoolBackendSync) # opts)"

section \<open>Operations\<close>

text \<open>The constructor: the heap with the new object, and its address.\<close>

type_synonym constructor = "objects \<Rightarrow> objects \<times> nat"

text \<open>\<^verbatim>\<open>allocTreiber\<close>, without interference: the head of the stack, or a new object.\<close>

definition allocTreiber :: "constructor \<Rightarrow> pool \<Rightarrow> objects \<Rightarrow> pool \<times> objects \<times> nat" where
  "allocTreiber newFn p h =
     (case po_items p of
        [] \<Rightarrow> (case newFn h of (h', obj) \<Rightarrow> (p\<lparr>po_total := go_int (po_total p + 1)\<rparr>, h', obj))
      | obj # rest \<Rightarrow> (p\<lparr>po_items := rest\<rparr>, h, obj))"

definition allocSync :: "(nat list \<Rightarrow> nat option) \<Rightarrow> constructor \<Rightarrow> pool \<Rightarrow> objects \<Rightarrow> pool \<times> objects \<times> nat" where
  "allocSync get newFn p h =
     (case get (po_items p) of
        Some obj \<Rightarrow> (p\<lparr>po_items := remove1 obj (po_items p)\<rparr>, h, obj)
      | None \<Rightarrow> (case newFn h of (h', obj) \<Rightarrow> (p\<lparr>po_total := go_int (po_total p + 1)\<rparr>, h', obj)))"

definition updatePeak64 :: "pool \<Rightarrow> int \<Rightarrow> pool" where
  "updatePeak64 p val = (let old = po_peak p in if val \<le> old then p else p\<lparr>po_peak := val\<rparr>)"

definition debugMarkAlloc :: "nat \<Rightarrow> pool \<Rightarrow> pool" where
  "debugMarkAlloc obj p = p\<lparr>po_tracker := insert obj (po_tracker p)\<rparr>"

definition PoolAlloc ::
  "bool \<Rightarrow> (nat list \<Rightarrow> nat option) \<Rightarrow> constructor \<Rightarrow> pool \<Rightarrow> objects \<Rightarrow> pool \<times> objects \<times> nat" where
  "PoolAlloc poolDebug get newFn p h =
     (case (case po_backend p of PoolBackendSync \<Rightarrow> allocSync get newFn p h | PoolBackendTreiber \<Rightarrow> allocTreiber newFn p h) of
        (p1, h1, obj) \<Rightarrow>
          (let p2 = (if poolDebug then debugMarkAlloc obj p1 else p1);
               inn = go_int (po_inUse p2 + 1)
           in (updatePeak64 (p2\<lparr>po_inUse := inn\<rparr>) inn, h1, obj)))"

definition poisonObject :: "u8 list \<Rightarrow> u8 \<Rightarrow> u8 list" where
  "poisonObject raw pattern = map (\<lambda>_. pattern) raw"

text \<open>What \<^verbatim>\<open>Free\<close> does to the object, in this order, before anything else.\<close>

definition scrub :: "pool \<Rightarrow> u8 list \<Rightarrow> u8 list" where
  "scrub p raw =
     (let r1 = (case po_resetFn p of None \<Rightarrow> raw | Some f \<Rightarrow> f raw);
          r2 = (if po_zeroOnFree p then map (\<lambda>_. 0) r1 else r1)
      in if po_poisonOnFree p then poisonObject r2 (po_poisonPattern p) else r2)"

definition debugMarkFree :: "nat \<Rightarrow> pool \<Rightarrow> pool go" where
  "debugMarkFree obj p =
     (if obj \<notin> po_tracker p then Panic (PanicMsg ''double free or foreign object passed to Pool.Free'')
      else Return (p\<lparr>po_tracker := po_tracker p - {obj}\<rparr>))"

text \<open>A nil object is None.\<close>

definition PoolFree :: "bool \<Rightarrow> pool \<Rightarrow> objects \<Rightarrow> nat option \<Rightarrow> pool \<times> objects \<times> unit go" where
  "PoolFree poolDebug p h oobj =
     (case oobj of
        None \<Rightarrow> (p, h, Panic (PanicMsg ''Free(nil)''))
      | Some obj \<Rightarrow>
          (let h1 = h(obj := scrub p (h obj))
           in case (if poolDebug then debugMarkFree obj p else Return p) of
                Panic e \<Rightarrow> (p, h1, Panic e)
              | Return p1 \<Rightarrow>
                  (p1\<lparr>po_items := obj # po_items p1, po_inUse := go_int (po_inUse p1 - 1)\<rparr>, h1, Return ())))"

text \<open>The borrowed object is released whatever way \<open>fn\<close> ends.\<close>

definition WithBorrow ::
  "bool \<Rightarrow> (nat list \<Rightarrow> nat option) \<Rightarrow> constructor \<Rightarrow> (nat \<Rightarrow> objects \<Rightarrow> objects \<times> 'err option go) option
   \<Rightarrow> pool \<Rightarrow> objects \<Rightarrow> pool \<times> objects \<times> 'err option go" where
  "WithBorrow poolDebug get newFn ofn p h =
     (case ofn of
        None \<Rightarrow> (p, h, Return None)
      | Some fn \<Rightarrow>
          (case PoolAlloc poolDebug get newFn p h of
             (p1, h1, obj) \<Rightarrow>
               (case fn obj h1 of
                  (h2, r) \<Rightarrow>
                    (case PoolFree poolDebug p1 h2 (Some obj) of
                       (p3, h3, Return _) \<Rightarrow> (p3, h3, r)
                     | (p3, h3, Panic e) \<Rightarrow> (p3, h3, Panic e)))))"

record pool_stats =
  ps_Backend :: PoolBackend
  ps_TotalObjects :: int
  ps_PeakObjects :: int
  ps_TotalBytes :: int
  ps_PeakBytes :: int
  ps_InUse :: int

definition PoolStats :: "int \<Rightarrow> pool \<Rightarrow> pool_stats" where
  "PoolStats sz p = \<lparr>ps_Backend = po_backend p, ps_TotalObjects = po_total p, ps_PeakObjects = po_peak p,
     ps_TotalBytes = go_int (po_total p * sz), ps_PeakBytes = go_int (po_peak p * sz), ps_InUse = po_inUse p\<rparr>"

section \<open>Borrowing discipline\<close>

text \<open>
  What a client does with a pool: borrow, or give back an object. The ghost list \<open>held\<close> is what clients
  hold. The constructor returns an address that is in nobody's hands: \<open>fresh_for\<close>.
\<close>

datatype pool_act = Borrow "nat list \<Rightarrow> nat option" constructor | GiveBack nat

fun pool_step :: "bool \<Rightarrow> pool \<times> objects \<times> nat list \<Rightarrow> pool_act \<Rightarrow> pool \<times> objects \<times> nat list" where
  "pool_step dbg (p, h, held) (Borrow get newFn) =
     (case PoolAlloc dbg get newFn p h of (p', h', obj) \<Rightarrow> (p', h', obj # held))"
| "pool_step dbg (p, h, held) (GiveBack obj) =
     (case PoolFree dbg p h (Some obj) of
        (p', h', Return _) \<Rightarrow> (p', h', remove1 obj held)
      | (p', h', Panic _) \<Rightarrow> (p', h', held))"

fun act_ok :: "bool \<Rightarrow> pool \<times> objects \<times> nat list \<Rightarrow> pool_act \<Rightarrow> bool" where
  "act_ok dbg (p, h, held) (Borrow get newFn) =
     (snd (newFn h) \<notin> set (po_items p) \<union> set held \<and>
      (\<forall>x. get (po_items p) = Some x \<longrightarrow> x \<in> set (po_items p)))"
| "act_ok dbg (p, h, held) (GiveBack obj) = (dbg \<or> obj \<in> set held)"

definition pool_inv :: "bool \<Rightarrow> pool \<times> objects \<times> nat list \<Rightarrow> bool" where
  "pool_inv dbg s = (case s of (p, h, held) \<Rightarrow>
     distinct (po_items p @ held) \<and> po_inUse p = int (length held) \<and> po_inUse p \<le> po_peak p \<and>
     (dbg \<longrightarrow> po_tracker p = set held))"

text \<open>Runs short enough that the 64-bit counters do not wrap.\<close>

lemma pool_step_inv:
  assumes "pool_inv dbg s" "act_ok dbg s x" "length (snd (snd s)) < 2 ^ 62"
  shows "pool_inv dbg (pool_step dbg s x)"
proof -
  obtain p h held where s: "s = (p, h, held)" by (cases s)
  show ?thesis
  proof (cases x)
    case (Borrow get newFn)
    obtain p1 h1 obj where b: "(case po_backend p of PoolBackendSync \<Rightarrow> allocSync get newFn p h
      | PoolBackendTreiber \<Rightarrow> allocTreiber newFn p h) = (p1, h1, obj)" by (metis prod.collapse)
    have A: "distinct (po_items p1 @ obj # held)" "po_inUse p1 = po_inUse p" "po_peak p1 = po_peak p" "po_tracker p1 = po_tracker p"
      using b assms(1,2) Borrow
      by (auto simp: s pool_inv_def allocSync_def allocTreiber_def distinct_remove1 notin_set_remove1
          split: PoolBackend.splits option.splits list.splits prod.splits dest: notin_set_remove1)
    have "go_int (int (length held) + 1) = int (length held) + 1"
      using assms(3) by (intro go_int_nonneg) (auto simp: s)
    with A assms(1) show ?thesis
      by (auto simp: s Borrow b PoolAlloc_def Let_def pool_inv_def updatePeak64_def debugMarkAlloc_def)
  next
    case (GiveBack obj)
    show ?thesis
    proof (cases "obj \<in> set held")
      case True
      have d: "int (length (remove1 obj held)) = int (length held) - 1"
        using True length_pos_if_in_set [OF True] by (simp add: length_remove1 of_nat_diff Suc_le_eq)
      have "go_int (int (length held) - 1) = int (length held) - 1"
        using assms(3) by (intro go_int_id) (auto simp: s in_int64_def)
      moreover have "0 < length held" using True by (cases held) auto
      ultimately show ?thesis
        using assms(1) True d
        by (auto simp: s GiveBack PoolFree_def debugMarkFree_def Let_def pool_inv_def distinct_remove1 dest: notin_set_remove1)
    next
      case False
      with assms(1,2) have "dbg" "obj \<notin> po_tracker p" by (auto simp: s GiveBack pool_inv_def)
      with assms(1) show ?thesis by (simp add: s GiveBack PoolFree_def debugMarkFree_def Let_def pool_inv_def)
    qed
  qed
qed

fun acts_ok :: "bool \<Rightarrow> pool \<times> objects \<times> nat list \<Rightarrow> pool_act list \<Rightarrow> bool" where
  "acts_ok dbg s [] = True"
| "acts_ok dbg s (x # xs) = (act_ok dbg s x \<and> acts_ok dbg (pool_step dbg s x) xs)"

lemma pool_step_length: "length (snd (snd (pool_step dbg s x))) \<le> Suc (length (snd (snd s)))"
  by (cases s; cases x) (auto split: prod.splits go.splits simp: length_remove1)

lemma pool_run_inv:
  "pool_inv dbg s \<Longrightarrow> acts_ok dbg s xs \<Longrightarrow> length (snd (snd s)) + length xs < 2 ^ 62 \<Longrightarrow>
     pool_inv dbg (foldl (pool_step dbg) s xs)"
proof (induction xs arbitrary: s)
  case (Cons x xs)
  then show ?case using pool_step_inv [of dbg s x] pool_step_length [of dbg s x] by auto
qed simp

section \<open>Properties\<close>

lemma apply_pool_option_inv:
  "pool_inv dbg (p, h, held) \<Longrightarrow> pool_inv dbg (apply_pool_option x p, h, held)"
  by (cases x) (auto simp: pool_inv_def)

lemma NewPool_inv:
  assumes "NewPool newFn_nil opts = Return p"
  shows "pool_inv dbg (p, h, [])"
proof -
  have "pool_inv dbg (fold (\<lambda>o1 p. case o1 of None \<Rightarrow> p | Some f \<Rightarrow> apply_pool_option f p) opts q, h, [])"
    if "pool_inv dbg (q, h, [])" for q
    using that by (induction opts arbitrary: q) (auto split: option.split intro: apply_pool_option_inv)
  moreover have "pool_inv dbg (empty_pool, h, [])" by (simp add: pool_inv_def empty_pool_def)
  ultimately show ?thesis using assms by (auto simp: NewPool_def split: if_splits)
qed

text \<open>C16. No object of a pool is ever in two hands: whatever is borrowed and given back, on either
  backend and whichever item \<^verbatim>\<open>sync.Pool\<close> picks, the borrowed objects are pairwise different and none of
  them is in the free list; \<^verbatim>\<open>InUse\<close> is their number and \<^verbatim>\<open>Peak\<close> bounds it. In the debug build this holds
  even if clients free objects twice or free foreign ones; otherwise they must give back only what they
  hold.\<close>

theorem Pool_exclusive:
  assumes "NewPool False opts = Return p" "acts_ok dbg (p, h, []) acts" "length acts < 2 ^ 62"
    "foldl (pool_step dbg) (p, h, []) acts = (p', h', held)"
  shows "distinct (po_items p' @ held) \<and> ps_InUse (PoolStats sz p') = int (length held) \<and>
    ps_InUse (PoolStats sz p') \<le> ps_PeakObjects (PoolStats sz p')"
  using pool_run_inv [OF NewPool_inv [OF assms(1)] assms(2)] assms(3,4)
  by (simp add: pool_inv_def PoolStats_def)

definition demo_ctor :: "nat \<Rightarrow> constructor" where
  "demo_ctor k h = (h(k := [1, 2]), k)"

lemma Pool_exclusive_witness:
  "distinct (po_items (fst (foldl (pool_step True) (empty_pool\<lparr>po_zeroOnFree := True\<rparr>, \<lambda>_. [], [])
     [Borrow (\<lambda>_. None) (demo_ctor 5), GiveBack 5, GiveBack 5])))"
  (is "distinct (po_items (fst (foldl _ (?p, ?h, []) ?acts)))")
proof -
  have n: "NewPool False [Some WithZeroOnFree] = Return ?p" by (simp add: NewPool_def)
  have ok: "acts_ok True (?p, ?h, []) ?acts"
    by (simp add: empty_pool_def demo_ctor_def PoolAlloc_def allocTreiber_def Let_def updatePeak64_def debugMarkAlloc_def
        PoolFree_def debugMarkFree_def)
  obtain p' h' held where r: "foldl (pool_step True) (?p, ?h, []) ?acts = (p', h', held)"
    by (metis prod.collapse)
  have "length ?acts < 2 ^ 62" by simp
  from Pool_exclusive [OF n ok this r] show ?thesis unfolding r by simp
qed

text \<open>The debug check comes last: a double free of an object that someone else has borrowed in the
  meantime panics, but only after it has wiped that object.\<close>

lemma double_free_wipes_first:
  assumes "po_zeroOnFree p" "\<not> po_poisonOnFree p" "po_resetFn p = None" "obj \<notin> po_tracker p"
  shows "PoolFree True p h (Some obj) =
    (p, h(obj := map (\<lambda>_. 0) (h obj)), Panic (PanicMsg ''double free or foreign object passed to Pool.Free''))"
  using assms by (simp add: PoolFree_def debugMarkFree_def scrub_def)

text \<open>Without the debug build a double free makes two borrowers share one object.\<close>

lemma double_free_aliases:
  assumes "po_backend p = PoolBackendTreiber"
    "PoolFree False p h (Some obj) = (p1, h1, Return ())" "PoolFree False p1 h1 (Some obj) = (p2, h2, Return ())"
    "PoolAlloc False get newFn p2 h2 = (p3, h3, x)" "PoolAlloc False get' newFn' p3 h3 = (p4, h4, y)"
  shows "x = obj \<and> y = obj"
  using assms
  by (auto simp: PoolFree_def PoolAlloc_def allocTreiber_def Let_def updatePeak64_def split: prod.splits list.splits if_splits)

end
