(* ===== verification/Pool_Concurrent.thy ===== *)
theory Pool_Concurrent
  imports Prelude "HOL-Library.Multiset"
begin

text \<open>
  The lock-free backend of \<^verbatim>\<open>pool.go\<close> (a Treiber stack) used by any number of goroutines. Shared are the
  head pointer, the nodes and the objects clients hold; every call of \<^verbatim>\<open>allocTreiber\<close> or of the push loop
  of \<^verbatim>\<open>Free\<close> is an operation in flight that moves by atomic actions: load the head, read \<^verbatim>\<open>h.next\<close>, swap. A
  node is allocated by the garbage collector, which never reuses one that is still referenced, so node
  identities are fresh; the constructor gives fresh objects. The theory shows that the concurrent stack
  refines an abstract one in which push and pop are single steps, and that no object is lost or shared.
\<close>

section \<open>The system\<close>

text \<open>\<^verbatim>\<open>poolNode\<close>: the object and the next node.\<close>

record pool_node =
  nd_val :: nat
  nd_next :: "nat option"

datatype pool_op =
    AllocLoad
  | AllocRead nat
  | AllocSwap nat "nat option"
  | FreeLoad nat
  | FreeSwap nat "nat option"

record treiber =
  tr_head :: "nat option"
  tr_nodes :: "nat \<Rightarrow> pool_node"
  tr_nextNode :: nat
  tr_nextObj :: nat
  tr_held :: "nat list"
  tr_ops :: "pool_op list"

definition treiber0 :: treiber where
  "treiber0 = \<lparr>tr_head = None, tr_nodes = (\<lambda>_. \<lparr>nd_val = 0, nd_next = None\<rparr>), tr_nextNode = 0, tr_nextObj = 0,
     tr_held = [], tr_ops = []\<rparr>"

abbreviation set_op :: "nat \<Rightarrow> pool_op \<Rightarrow> treiber \<Rightarrow> treiber" where
  "set_op i x s \<equiv> s\<lparr>tr_ops := (tr_ops s)[i := x]\<rparr>"

definition drop_op :: "nat \<Rightarrow> treiber \<Rightarrow> treiber" where
  "drop_op i s = s\<lparr>tr_ops := take i (tr_ops s) @ drop (Suc i) (tr_ops s)\<rparr>"

inductive tstep :: "treiber \<Rightarrow> treiber \<Rightarrow> bool" where
  start_alloc: "tstep s (s\<lparr>tr_ops := tr_ops s @ [AllocLoad]\<rparr>)"
| alloc_new: "i < length (tr_ops s) \<Longrightarrow> tr_ops s ! i = AllocLoad \<Longrightarrow> tr_head s = None \<Longrightarrow>
    tstep s (drop_op i (s\<lparr>tr_held := tr_nextObj s # tr_held s, tr_nextObj := Suc (tr_nextObj s)\<rparr>))"
| alloc_load: "i < length (tr_ops s) \<Longrightarrow> tr_ops s ! i = AllocLoad \<Longrightarrow> tr_head s = Some h \<Longrightarrow>
    tstep s (set_op i (AllocRead h) s)"
| alloc_read: "i < length (tr_ops s) \<Longrightarrow> tr_ops s ! i = AllocRead h \<Longrightarrow>
    tstep s (set_op i (AllocSwap h (nd_next (tr_nodes s h))) s)"
| alloc_swap: "i < length (tr_ops s) \<Longrightarrow> tr_ops s ! i = AllocSwap h nx \<Longrightarrow> tr_head s = Some h \<Longrightarrow>
    tstep s (drop_op i (s\<lparr>tr_head := nx, tr_held := nd_val (tr_nodes s h) # tr_held s\<rparr>))"
| alloc_retry: "i < length (tr_ops s) \<Longrightarrow> tr_ops s ! i = AllocSwap h nx \<Longrightarrow> tr_head s \<noteq> Some h \<Longrightarrow>
    tstep s (set_op i AllocLoad s)"
| start_free: "obj \<in> set (tr_held s) \<Longrightarrow>
    tstep s (s\<lparr>tr_held := remove1 obj (tr_held s),
               tr_nodes := (tr_nodes s)(tr_nextNode s := \<lparr>nd_val = obj, nd_next = None\<rparr>),
               tr_nextNode := Suc (tr_nextNode s), tr_ops := tr_ops s @ [FreeLoad (tr_nextNode s)]\<rparr>)"
| free_load: "i < length (tr_ops s) \<Longrightarrow> tr_ops s ! i = FreeLoad n \<Longrightarrow>
    tstep s (set_op i (FreeSwap n (tr_head s)) (s\<lparr>tr_nodes := (tr_nodes s)(n := (tr_nodes s n)\<lparr>nd_next := tr_head s\<rparr>)\<rparr>))"
| free_swap: "i < length (tr_ops s) \<Longrightarrow> tr_ops s ! i = FreeSwap n h \<Longrightarrow> tr_head s = h \<Longrightarrow>
    tstep s (drop_op i (s\<lparr>tr_head := Some n\<rparr>))"
| free_retry: "i < length (tr_ops s) \<Longrightarrow> tr_ops s ! i = FreeSwap n h \<Longrightarrow> tr_head s \<noteq> h \<Longrightarrow>
    tstep s (set_op i (FreeLoad n) s)"

section \<open>Invariant\<close>

text \<open>The nodes from a pointer on.\<close>

fun chain :: "(nat \<Rightarrow> pool_node) \<Rightarrow> nat option \<Rightarrow> nat list \<Rightarrow> bool" where
  "chain nodes p [] = (p = None)"
| "chain nodes p (x # xs) = (p = Some x \<and> chain nodes (nd_next (nodes x)) xs)"

lemma chain_cong: "(\<And>x. x \<in> set xs \<Longrightarrow> nodes x = nodes' x) \<Longrightarrow> chain nodes p xs = chain nodes' p xs"
  by (induction xs arbitrary: p) auto

lemma chain_unique: "chain nodes p xs \<Longrightarrow> chain nodes p ys \<Longrightarrow> xs = ys"
proof (induction xs arbitrary: p ys)
  case Nil
  then show ?case by (cases ys) auto
next
  case (Cons x xs)
  then show ?case by (cases ys) auto
qed

text \<open>The node a push in flight owns, and the node a pop in flight refers to.\<close>

fun owned :: "pool_op \<Rightarrow> nat list" where
  "owned (FreeLoad n) = [n]"
| "owned (FreeSwap n h) = [n]"
| "owned _ = []"

definition owned_nodes :: "pool_op list \<Rightarrow> nat list" where
  "owned_nodes ops = concat (map owned ops)"

lemma owned_nodes_simps [simp]:
  "owned_nodes [] = []" "owned_nodes (op # ops) = owned op @ owned_nodes ops"
  "owned_nodes (A @ B) = owned_nodes A @ owned_nodes B"
  by (simp_all add: owned_nodes_def)

fun op_inv :: "(nat \<Rightarrow> pool_node) \<Rightarrow> nat \<Rightarrow> nat list \<Rightarrow> pool_op \<Rightarrow> bool" where
  "op_inv nodes k own (AllocRead h) = (h < k \<and> h \<notin> set own)"
| "op_inv nodes k own (AllocSwap h nx) = (h < k \<and> h \<notin> set own \<and> nd_next (nodes h) = nx)"
| "op_inv nodes k own (FreeLoad n) = (n < k)"
| "op_inv nodes k own (FreeSwap n h) = (n < k \<and> nd_next (nodes n) = h)"
| "op_inv nodes k own AllocLoad = True"

text \<open>Who has which object: the free list, the pushes in flight, and the clients.\<close>

definition all_objs :: "treiber \<Rightarrow> nat list \<Rightarrow> nat multiset" where
  "all_objs s xs = image_mset (\<lambda>n. nd_val (tr_nodes s n)) (mset (xs @ owned_nodes (tr_ops s))) + mset (tr_held s)"

definition tr_inv :: "treiber \<Rightarrow> nat list \<Rightarrow> bool" where
  "tr_inv s xs \<longleftrightarrow> chain (tr_nodes s) (tr_head s) xs \<and> distinct (xs @ owned_nodes (tr_ops s)) \<and>
     (\<forall>x \<in> set xs. x < tr_nextNode s) \<and>
     (\<forall>op \<in> set (tr_ops s). op_inv (tr_nodes s) (tr_nextNode s) (owned_nodes (tr_ops s)) op) \<and>
     all_objs s xs = mset [0 ..< tr_nextObj s]"

text \<open>What clients may assume of an operation does not change when nodes are added, when a push in flight
  completes, or when a node of another operation is touched.\<close>

lemma op_inv_weaken:
  assumes "op_inv nodes k own op" "k \<le> k'" "\<forall>n \<in> set own'. n \<in> set own \<or> k \<le> n"
    "\<forall>n < k. n \<notin> set own \<or> n \<in> set (owned op) \<longrightarrow> nd_next (nodes' n) = nd_next (nodes n)"
  shows "op_inv nodes' k' own' op"
  using assms by (cases op) auto

lemma owned_less:
  "\<forall>op \<in> set ops. op_inv nodes k own op \<Longrightarrow> n \<in> set (owned_nodes ops) \<Longrightarrow> n < k"
proof -
  assume A: "\<forall>op \<in> set ops. op_inv nodes k own op" "n \<in> set (owned_nodes ops)"
  then obtain op where op: "op \<in> set ops" "n \<in> set (owned op)" by (auto simp: owned_nodes_def)
  then have "op_inv nodes k own op" using A(1) by blast
  with op(2) show "n < k" by (cases op) auto
qed

lemma split_ops:
  assumes "i < length ops"
  obtains A B where "ops = A @ ops ! i # B" "length A = i"
  using assms id_take_nth_drop [OF assms] by (metis length_take min.absorb4)

lemma drop_op_ops: "tr_ops s = A @ op # B \<Longrightarrow> tr_ops (drop_op (length A) s) = A @ B"
  by (simp add: drop_op_def)

lemma drop_op_simps [simp]:
  "tr_head (drop_op i s) = tr_head s" "tr_nodes (drop_op i s) = tr_nodes s" "tr_nextNode (drop_op i s) = tr_nextNode s"
  "tr_nextObj (drop_op i s) = tr_nextObj s" "tr_held (drop_op i s) = tr_held s"
  by (simp_all add: drop_op_def)

section \<open>The abstract pool\<close>

text \<open>A stack of free objects, the objects in clients' hands, the pushes under way, and the number of
  objects made so far. Push and pop are atomic.\<close>

record abs_pool =
  ab_stack :: "nat list"
  ab_held :: "nat multiset"
  ab_pending :: "nat multiset"
  ab_made :: nat

inductive astep :: "abs_pool \<Rightarrow> abs_pool \<Rightarrow> bool" where
  a_silent: "astep p p"
| a_new: "ab_stack p = [] \<Longrightarrow> astep p (p\<lparr>ab_held := add_mset (ab_made p) (ab_held p), ab_made := Suc (ab_made p)\<rparr>)"
| a_pop: "ab_stack p = x # xs \<Longrightarrow> astep p (p\<lparr>ab_stack := xs, ab_held := add_mset x (ab_held p)\<rparr>)"
| a_give: "x \<in># ab_held p \<Longrightarrow> astep p (p\<lparr>ab_held := ab_held p - {#x#}, ab_pending := add_mset x (ab_pending p)\<rparr>)"
| a_push: "x \<in># ab_pending p \<Longrightarrow> astep p (p\<lparr>ab_pending := ab_pending p - {#x#}, ab_stack := x # ab_stack p\<rparr>)"

definition abs_of :: "treiber \<Rightarrow> nat list \<Rightarrow> abs_pool" where
  "abs_of s xs = \<lparr>ab_stack = map (\<lambda>n. nd_val (tr_nodes s n)) xs, ab_held = mset (tr_held s),
     ab_pending = image_mset (\<lambda>n. nd_val (tr_nodes s n)) (mset (owned_nodes (tr_ops s))), ab_made = tr_nextObj s\<rparr>"

section \<open>Every step keeps the invariant and is a step of the abstract pool\<close>

lemma image_mset_cong_list:
  "(\<And>n. n \<in> set ns \<Longrightarrow> f n = g n) \<Longrightarrow> image_mset f (mset ns) = image_mset g (mset ns)"
  by (induction ns) auto

lemma tstep_simulation:
  assumes inv: "tr_inv s xs" and step: "tstep s s'"
  shows "\<exists>ys. tr_inv s' ys \<and> astep (abs_of s xs) (abs_of s' ys)"
  using step
proof (cases rule: tstep.cases)
  case start_alloc
  then have "tr_inv s' xs \<and> abs_of s' xs = abs_of s xs" using inv by (simp add: tr_inv_def abs_of_def all_objs_def)
  then show ?thesis using a_silent by metis
next
  case (alloc_new i)
  obtain A B where ops: "tr_ops s = A @ AllocLoad # B" and i: "length A = i" using split_ops [OF alloc_new(2)] alloc_new(3) by metis
  have xs: "xs = []" using inv alloc_new(4) by (cases xs) (auto simp: tr_inv_def)
  have o: "tr_ops s' = A @ B" unfolding alloc_new(1) i [symmetric] by (rule drop_op_ops) (simp add: ops)
  have f: "tr_head s' = None" "tr_nodes s' = tr_nodes s" "tr_nextNode s' = tr_nextNode s"
    "tr_nextObj s' = Suc (tr_nextObj s)" "tr_held s' = tr_nextObj s # tr_held s"
    using alloc_new(4) by (simp_all add: alloc_new(1))
  have "tr_inv s' []"
    using inv by (simp add: tr_inv_def xs o f ops all_objs_def)
  moreover have "abs_of s' [] = (abs_of s [])\<lparr>ab_held := add_mset (ab_made (abs_of s [])) (ab_held (abs_of s [])), ab_made := Suc (ab_made (abs_of s []))\<rparr>"
    by (simp add: abs_of_def o f ops)
  moreover have "ab_stack (abs_of s []) = []" by (simp add: abs_of_def)
  ultimately show ?thesis using a_new xs by metis
next
  case (alloc_load i h)
  obtain A B where ops: "tr_ops s = A @ AllocLoad # B" and i: "length A = i" using split_ops [OF alloc_load(2)] alloc_load(3) by metis
  obtain xs' where xs: "xs = h # xs'" using inv alloc_load(4) by (cases xs) (auto simp: tr_inv_def)
  have o: "tr_ops s' = A @ AllocRead h # B" unfolding alloc_load(1) by (simp add: ops i [symmetric])
  have f: "tr_head s' = tr_head s" "tr_nodes s' = tr_nodes s" "tr_nextNode s' = tr_nextNode s"
    "tr_nextObj s' = tr_nextObj s" "tr_held s' = tr_held s"
    by (simp_all add: alloc_load(1))
  have "tr_inv s' xs \<and> abs_of s' xs = abs_of s xs"
    using inv by (auto simp: tr_inv_def xs o f ops all_objs_def abs_of_def)
  then show ?thesis using a_silent by metis
next
  case (alloc_read i h)
  obtain A B where ops: "tr_ops s = A @ AllocRead h # B" and i: "length A = i" using split_ops [OF alloc_read(2)] alloc_read(3) by metis
  have o: "tr_ops s' = A @ AllocSwap h (nd_next (tr_nodes s h)) # B" unfolding alloc_read(1) by (simp add: ops i [symmetric])
  have f: "tr_head s' = tr_head s" "tr_nodes s' = tr_nodes s" "tr_nextNode s' = tr_nextNode s"
    "tr_nextObj s' = tr_nextObj s" "tr_held s' = tr_held s"
    by (simp_all add: alloc_read(1))
  have "tr_inv s' xs \<and> abs_of s' xs = abs_of s xs"
    using inv by (simp add: tr_inv_def o f ops all_objs_def abs_of_def)
  then show ?thesis using a_silent by metis
next
  case (alloc_swap i h nx)
  obtain A B where ops: "tr_ops s = A @ AllocSwap h nx # B" and i: "length A = i" using split_ops [OF alloc_swap(2)] alloc_swap(3) by metis
  obtain xs' where xs: "xs = h # xs'" using inv alloc_swap(4) by (cases xs) (auto simp: tr_inv_def)
  have o: "tr_ops s' = A @ B" unfolding alloc_swap(1) i [symmetric] by (rule drop_op_ops) (simp add: ops)
  have nx: "nd_next (tr_nodes s h) = nx" using inv by (simp add: tr_inv_def ops)
  have f: "tr_head s' = nx" "tr_nodes s' = tr_nodes s" "tr_nextNode s' = tr_nextNode s"
    "tr_nextObj s' = tr_nextObj s" "tr_held s' = nd_val (tr_nodes s h) # tr_held s"
    by (simp_all add: alloc_swap(1))
  have "tr_inv s' xs'"
    using inv nx by (simp add: tr_inv_def xs o f ops all_objs_def)
  moreover have "abs_of s' xs' = (abs_of s xs)\<lparr>ab_stack := map (\<lambda>n. nd_val (tr_nodes s n)) xs',
      ab_held := add_mset (nd_val (tr_nodes s h)) (ab_held (abs_of s xs))\<rparr>"
    by (simp add: abs_of_def o f ops)
  moreover have "ab_stack (abs_of s xs) = nd_val (tr_nodes s h) # map (\<lambda>n. nd_val (tr_nodes s n)) xs'"
    by (simp add: abs_of_def xs)
  ultimately show ?thesis using a_pop by metis
next
  case (alloc_retry i h nx)
  obtain A B where ops: "tr_ops s = A @ AllocSwap h nx # B" and i: "length A = i" using split_ops [OF alloc_retry(2)] alloc_retry(3) by metis
  have o: "tr_ops s' = A @ AllocLoad # B" unfolding alloc_retry(1) by (simp add: ops i [symmetric])
  have f: "tr_head s' = tr_head s" "tr_nodes s' = tr_nodes s" "tr_nextNode s' = tr_nextNode s"
    "tr_nextObj s' = tr_nextObj s" "tr_held s' = tr_held s"
    by (simp_all add: alloc_retry(1))
  have "tr_inv s' xs \<and> abs_of s' xs = abs_of s xs"
    using inv by (simp add: tr_inv_def o f ops all_objs_def abs_of_def)
  then show ?thesis using a_silent by metis
next
  case (start_free obj)
  let ?n = "tr_nextNode s" and ?own = "owned_nodes (tr_ops s)"
  have own: "n < ?n" if "n \<in> set ?own" for n using inv that owned_less by (simp add: tr_inv_def) blast
  have xsn: "x < ?n" if "x \<in> set xs" for x using inv that by (simp add: tr_inv_def)
  have f: "tr_nodes s' = (tr_nodes s)(?n := \<lparr>nd_val = obj, nd_next = None\<rparr>)" "tr_ops s' = tr_ops s @ [FreeLoad ?n]"
    "tr_head s' = tr_head s" "tr_nextNode s' = Suc ?n" "tr_nextObj s' = tr_nextObj s" "tr_held s' = remove1 obj (tr_held s)"
    by (simp_all add: start_free(1))
  have val: "nd_val (tr_nodes s' n) = nd_val (tr_nodes s n)" if "n < ?n" for n using that by (simp add: f)
  have m: "image_mset (\<lambda>n. nd_val (tr_nodes s' n)) (mset ns) = image_mset (\<lambda>n. nd_val (tr_nodes s n)) (mset ns)"
    if "\<forall>n \<in> set ns. n < ?n" for ns
    using that val by (intro image_mset_cong_list) auto
  have "tr_nodes s x = tr_nodes s' x" if "x \<in> set xs" for x using xsn [OF that] by (simp add: f)
  then have "chain (tr_nodes s) (tr_head s) xs = chain (tr_nodes s') (tr_head s) xs" by (rule chain_cong)
  then have "chain (tr_nodes s') (tr_head s') xs"
    using inv by (simp add: tr_inv_def f(3))
  moreover have "op_inv (tr_nodes s') (Suc ?n) (?own @ [?n]) op" if "op \<in> set (tr_ops s)" for op
  proof -
    have oi: "op_inv (tr_nodes s) ?n ?own op" using inv that by (simp add: tr_inv_def)
    show ?thesis by (rule op_inv_weaken [OF oi]) (auto simp: f)
  qed
  moreover have "all_objs s' xs = all_objs s xs"
    using start_free(2) m [of xs] m [of ?own] xsn own by (simp add: all_objs_def f)
  moreover have "distinct (xs @ ?own @ [?n])"
    using inv own xsn by (auto simp: tr_inv_def)
  ultimately have "tr_inv s' xs"
    using inv by (auto simp: tr_inv_def f less_Suc_eq)
  moreover have "abs_of s' xs = (abs_of s xs)\<lparr>ab_held := ab_held (abs_of s xs) - {#obj#}, ab_pending := add_mset obj (ab_pending (abs_of s xs))\<rparr>"
    using m [of ?own] own xsn [of ?n] by (auto simp: abs_of_def f)
  moreover have "obj \<in># ab_held (abs_of s xs)" using start_free(2) by (simp add: abs_of_def)
  ultimately show ?thesis using a_give by metis
next
  case (free_load i n)
  obtain A B where ops: "tr_ops s = A @ FreeLoad n # B" and i: "length A = i" using split_ops [OF free_load(2)] free_load(3) by metis
  have f: "tr_ops s' = A @ FreeSwap n (tr_head s) # B" "tr_nodes s' = (tr_nodes s)(n := (tr_nodes s n)\<lparr>nd_next := tr_head s\<rparr>)"
    "tr_head s' = tr_head s" "tr_nextNode s' = tr_nextNode s" "tr_nextObj s' = tr_nextObj s" "tr_held s' = tr_held s"
    by (simp_all add: free_load(1) ops i [symmetric])
  have val: "nd_val (tr_nodes s' m) = nd_val (tr_nodes s m)" for m by (simp add: f)
  have own: "owned_nodes (tr_ops s') = owned_nodes (tr_ops s)" by (simp add: f ops)
  have nxs: "n \<notin> set xs" "n \<notin> set (owned_nodes A)" "n \<notin> set (owned_nodes B)" using inv by (auto simp: tr_inv_def ops)
  have "tr_nodes s x = tr_nodes s' x" if "x \<in> set xs" for x using that nxs(1) by (auto simp: f)
  then have "chain (tr_nodes s) (tr_head s) xs = chain (tr_nodes s') (tr_head s) xs" by (rule chain_cong)
  then have "chain (tr_nodes s') (tr_head s') xs"
    using inv by (simp add: tr_inv_def f(3))
  moreover have "op_inv (tr_nodes s') (tr_nextNode s) (owned_nodes (tr_ops s)) op" if op: "op \<in> set A \<union> set B" for op
  proof -
    have "n \<notin> set (owned op)" using op nxs by (auto simp: owned_nodes_def)
    moreover have oi: "op_inv (tr_nodes s) (tr_nextNode s) (owned_nodes (tr_ops s)) op"
      using inv op by (auto simp: tr_inv_def ops)
    moreover have "n \<in> set (owned_nodes (tr_ops s))" by (simp add: ops)
    ultimately show ?thesis by (intro op_inv_weaken [OF oi]) (auto simp: f(2))
  qed
  moreover have "n < tr_nextNode s" using inv by (simp add: tr_inv_def ops)
  ultimately have "tr_inv s' xs"
    using inv by (auto simp: tr_inv_def own all_objs_def val) (auto simp: f ops)
  moreover have "abs_of s' xs = abs_of s xs" by (simp add: abs_of_def own val) (simp add: f)
  ultimately show ?thesis using a_silent by metis
next
  case (free_swap i n h)
  obtain A B where ops: "tr_ops s = A @ FreeSwap n h # B" and i: "length A = i" using split_ops [OF free_swap(2)] free_swap(3) by metis
  have o: "tr_ops s' = A @ B" unfolding free_swap(1) i [symmetric] by (rule drop_op_ops) (simp add: ops)
  have f: "tr_head s' = Some n" "tr_nodes s' = tr_nodes s" "tr_nextNode s' = tr_nextNode s" "tr_nextObj s' = tr_nextObj s" "tr_held s' = tr_held s"
    by (simp_all add: free_swap(1))
  have n: "nd_next (tr_nodes s n) = h" "n < tr_nextNode s" using inv by (auto simp: tr_inv_def ops)
  have "op_inv (tr_nodes s) (tr_nextNode s) (owned_nodes (A @ B)) op" if "op \<in> set A \<union> set B" for op
  proof -
    have oi: "op_inv (tr_nodes s) (tr_nextNode s) (owned_nodes (tr_ops s)) op"
      using inv that by (auto simp: tr_inv_def ops)
    show ?thesis by (rule op_inv_weaken [OF oi]) (auto simp: ops)
  qed
  then have "tr_inv s' (n # xs)"
    using inv n free_swap(4) by (auto simp: tr_inv_def f o ops all_objs_def)
  moreover have "abs_of s' (n # xs) = (abs_of s xs)\<lparr>ab_pending := ab_pending (abs_of s xs) - {#nd_val (tr_nodes s n)#},
      ab_stack := nd_val (tr_nodes s n) # ab_stack (abs_of s xs)\<rparr>"
    by (simp add: abs_of_def f o ops)
  moreover have "nd_val (tr_nodes s n) \<in># ab_pending (abs_of s xs)" by (simp add: abs_of_def ops)
  ultimately show ?thesis using a_push by metis
next
  case (free_retry i n h)
  obtain A B where ops: "tr_ops s = A @ FreeSwap n h # B" and i: "length A = i" using split_ops [OF free_retry(2)] free_retry(3) by metis
  have o: "tr_ops s' = A @ FreeLoad n # B" unfolding free_retry(1) by (simp add: ops i [symmetric])
  have f: "tr_head s' = tr_head s" "tr_nodes s' = tr_nodes s" "tr_nextNode s' = tr_nextNode s"
    "tr_nextObj s' = tr_nextObj s" "tr_held s' = tr_held s"
    by (simp_all add: free_retry(1))
  have "tr_inv s' xs \<and> abs_of s' xs = abs_of s xs"
    using inv by (simp add: tr_inv_def o f ops all_objs_def abs_of_def)
  then show ?thesis using a_silent by metis
qed

lemma reachable_simulation:
  assumes "tstep\<^sup>*\<^sup>* treiber0 s"
  shows "\<exists>xs. tr_inv s xs \<and> astep\<^sup>*\<^sup>* (abs_of treiber0 []) (abs_of s xs)"
  using assms
proof (induction rule: rtranclp_induct)
  case base
  have "tr_inv treiber0 []" by (simp add: tr_inv_def treiber0_def all_objs_def)
  then show ?case by blast
next
  case (step s s')
  then show ?case using tstep_simulation by (meson rtranclp.rtrancl_into_rtrancl)
qed

section \<open>Properties\<close>

text \<open>C15. The lock-free pool refines an atomic one: in every reachable state the nodes from the head on
  form a finite chain without repetition, and the whole execution is one of the abstract pool, where a pop
  takes the top object, a push puts one on top, and a new object is made only when the stack is empty, each
  in one step.\<close>

theorem treiber_refines:
  assumes "tstep\<^sup>*\<^sup>* treiber0 s"
  shows "\<exists>xs. chain (tr_nodes s) (tr_head s) xs \<and> distinct xs \<and>
    astep\<^sup>*\<^sup>* \<lparr>ab_stack = [], ab_held = {#}, ab_pending = {#}, ab_made = 0\<rparr> (abs_of s xs)"
proof -
  have "abs_of treiber0 [] = \<lparr>ab_stack = [], ab_held = {#}, ab_pending = {#}, ab_made = 0\<rparr>"
    by (simp add: abs_of_def treiber0_def)
  then show ?thesis using reachable_simulation [OF assms] by (auto simp: tr_inv_def)
qed

lemma demo_treiber:
  "tstep\<^sup>*\<^sup>* treiber0 (treiber0\<lparr>tr_held := [0], tr_nextObj := 1\<rparr>)"
proof -
  let ?s1 = "treiber0\<lparr>tr_ops := [AllocLoad]\<rparr>"
  have "tstep treiber0 ?s1" using start_alloc [of treiber0] by (simp add: treiber0_def)
  moreover have "tstep ?s1 (treiber0\<lparr>tr_held := [0], tr_nextObj := 1\<rparr>)"
    using alloc_new [of 0 ?s1] by (simp add: treiber0_def drop_op_def)
  ultimately show ?thesis by (meson rtranclp.rtrancl_into_rtrancl rtranclp.rtrancl_refl)
qed

lemma treiber_refines_witness:
  "\<exists>xs. chain (tr_nodes treiber0) None xs \<and>
     astep\<^sup>*\<^sup>* \<lparr>ab_stack = [], ab_held = {#}, ab_pending = {#}, ab_made = 0\<rparr>
       (abs_of (treiber0\<lparr>tr_held := [0], tr_nextObj := 1\<rparr>) xs)"
  using treiber_refines [OF demo_treiber] by (auto simp: treiber0_def)

text \<open>No object of the lock-free pool is lost or shared: in every reachable state each object the
  constructor made is in exactly one place, the free list, a push in flight, or one client's hand.\<close>

lemma treiber_exclusive:
  assumes "tstep\<^sup>*\<^sup>* treiber0 s" "obj < tr_nextObj s"
  shows "\<exists>xs. chain (tr_nodes s) (tr_head s) xs \<and>
    count_list (map (\<lambda>n. nd_val (tr_nodes s n)) xs) obj +
    count_list (map (\<lambda>n. nd_val (tr_nodes s n)) (owned_nodes (tr_ops s))) obj +
    count_list (tr_held s) obj = 1"
proof -
  obtain xs where inv: "tr_inv s xs" using reachable_simulation [OF assms(1)] by blast
  have "count (mset [0 ..< tr_nextObj s]) obj = 1"
    using assms(2) distinct_upt [of 0 "tr_nextObj s"] by (simp only: distinct_count_atmost_1) simp
  then have "count (all_objs s xs) obj = 1" using inv by (simp add: tr_inv_def)
  then have "count_list (map (\<lambda>n. nd_val (tr_nodes s n)) xs) obj +
    count_list (map (\<lambda>n. nd_val (tr_nodes s n)) (owned_nodes (tr_ops s))) obj + count_list (tr_held s) obj = 1"
    by (simp add: all_objs_def flip: count_mset)
  then show ?thesis using inv by (auto simp: tr_inv_def)
qed

lemma treiber_exclusive_witness:
  "count_list (tr_held (treiber0\<lparr>tr_held := [0], tr_nextObj := 1\<rparr>)) 0 \<le> 1"
  using treiber_exclusive [OF demo_treiber, of 0] by auto

end
