(* ===== verification/Bytes.thy ===== *)
theory Bytes
  imports Prelude
begin

text \<open>
  Byte strings as the codecs use them: \<^verbatim>\<open>encoding/binary\<close>, the outcome of a Go call that returns a value
  and an error or panics, decoders over a byte slice with a position, readers, and the contract of a
  self-delimiting encoding, from which its uniqueness and the decoding of sequences follow.
\<close>

section \<open>Calls\<close>

datatype ('e, 'a) gocall = Ok 'a | Err 'e | Panicked panic

text \<open>The sentinel errors of the packages \<^verbatim>\<open>io\<close>, \<^verbatim>\<open>codec\<close> and \<^verbatim>\<open>strconv\<close>.\<close>

datatype codec_error =
    EOF
  | UnexpectedEOF
  | ErrNegativeLength
  | ErrVarintOverflow
  | ErrMalformedProto
  | ErrInvalidWire
  | ErrMalformedMsgPack
  | ErrTypeMismatch
  | ErrMalformedWSFrame
  | ErrControlFrameFrag
  | ErrMalformedJSON
  | ErrSyntax

section \<open>Endianness\<close>

fun le_get :: "u8 list \<Rightarrow> 'a::len word" where
  "le_get [] = 0"
| "le_get (b # bs) = ucast b OR push_bit 8 (le_get bs)"

definition be_get :: "u8 list \<Rightarrow> 'a::len word" where
  "be_get bs = le_get (rev bs)"

definition le_put :: "nat \<Rightarrow> 'a::len word \<Rightarrow> u8 list" where
  "le_put n w = map (\<lambda>i. ucast (drop_bit (8 * i) w)) [0 ..< n]"

definition be_put :: "nat \<Rightarrow> 'a::len word \<Rightarrow> u8 list" where
  "be_put n w = rev (le_put n w)"

lemma bit_le_get:
  "bit (le_get bs :: 'a::len word) k \<longleftrightarrow>
     k < LENGTH('a) \<and> k < 8 * length bs \<and> bit (bs ! (k div 8)) (k mod 8)"
proof (induction bs arbitrary: k)
  case (Cons b bs)
  show ?case
  proof (cases "k < 8")
    case True
    then show ?thesis by (auto simp: bit_simps Cons.IH)
  next
    case False
    then have "k div 8 = Suc ((k - 8) div 8)" "k mod 8 = (k - 8) mod 8"
      by (simp_all add: le_div_geq le_mod_geq)
    moreover have "\<not> bit (ucast b :: 'a word) k"
      using False by (auto simp: bit_simps dest: bit_imp_le_length)
    ultimately show ?thesis using False by (auto simp: bit_simps Cons.IH)
  qed
qed simp

lemma length_le_put [simp]: "length (le_put n w) = n"
  by (simp add: le_put_def)

lemma length_be_put [simp]: "length (be_put n w) = n"
  by (simp add: be_put_def)

lemma le_get_put: "LENGTH('a) \<le> 8 * n \<Longrightarrow> le_get (le_put n w) = (w :: 'a::len word)"
  by (rule bit_eqI) (auto simp: bit_le_get le_put_def bit_simps less_mult_imp_div_less mult.commute)

lemma be_get_put: "LENGTH('a) \<le> 8 * n \<Longrightarrow> be_get (be_put n w) = (w :: 'a::len word)"
  by (simp add: be_get_def be_put_def le_get_put)

lemma le_put_get:
  assumes "length bs = n" "8 * n \<le> LENGTH('a)"
  shows "le_put n (le_get bs :: 'a::len word) = bs"
proof (rule nth_equalityI)
  fix i assume "i < length (le_put n (le_get bs :: 'a word))"
  then have i: "i < n" by simp
  show "le_put n (le_get bs :: 'a word) ! i = bs ! i"
  proof (rule bit_eqI)
    fix k assume "possible_bit TYPE(8 word) k"
    then have k: "k < 8" by simp
    moreover have "8 * i + k < 8 * n" using i k by linarith
    ultimately show "bit (le_put n (le_get bs :: 'a word) ! i) k = bit (bs ! i) k"
      using i assms by (simp add: le_put_def bit_simps bit_le_get)
  qed
qed (simp add: assms)

lemma be_put_get:
  "length bs = n \<Longrightarrow> 8 * n \<le> LENGTH('a) \<Longrightarrow> be_put n (be_get bs :: 'a::len word) = bs"
  by (simp add: be_put_def be_get_def le_put_get)

section \<open>Small numbers in the low bits of a byte\<close>

lemma bit_0x80: "bit (0x80 :: int) n \<longleftrightarrow> n = 7"
proof -
  have "(0x80 :: int) = 2 ^ 7" by simp
  then show ?thesis by (simp only: bit_exp_iff) auto
qed

lemma low_bits: "0 \<le> n \<Longrightarrow> n < 2 ^ k \<Longrightarrow> bit (word_of_int n :: u8) i \<Longrightarrow> i < k"
  by (metis bit_take_bit_iff bit_word_of_int_iff take_bit_int_eq_self)

lemma lead_small:
  assumes "k \<le> 7" "0 \<le> n" "n < 2 ^ k" "2 ^ k dvd uint (h :: u8)"
  shows "uint (h OR word_of_int n) = uint h + n" "(h OR word_of_int n) AND mask k = word_of_int n"
proof -
  note b = low_bits [OF assms(2,3)]
  have h: "bit h i \<Longrightarrow> k \<le> i" for i
  proof (rule ccontr)
    assume bi: "bit h i" and "\<not> k \<le> i"
    then have i: "i < k" by simp
    have "take_bit k (uint h) = 0" using assms(4) by (simp add: take_bit_eq_mod)
    moreover have "bit (take_bit k (uint h)) i" using bi i using bit_imp_le_length [OF bi] by (simp add: bit_take_bit_iff bit_uint_iff)
    ultimately show False by simp
  qed
  have "h AND word_of_int n = 0" by (rule bit_eqI) (use b h in \<open>force simp: bit_and_iff\<close>)
  then have "uint h AND uint (word_of_int n :: u8) = 0" by (metis uint_and unsigned_0)
  then have "uint (h OR word_of_int n) = uint h + uint (word_of_int n :: u8)"
    by (simp add: unsigned_or_eq disjunctive_add_eq_or)
  moreover have "n < 2 ^ 8" using assms(1,3) power_increasing [of k 8 "2::int"] by simp
  ultimately show "uint (h OR word_of_int n) = uint h + n" using assms(2) by (simp add: uint_word_of_int)
  show "(h OR word_of_int n) AND mask k = word_of_int n"
    by (rule bit_eqI) (use b h in \<open>force simp: bit_and_iff bit_or_iff bit_mask_iff\<close>)
qed

lemma masks: "(0x1f :: u8) = mask 5" "(0x0f :: u8) = mask 4"
  by (simp_all add: mask_eq_exp_minus_1)

section \<open>Decoders\<close>

text \<open>\<^verbatim>\<open>data []byte; pos int\<close>, the state of the protobuf and MessagePack decoders.\<close>

record decoder =
  d_data :: "u8 list"
  d_pos :: int

abbreviation d_len :: "decoder \<Rightarrow> int" where
  "d_len d \<equiv> int (length (d_data d))"

definition NewDecoder :: "u8 list \<Rightarrow> decoder" where
  "NewDecoder bs = \<lparr>d_data = bs, d_pos = 0\<rparr>"

text \<open>\<^verbatim>\<open>d.pos += k\<close>\<close>

definition advance :: "int \<Rightarrow> decoder \<Rightarrow> decoder" where
  "advance k d = d\<lparr>d_pos := go_int (d_pos d + k)\<rparr>"

text \<open>\<^verbatim>\<open>d.data[i]\<close> and \<^verbatim>\<open>d.data[lo:hi]\<close>, None for a run-time panic.\<close>

definition byte_at :: "decoder \<Rightarrow> int \<Rightarrow> u8 option" where
  "byte_at d i = (if 0 \<le> i \<and> i < d_len d then Some (d_data d ! nat i) else None)"

definition bytes_at :: "decoder \<Rightarrow> int \<Rightarrow> int \<Rightarrow> u8 list option" where
  "bytes_at d lo hi =
     (if 0 \<le> lo \<and> lo \<le> hi \<and> hi \<le> d_len d then Some (take (nat hi - nat lo) (drop (nat lo) (d_data d))) else None)"

text \<open>The decoder that has read \<open>pre\<close> and has \<open>post\<close> before it.\<close>

definition at :: "u8 list \<Rightarrow> u8 list \<Rightarrow> decoder" where
  "at pre post = \<lparr>d_data = pre @ post, d_pos = int (length pre)\<rparr>"

lemma at_simps [simp]:
  "d_data (at pre post) = pre @ post" "d_pos (at pre post) = int (length pre)"
  by (simp_all add: at_def)

lemma not_at_end [simp]: "xs \<noteq> [] \<Longrightarrow> \<not> (int (length xs) + int k \<le> 0)"
  by (cases xs) auto

lemma NewDecoder_at: "NewDecoder bs = at [] bs"
  by (simp add: NewDecoder_def at_def)

text \<open>Byte strings that a 64-bit position can walk over without wrapping.\<close>

definition small :: "u8 list \<Rightarrow> bool" where
  "small bs \<longleftrightarrow> length bs < 2 ^ 62"

lemma small_short: "length bs \<le> 100 \<Longrightarrow> small bs"
  by (simp add: small_def)

lemma advance_at:
  "small (pre @ v @ post) \<Longrightarrow> k = int (length v) \<Longrightarrow> advance k (at pre (v @ post)) = at (pre @ v) post"
  by (simp add: advance_def at_def small_def in_int64_def)

lemma byte_at_at: "0 \<le> i \<Longrightarrow> byte_at (at pre post) (int (length pre) + i) =
    (if nat i < length post then Some (post ! nat i) else None)"
  by (auto simp: byte_at_def nth_append nat_add_distrib)

lemma byte_at_head [simp]: "byte_at (at pre (b # post)) (int (length pre)) = Some b"
  using byte_at_at [of 0 pre "b # post"] by simp

lemma bytes_at_at:
  "bytes_at (at pre (v @ post)) (int (length pre)) (int (length pre) + int (length v)) = Some v"
  by (auto simp: bytes_at_def nat_add_distrib)

section \<open>Scopes\<close>

text \<open>
  A scope is seen by the codecs as an allocator of byte slices: None is the nil scope, \<open>Some f\<close> a scope on
  which allocating n bytes panics when \<open>f n\<close> is some panic. What is returned are the bytes themselves.
\<close>

type_synonym byte_scope = "(int \<Rightarrow> panic option) option"

section \<open>Self-delimiting encodings\<close>

text \<open>A given number of values, one after the other.\<close>

fun dec_list :: "(decoder \<Rightarrow> decoder \<times> ('e, 'a) gocall) \<Rightarrow> nat \<Rightarrow> decoder \<Rightarrow> decoder \<times> ('e, 'a list) gocall" where
  "dec_list dec 0 d = (d, Ok [])"
| "dec_list dec (Suc n) d =
     (case dec d of
        (d', Ok v) \<Rightarrow>
          (case dec_list dec n d' of
             (d'', Ok vs) \<Rightarrow> (d'', Ok (v # vs)) | (d'', Err e) \<Rightarrow> (d'', Err e) | (d'', Panicked p) \<Rightarrow> (d'', Panicked p))
      | (d', Err e) \<Rightarrow> (d', Err e)
      | (d', Panicked p) \<Rightarrow> (d', Panicked p))"

text \<open>Decoding what was encoded, whatever stands before and after it, gives the value back and stops
  right behind it.\<close>

locale prefix_codec =
  fixes ok :: "'a \<Rightarrow> bool"
    and enc :: "'a \<Rightarrow> u8 list"
    and dec :: "decoder \<Rightarrow> decoder \<times> ('e, 'a) gocall"
  assumes dec_enc: "ok v \<Longrightarrow> small (pre @ enc v @ post) \<Longrightarrow> dec (at pre (enc v @ post)) = (at (pre @ enc v) post, Ok v)"
begin

lemma round_trip: "ok v \<Longrightarrow> small (enc v) \<Longrightarrow> snd (dec (NewDecoder (enc v))) = Ok v"
  using dec_enc [of v "[]" "[]"] by (simp add: NewDecoder_at)

text \<open>No encoding is a prefix of another one, and each value has one encoding.\<close>

lemma prefix_free:
  assumes "ok v" "ok w" "small (enc v @ p)" "enc v @ p = enc w @ q"
  shows "v = w \<and> p = q"
  using dec_enc [of v "[]" p] dec_enc [of w "[]" q] assms by (auto simp: at_def)

lemma dec_list_enc:
  "\<forall>v \<in> set vs. ok v \<Longrightarrow> small (pre @ concat (map enc vs) @ post) \<Longrightarrow>
     dec_list dec (length vs) (at pre (concat (map enc vs) @ post)) = (at (pre @ concat (map enc vs)) post, Ok vs)"
proof (induction vs arbitrary: pre)
  case (Cons v vs)
  then show ?case
    using dec_enc [of v pre "concat (map enc vs) @ post"] Cons.IH [of "pre @ enc v"] by simp
qed simp

end

section \<open>Readers\<close>

text \<open>An \<^verbatim>\<open>io.Reader\<close> that delivers the given bytes and then reports the end of the stream, read with
  \<^verbatim>\<open>io.ReadFull\<close>: the rest of the stream, and the bytes or the error the package documents.\<close>

definition ReadFull :: "nat \<Rightarrow> u8 list \<Rightarrow> u8 list \<times> (codec_error, u8 list) gocall" where
  "ReadFull n input =
     (if n \<le> length input then (drop n input, Ok (take n input))
      else ([], Err (if input = [] then EOF else UnexpectedEOF)))"

lemma ReadFull_append [simp]: "length v = n \<Longrightarrow> ReadFull n (v @ rest) = (rest, Ok v)"
  by (auto simp: ReadFull_def)

end
