(* ===== verification/Proto.thy ===== *)
theory Proto
  imports Bytes
begin

text \<open>
  The protobuf wire format of \<^verbatim>\<open>codec/proto.go\<close>: the encoder (a byte string that grows), the decoder (a
  byte slice and a position), tags, varints, zigzag, fixed and length-delimited fields, and skipping.
\<close>

section \<open>Encoder\<close>

datatype WireType = WireVarint | WireFixed64 | WireBytes | WireFixed32

fun wire_code :: "WireType \<Rightarrow> int" where
  "wire_code WireVarint = 0"
| "wire_code WireFixed64 = 1"
| "wire_code WireBytes = 2"
| "wire_code WireFixed32 = 5"

function appendVarint :: "u64 \<Rightarrow> u8 list" where
  "appendVarint v = (if v \<ge> 0x80 then (ucast v OR 0x80) # appendVarint (drop_bit 7 v) else [ucast v])"
  by auto
termination
proof (relation "measure unat")
  fix v :: u64 assume v: "v \<ge> 0x80"
  then have "128 \<le> unat v" by (simp add: word_le_nat_alt)
  then have "unat v div 2 ^ 7 < unat v" by simp
  then show "(drop_bit 7 v, v) \<in> measure unat" by (simp only: in_measure unat_drop_bit_div)
qed simp

declare appendVarint.simps [simp del]

definition encodeTag :: "int \<Rightarrow> WireType \<Rightarrow> u8 list" where
  "encodeTag fieldNum wt = appendVarint (word_of_int (go_int (fieldNum * 8) OR wire_code wt))"

definition EncodeVarint :: "int \<Rightarrow> u64 \<Rightarrow> u8 list" where
  "EncodeVarint fieldNum val = encodeTag fieldNum WireVarint @ appendVarint val"

text \<open>\<^verbatim>\<open>uint64((val << 1) ^ (val >> 63))\<close> on an \<^verbatim>\<open>int64\<close>, whose right shift is arithmetic.\<close>

definition zigzag :: "u64 \<Rightarrow> u64" where
  "zigzag val = push_bit 1 val XOR signed_drop_bit 63 val"

definition EncodeZigZag64 :: "int \<Rightarrow> u64 \<Rightarrow> u8 list" where
  "EncodeZigZag64 fieldNum val = EncodeVarint fieldNum (zigzag val)"

definition EncodeFixed32 :: "int \<Rightarrow> u32 \<Rightarrow> u8 list" where
  "EncodeFixed32 fieldNum val = encodeTag fieldNum WireFixed32 @ le_put 4 val"

definition EncodeFixed64 :: "int \<Rightarrow> u64 \<Rightarrow> u8 list" where
  "EncodeFixed64 fieldNum val = encodeTag fieldNum WireFixed64 @ le_put 8 val"

definition EncodeBytes :: "int \<Rightarrow> u8 list \<Rightarrow> u8 list" where
  "EncodeBytes fieldNum val = encodeTag fieldNum WireBytes @ appendVarint (of_nat (length val)) @ val"

definition EncodeString :: "int \<Rightarrow> u8 list \<Rightarrow> u8 list" where
  "EncodeString fieldNum val = encodeTag fieldNum WireBytes @ appendVarint (of_nat (length val)) @ val"

section \<open>Decoder\<close>

definition HasMore :: "decoder \<Rightarrow> bool" where
  "HasMore d \<longleftrightarrow> d_pos d < d_len d"

text \<open>The loop of \<^verbatim>\<open>DecodeVarint\<close>.\<close>

function varint_loop :: "decoder \<Rightarrow> u64 \<Rightarrow> nat \<Rightarrow> decoder \<times> (codec_error, u64) gocall" where
  "varint_loop d val shift =
     (if shift < 64
      then if d_pos d \<ge> d_len d then (d, Err UnexpectedEOF)
           else case byte_at d (d_pos d) of
                  None \<Rightarrow> (d, Panicked IndexOutOfRange)
                | Some b \<Rightarrow>
                    (let d' = advance 1 d;
                         val' = val OR push_bit shift (ucast (b AND 0x7F))
                     in if b AND 0x80 = 0 then (d', Ok val') else varint_loop d' val' (shift + 7))
      else (d, Err ErrMalformedProto))"
  by pat_completeness auto
termination by (relation "measure (\<lambda>(d, val, shift). 64 - shift)") auto

declare varint_loop.simps [simp del]

definition DecodeVarint :: "decoder \<Rightarrow> decoder \<times> (codec_error, u64) gocall" where
  "DecodeVarint d = varint_loop d 0 0"

text \<open>The wire type is an \<^verbatim>\<open>int\<close> in the source; the field number is the tag's upper bits.\<close>

definition NextField :: "decoder \<Rightarrow> decoder \<times> (codec_error, int \<times> int) gocall" where
  "NextField d =
     (if d_pos d \<ge> d_len d then (d, Err EOF)
      else case DecodeVarint d of
             (d', Panicked p) \<Rightarrow> (d', Panicked p)
           | (d', Err e) \<Rightarrow> (d', Err e)
           | (d', Ok tag) \<Rightarrow>
               (let wireType = sint (tag AND 0x07); fieldNum = sint (drop_bit 3 tag)
                in if fieldNum \<le> 0 then (d', Err ErrMalformedProto) else (d', Ok (fieldNum, wireType))))"

definition unzigzag :: "u64 \<Rightarrow> u64" where
  "unzigzag v = drop_bit 1 v XOR - (v AND 1)"

definition DecodeZigZag64 :: "decoder \<Rightarrow> decoder \<times> (codec_error, u64) gocall" where
  "DecodeZigZag64 d =
     (case DecodeVarint d of
        (d', Ok v) \<Rightarrow> (d', Ok (unzigzag v)) | (d', Err e) \<Rightarrow> (d', Err e) | (d', Panicked p) \<Rightarrow> (d', Panicked p))"

text \<open>\<^verbatim>\<open>binary.LittleEndian.Uint32(d.data[d.pos:])\<close>: the slice expression panics for a position outside.\<close>

definition DecodeFixed32 :: "decoder \<Rightarrow> decoder \<times> (codec_error, u32) gocall" where
  "DecodeFixed32 d =
     (if go_int (d_pos d + 4) > d_len d then (d, Err UnexpectedEOF)
      else case bytes_at d (d_pos d) (d_pos d + 4) of
             None \<Rightarrow> (d, Panicked SliceOutOfRange)
           | Some bs \<Rightarrow> (advance 4 d, Ok (le_get bs)))"

definition DecodeFixed64 :: "decoder \<Rightarrow> decoder \<times> (codec_error, u64) gocall" where
  "DecodeFixed64 d =
     (if go_int (d_pos d + 8) > d_len d then (d, Err UnexpectedEOF)
      else case bytes_at d (d_pos d) (d_pos d + 8) of
             None \<Rightarrow> (d, Panicked SliceOutOfRange)
           | Some bs \<Rightarrow> (advance 8 d, Ok (le_get bs)))"

text \<open>\<^verbatim>\<open>DecodeString\<close> and \<^verbatim>\<open>DecodeBytes\<close> read alike. Without a scope, or for an empty value, the copy
  is made on the heap; \<^verbatim>\<open>make\<close> and the string conversion of \<open>l\<close> existing bytes do not fail.\<close>

definition DecodeBytes :: "byte_scope \<Rightarrow> decoder \<Rightarrow> decoder \<times> (codec_error, u8 list) gocall" where
  "DecodeBytes scope d =
     (case DecodeVarint d of
        (d', Panicked p) \<Rightarrow> (d', Panicked p)
      | (d', Err e) \<Rightarrow> (d', Err e)
      | (d', Ok len) \<Rightarrow>
          (let l = sint len
           in if go_int (d_pos d' + l) > d_len d' then (d', Err UnexpectedEOF)
              else case bytes_at d' (d_pos d') (go_int (d_pos d' + l)) of
                     None \<Rightarrow> (d', Panicked SliceOutOfRange)
                   | Some raw \<Rightarrow>
                       (case scope of
                          Some alloc \<Rightarrow>
                            if l > 0 then (case alloc l of Some p \<Rightarrow> (advance l d', Panicked p) | None \<Rightarrow> (advance l d', Ok raw))
                            else (advance l d', Ok raw)
                        | None \<Rightarrow> (advance l d', Ok raw))))"

definition DecodeString :: "byte_scope \<Rightarrow> decoder \<Rightarrow> decoder \<times> (codec_error, u8 list) gocall" where
  "DecodeString scope d = DecodeBytes scope d"

definition skip_fixed :: "int \<Rightarrow> decoder \<Rightarrow> decoder \<times> (codec_error, unit) gocall" where
  "skip_fixed k d = (if go_int (d_pos d + k) > d_len d then (d, Err UnexpectedEOF) else (advance k d, Ok ()))"

definition SkipField :: "int \<Rightarrow> decoder \<Rightarrow> decoder \<times> (codec_error, unit) gocall" where
  "SkipField wireType d =
     (if wireType = 0 then
        (case DecodeVarint d of (d', Ok _) \<Rightarrow> (d', Ok ()) | (d', Err e) \<Rightarrow> (d', Err e) | (d', Panicked p) \<Rightarrow> (d', Panicked p))
      else if wireType = 1 then skip_fixed 8 d
      else if wireType = 2 then
        (case DecodeVarint d of
           (d', Panicked p) \<Rightarrow> (d', Panicked p)
         | (d', Err e) \<Rightarrow> (d', Err e)
         | (d', Ok len) \<Rightarrow> skip_fixed (sint len) d')
      else if wireType = 5 then skip_fixed 4 d
      else (d, Err ErrInvalidWire))"

section \<open>Varints\<close>

lemma mask_0x7F: "(0x7F :: u8) = mask 7"
  by (simp add: mask_eq_exp_minus_1)

lemma varint_byte:
  fixes v :: u64
  shows "ucast ((ucast v OR 0x80) AND (0x7F :: u8)) = take_bit 7 v" "(ucast v OR 0x80 :: u8) AND 0x80 \<noteq> 0"
proof -
  show "ucast ((ucast v OR 0x80) AND (0x7F :: u8)) = take_bit 7 v"
    unfolding mask_0x7F by (rule bit_eqI) (auto simp: bit_simps bit_0x80)
  have "bit ((ucast v OR 0x80 :: u8) AND 0x80) 7" by (simp add: bit_simps bit_0x80)
  then show "(ucast v OR 0x80 :: u8) AND 0x80 \<noteq> 0" by auto
qed

lemma varint_last:
  fixes v :: u64
  assumes "v < 0x80"
  shows "ucast ((ucast v :: u8) AND 0x7F) = v" "(ucast v :: u8) AND 0x80 = 0"
proof -
  have "take_bit 7 v = v"
    using assms by (intro unat_eqI) (simp only: unat_take_bit_mod, simp add: word_less_nat_alt)
  then have b: "bit v n \<Longrightarrow> n < 7" for n by (metis bit_take_bit_iff)
  show "ucast ((ucast v :: u8) AND 0x7F) = v"
    unfolding mask_0x7F by (rule bit_eqI) (auto simp: bit_simps dest: b)
  show "(ucast v :: u8) AND 0x80 = 0"
    by (rule bit_eqI) (auto simp: bit_simps bit_0x80 dest: b)
qed

lemma take_bit_or_push_bit: "take_bit 7 v OR push_bit 7 (drop_bit 7 v) = (v :: u64)"
proof (rule bit_eqI)
  fix n show "bit (take_bit 7 v OR push_bit 7 (drop_bit 7 v)) n = bit v n" if "possible_bit TYPE(64 word) n"
    using that by (cases "n < 7") (auto simp: bit_simps)
qed

lemma varint_loop_enc:
  assumes "small (pre @ appendVarint v @ post)" "shift < 64" "unat v < 2 ^ (64 - shift)"
  shows "varint_loop (at pre (appendVarint v @ post)) val shift =
    (at (pre @ appendVarint v) post, Ok (val OR push_bit shift v))"
  using assms
proof (induction v arbitrary: pre val shift rule: appendVarint.induct)
  case (1 v)
  show ?case
  proof (cases "v \<ge> 0x80")
    case True
    let ?b = "ucast v OR 0x80 :: u8" and ?v = "drop_bit 7 v"
    have av: "appendVarint v = ?b # appendVarint ?v" using True by (subst appendVarint.simps) simp
    have sm: "small ((pre @ [?b]) @ appendVarint ?v @ post)" using 1(2) by (simp add: av)
    have adv: "advance 1 (at pre (?b # appendVarint ?v @ post)) = at (pre @ [?b]) (appendVarint ?v @ post)"
      using advance_at [of pre "[?b]" "appendVarint ?v @ post" 1] sm by simp
    have ge: "128 \<le> unat v" using True by (simp add: word_le_nat_alt)
    have s7: "shift + 7 < 64"
    proof (rule ccontr)
      assume "\<not> ?thesis"
      then have "(2::nat) ^ (64 - shift) \<le> 2 ^ 7" by (intro power_increasing) auto
      with 1(4) ge show False by simp
    qed
    have "unat ?v < 2 ^ (64 - (shift + 7))"
    proof -
      have "(2::nat) ^ (64 - shift) = 2 ^ (64 - (shift + 7)) * 2 ^ 7"
      proof -
        have "64 - shift = (64 - (shift + 7)) + 7" using s7 by simp
        then show ?thesis by (metis power_add)
      qed
      then show ?thesis using 1(4) by (simp only: unat_drop_bit_div) (simp add: less_mult_imp_div_less)
    qed
    note IH = 1(1) [OF True sm s7 this, of "val OR push_bit shift (take_bit 7 v)"]
    have "push_bit shift (take_bit 7 v OR push_bit 7 ?v) = push_bit shift v"
      by (simp add: take_bit_or_push_bit)
    then have "push_bit shift (take_bit 7 v) OR push_bit (shift + 7) ?v = push_bit shift v"
      by (simp add: push_bit_or add.commute)
    with IH have "varint_loop (at (pre @ [?b]) (appendVarint ?v @ post)) (val OR push_bit shift (take_bit 7 v)) (shift + 7) =
      (at (pre @ ?b # appendVarint ?v) post, Ok (val OR push_bit shift v))"
      by (simp add: or.assoc)
    then show ?thesis
      unfolding av append_Cons
      by (subst varint_loop.simps) (use 1(3) in \<open>simp add: varint_byte adv Let_def\<close>)
  next
    case False
    then have v: "v < 0x80" by simp
    have av: "appendVarint v = [ucast v]" using False by (subst appendVarint.simps) simp
    have adv: "advance 1 (at pre (ucast v # post)) = at (pre @ [ucast v]) post"
      using advance_at [of pre "[ucast v]" post 1] 1(2) by (simp add: av)
    show ?thesis
      unfolding av append_Cons append_Nil
      by (subst varint_loop.simps) (use 1(3) in \<open>simp add: varint_last [OF v] adv Let_def\<close>)
  qed
qed

interpretation varint: prefix_codec "\<lambda>_. True" appendVarint DecodeVarint
proof
  fix v pre post assume "small (pre @ appendVarint v @ post)"
  then show "DecodeVarint (at pre (appendVarint v @ post)) = (at (pre @ appendVarint v) post, Ok v)"
    using varint_loop_enc [of pre v post 0 0] unsigned_less [of v, where ?'a = nat] by (simp add: DecodeVarint_def)
qed

lemma unzigzag_zigzag: "unzigzag (zigzag v) = v"
proof -
  have s: "signed_drop_bit 63 v = (if bit v 63 then - 1 else 0)"
    by (rule bit_eqI) (auto simp: bit_simps Suc_le_eq)
  have z: "bit (zigzag v) n \<longleftrightarrow> n < 64 \<and> ((0 < n \<and> bit v (n - 1)) \<noteq> bit v 63)" for n
    by (cases "bit v 63") (auto simp: zigzag_def s bit_xor_iff bit_not_iff bit_push_bit_iff bit_minus_1_iff Suc_le_eq
        simp del: push_bit_Suc push_bit_numeral dest: bit_imp_le_length)
  have a: "zigzag v AND 1 = (if bit v 63 then 1 else 0)"
    by (rule bit_eqI) (auto simp: bit_and_iff z bit_1_iff)
  show ?thesis
  proof (rule bit_eqI)
    fix n assume "possible_bit TYPE(64 word) n"
    then have "n < 64" by simp
    then show "bit (unzigzag (zigzag v)) n = bit v n"
      by (cases "n = 63") (auto simp: unzigzag_def a bit_xor_iff bit_drop_bit_eq z bit_minus_1_iff less_Suc_eq)
  qed
qed

interpretation zigzag64: prefix_codec "\<lambda>_. True" "\<lambda>v. appendVarint (zigzag v)" DecodeZigZag64
  by unfold_locales (simp add: DecodeZigZag64_def varint.dec_enc unzigzag_zigzag)

section \<open>Tags and payloads\<close>

definition tag_bytes :: "int \<times> int \<Rightarrow> u8 list" where
  "tag_bytes t = appendVarint (word_of_int (go_int (fst t * 8) OR snd t))"

lemma encodeTag_bytes: "encodeTag f wt = tag_bytes (f, wire_code wt)"
  by (simp add: encodeTag_def tag_bytes_def)

definition tag_ok :: "int \<times> int \<Rightarrow> bool" where
  "tag_ok t \<longleftrightarrow> 0 < fst t \<and> fst t < 2 ^ 60 \<and> 0 \<le> snd t \<and> snd t < 8"

lemma appendVarint_nonempty: "appendVarint v \<noteq> []"
  by (subst appendVarint.simps) simp

lemma tag_word:
  assumes "tag_ok (f, w)"
  shows "sint ((word_of_int (go_int (f * 8) OR w) :: u64) AND 7) = w"
    and "sint (drop_bit 3 (word_of_int (go_int (f * 8) OR w) :: u64)) = f"
proof -
  have b: "0 < f" "f < 2 ^ 60" "0 \<le> w" "w < 8" using assms by (auto simp: tag_ok_def)
  have g: "go_int (f * 8) = f * 8" using b by (intro go_int_nonneg) auto
  have "f * 8 OR w = f * 8 + w"
  proof -
    have "take_bit 3 w = w" using b by (simp add: take_bit_int_eq_self)
    then have B: "bit w n \<Longrightarrow> n < 3" for n by (metis bit_take_bit_iff)
    have "push_bit 3 f AND w = 0"
    proof (rule bit_eqI)
      show "bit (push_bit 3 f AND w) n = bit 0 n" for n using B [of n] by (auto simp: bit_simps)
    qed
    then show ?thesis using disjunctive_add_eq_or [of "push_bit 3 f" w] by (simp add: push_bit_eq_mult)
  qed
  then have o: "word_of_int (go_int (f * 8) OR w) = (word_of_int (f * 8 + w) :: u64)" by (simp only: g)
  have u: "unat (word_of_int (f * 8 + w) :: u64) = nat (f * 8 + w)"
    using b by (intro unat_word_of_int) auto
  have n: "nat (f * 8 + w) = nat f * 8 + nat w" using b by (simp add: nat_add_distrib nat_mult_distrib)
  have "unat ((word_of_int (f * 8 + w) :: u64) AND mask 3) = nat w"
    unfolding take_bit_eq_mask [symmetric] unat_take_bit_mod u n using b by (simp add: nat_less_iff)
  then have "unat ((word_of_int (f * 8 + w) :: u64) AND 7) = nat w" by (simp add: mask_eq_exp_minus_1)
  then show "sint ((word_of_int (go_int (f * 8) OR w) :: u64) AND 7) = w"
    unfolding o using b by (subst sint_small) auto
  have "nat (f * 8 + w) div 2 ^ 3 = nat f"
    unfolding n using b by (simp add: nat_less_iff)
  then have "unat (drop_bit 3 (word_of_int (f * 8 + w) :: u64)) = nat f"
    by (simp only: unat_drop_bit_div u)
  then show "sint (drop_bit 3 (word_of_int (go_int (f * 8) OR w) :: u64)) = f"
    unfolding o using b by (subst sint_small) auto
qed

interpretation tag: prefix_codec tag_ok tag_bytes NextField
proof
  fix t pre post assume ok: "tag_ok t" and sm: "small (pre @ tag_bytes t @ post)"
  obtain f w where t: "t = (f, w)" by (cases t)
  have "DecodeVarint (at pre (tag_bytes t @ post)) = (at (pre @ tag_bytes t) post, Ok (word_of_int (go_int (f * 8) OR w)))"
    using varint.dec_enc [where v = "word_of_int (go_int (f * 8) OR w)" and pre = pre and post = post] sm by (simp add: t tag_bytes_def)
  moreover have "tag_bytes t \<noteq> []" by (simp add: tag_bytes_def appendVarint_nonempty)
  ultimately show "NextField (at pre (tag_bytes t @ post)) = (at (pre @ tag_bytes t) post, Ok t)"
    using tag_word [of f w] ok by (simp add: NextField_def t Let_def tag_ok_def)
qed

lemma advance_pos:
  "small (pre @ v @ post) \<Longrightarrow> go_int (int (length pre) + int (length v)) = int (length pre) + int (length v)"
  by (simp add: small_def in_int64_def)

interpretation fixed32: prefix_codec "\<lambda>_. True" "le_put 4" DecodeFixed32
proof
  fix v :: u32 and pre post assume sm: "small (pre @ le_put 4 v @ post)"
  then show "DecodeFixed32 (at pre (le_put 4 v @ post)) = (at (pre @ le_put 4 v) post, Ok v)"
    using bytes_at_at [of pre "le_put 4 v" post] advance_at [OF sm, of 4] advance_pos [OF sm] le_get_put [of 4 v]
    by (simp add: DecodeFixed32_def)
qed

interpretation fixed64: prefix_codec "\<lambda>_. True" "le_put 8" DecodeFixed64
proof
  fix v :: u64 and pre post assume sm: "small (pre @ le_put 8 v @ post)"
  then show "DecodeFixed64 (at pre (le_put 8 v @ post)) = (at (pre @ le_put 8 v) post, Ok v)"
    using bytes_at_at [of pre "le_put 8 v" post] advance_at [OF sm, of 8] advance_pos [OF sm] le_get_put [of 8 v]
    by (simp add: DecodeFixed64_def)
qed

definition delimited :: "u8 list \<Rightarrow> u8 list" where
  "delimited bs = appendVarint (of_nat (length bs)) @ bs"

text \<open>The scope can hold a value of that length.\<close>

definition scope_fits :: "byte_scope \<Rightarrow> u8 list \<Rightarrow> bool" where
  "scope_fits scope bs \<longleftrightarrow> (\<forall>alloc. scope = Some alloc \<longrightarrow> bs \<noteq> [] \<longrightarrow> alloc (int (length bs)) = None)"

lemma sint_length: "small bs \<Longrightarrow> sint (of_nat (length bs) :: u64) = int (length bs)"
  by (simp add: small_def sint_small unat_word_of_nat)

lemma small_parts: "small (pre @ v @ post) \<Longrightarrow> small v"
  by (simp add: small_def)

interpretation bytes: prefix_codec "scope_fits scope" delimited "DecodeBytes scope" for scope
proof
  fix bs pre post assume ok: "scope_fits scope bs" and sm: "small (pre @ delimited bs @ post)"
  let ?l = "appendVarint (of_nat (length bs))"
  have sm1: "small (pre @ ?l @ bs @ post)" and sm2: "small ((pre @ ?l) @ bs @ post)" and sb: "small bs"
    using sm by (auto simp: delimited_def small_def)
  have v: "DecodeVarint (at pre (?l @ bs @ post)) = (at (pre @ ?l) (bs @ post), Ok (of_nat (length bs)))"
    using varint.dec_enc [where v = "of_nat (length bs)" and pre = pre and post = "bs @ post"] sm1 by simp
  show "DecodeBytes scope (at pre (delimited bs @ post)) = (at (pre @ delimited bs) post, Ok bs)"
  proof (cases "bs = []")
    case True
    show ?thesis
      using v advance_at [OF sm2] bytes_at_at [of "pre @ ?l" bs post] advance_pos [OF sm2]
      by (cases scope) (simp_all add: True DecodeBytes_def Let_def delimited_def)
  next
    case False
    show ?thesis
      using ok False advance_at [OF sm2] bytes_at_at [of "pre @ ?l" bs post] advance_pos [OF sm2]
      by (cases scope) (simp_all add: DecodeBytes_def Let_def delimited_def v sint_length [OF sb] scope_fits_def)
  qed
qed

section \<open>Messages\<close>

text \<open>A field as the encoder writes it. \<open>PSint\<close> is a zigzag field; on the wire it is a varint.\<close>

datatype pfield =
    PVarint int u64
  | PFixed64 int u64
  | PBytes int "u8 list"
  | PFixed32 int u32

fun encode_field :: "pfield \<Rightarrow> u8 list" where
  "encode_field (PVarint f v) = EncodeVarint f v"
| "encode_field (PFixed64 f v) = EncodeFixed64 f v"
| "encode_field (PBytes f v) = EncodeBytes f v"
| "encode_field (PFixed32 f v) = EncodeFixed32 f v"

fun field_num :: "pfield \<Rightarrow> int" where
  "field_num (PVarint f v) = f" | "field_num (PFixed64 f v) = f" | "field_num (PBytes f v) = f" | "field_num (PFixed32 f v) = f"

fun field_wire :: "pfield \<Rightarrow> int" where
  "field_wire (PVarint f v) = 0" | "field_wire (PFixed64 f v) = 1" | "field_wire (PBytes f v) = 2" | "field_wire (PFixed32 f v) = 5"

fun payload :: "pfield \<Rightarrow> u8 list" where
  "payload (PVarint f v) = appendVarint v"
| "payload (PFixed64 f v) = le_put 8 v"
| "payload (PBytes f v) = delimited v"
| "payload (PFixed32 f v) = le_put 4 v"

lemma encode_field_eq: "encode_field x = tag_bytes (field_num x, field_wire x) @ payload x"
  by (cases x) (simp_all add: EncodeVarint_def EncodeFixed64_def EncodeBytes_def EncodeFixed32_def encodeTag_bytes delimited_def)

text \<open>What every client of the decoder does: read a tag, then the payload its wire type announces.\<close>

fun map_ok :: "('a \<Rightarrow> 'b) \<Rightarrow> decoder \<times> ('e, 'a) gocall \<Rightarrow> decoder \<times> ('e, 'b) gocall" where
  "map_ok g (d, Ok v) = (d, Ok (g v))" | "map_ok g (d, Err e) = (d, Err e)" | "map_ok g (d, Panicked p) = (d, Panicked p)"

definition decode_field :: "byte_scope \<Rightarrow> decoder \<Rightarrow> decoder \<times> (codec_error, pfield) gocall" where
  "decode_field scope d =
     (case NextField d of
        (d', Ok (f, w)) \<Rightarrow>
          if w = 0 then map_ok (PVarint f) (DecodeVarint d')
          else if w = 1 then map_ok (PFixed64 f) (DecodeFixed64 d')
          else if w = 2 then map_ok (PBytes f) (DecodeBytes scope d')
          else if w = 5 then map_ok (PFixed32 f) (DecodeFixed32 d')
          else (d', Err ErrInvalidWire)
      | (d', Err e) \<Rightarrow> (d', Err e)
      | (d', Panicked p) \<Rightarrow> (d', Panicked p))"

fun field_ok :: "byte_scope \<Rightarrow> pfield \<Rightarrow> bool" where
  "field_ok scope (PBytes f v) = (0 < f \<and> f < 2 ^ 60 \<and> scope_fits scope v)"
| "field_ok scope x = (0 < field_num x \<and> field_num x < 2 ^ 60)"

lemma field_tag_ok: "field_ok scope x \<Longrightarrow> tag_ok (field_num x, field_wire x)"
  by (cases x) (auto simp: tag_ok_def)

lemma NextField_field:
  assumes "field_ok scope x" "small (pre @ encode_field x @ post)"
  shows "NextField (at pre (encode_field x @ post)) =
    (at (pre @ tag_bytes (field_num x, field_wire x)) (payload x @ post), Ok (field_num x, field_wire x))"
  using tag.dec_enc [OF field_tag_ok [OF assms(1)], of pre "payload x @ post"] assms(2) by (simp add: encode_field_eq)

interpretation field: prefix_codec "field_ok scope" encode_field "decode_field scope" for scope
proof
  fix x pre post assume ok: "field_ok scope x" and sm: "small (pre @ encode_field x @ post)"
  let ?t = "tag_bytes (field_num x, field_wire x)"
  have sm': "small ((pre @ ?t) @ payload x @ post)" using sm by (simp add: encode_field_eq)
  show "decode_field scope (at pre (encode_field x @ post)) = (at (pre @ encode_field x) post, Ok x)"
    using ok sm' NextField_field [OF ok sm]
    by (cases x) (simp_all add: decode_field_def encode_field_eq varint.dec_enc fixed64.dec_enc fixed32.dec_enc bytes.dec_enc)
qed

text \<open>The client's loop over a message, while \<^verbatim>\<open>HasMore\<close>; the fuel bounds the number of fields.\<close>

fun decode_message :: "nat \<Rightarrow> byte_scope \<Rightarrow> decoder \<Rightarrow> (codec_error, pfield list) gocall" where
  "decode_message n scope d =
     (if \<not> HasMore d then Ok []
      else case n of
             0 \<Rightarrow> Err ErrMalformedProto
           | Suc n' \<Rightarrow>
               (case decode_field scope d of
                  (d', Ok x) \<Rightarrow>
                    (case decode_message n' scope d' of
                       Ok xs \<Rightarrow> Ok (x # xs) | Err e \<Rightarrow> Err e | Panicked p \<Rightarrow> Panicked p)
                | (d', Err e) \<Rightarrow> Err e
                | (d', Panicked p) \<Rightarrow> Panicked p))"

declare decode_message.simps [simp del]

definition encode_message :: "pfield list \<Rightarrow> u8 list" where
  "encode_message xs = concat (map encode_field xs)"

lemma encode_field_nonempty: "encode_field x \<noteq> []"
  by (simp add: encode_field_eq tag_bytes_def appendVarint_nonempty)

lemma decode_message_enc:
  "\<forall>x \<in> set xs. field_ok scope x \<Longrightarrow> small (pre @ encode_message xs) \<Longrightarrow> length xs \<le> n \<Longrightarrow>
     decode_message n scope (at pre (encode_message xs)) = Ok xs"
proof (induction xs arbitrary: pre n)
  case Nil
  then show ?case by (subst decode_message.simps) (simp add: HasMore_def encode_message_def)
next
  case (Cons x xs)
  obtain n' where n: "n = Suc n'" using Cons.prems(3) by (cases n) auto
  have "decode_field scope (at pre (encode_field x @ encode_message xs)) = (at (pre @ encode_field x) (encode_message xs), Ok x)"
    using field.dec_enc [of scope x pre "encode_message xs"] Cons.prems by (simp add: encode_message_def)
  moreover have "decode_message n' scope (at (pre @ encode_field x) (encode_message xs)) = Ok xs"
    using Cons.IH [of "pre @ encode_field x" n'] Cons.prems n by (simp add: encode_message_def)
  moreover have "HasMore (at pre (encode_field x @ encode_message xs))"
    using encode_field_nonempty [of x] by (cases "encode_field x") (simp_all add: HasMore_def)
  moreover have "encode_message (x # xs) = encode_field x @ encode_message xs" by (simp add: encode_message_def)
  ultimately show ?case
    by (subst decode_message.simps) (simp add: n)
qed

lemma length_message: "length xs \<le> length (encode_message xs)"
proof (induction xs)
  case (Cons x xs)
  then show ?case using encode_field_nonempty [of x] by (cases "encode_field x") (auto simp: encode_message_def)
qed simp

lemma SkipField_field:
  assumes "field_ok scope x" "small (pre @ tag_bytes t @ payload x @ post)"
  shows "SkipField (field_wire x) (at (pre @ tag_bytes t) (payload x @ post)) = (at (pre @ tag_bytes t @ payload x) post, Ok ())"
proof -
  have sm: "small ((pre @ tag_bytes t) @ payload x @ post)" using assms(2) by simp
  show ?thesis
  proof (cases x)
    case (PBytes f v)
    let ?l = "appendVarint (of_nat (length v))"
    have sm2: "small ((pre @ tag_bytes t @ ?l) @ v @ post)" and sv: "small v"
      using sm by (auto simp: PBytes delimited_def small_def)
    have "DecodeVarint (at (pre @ tag_bytes t) (?l @ v @ post)) = (at (pre @ tag_bytes t @ ?l) (v @ post), Ok (of_nat (length v)))"
      using varint.dec_enc [where v = "of_nat (length v)" and pre = "pre @ tag_bytes t" and post = "v @ post"] sm by (simp add: PBytes delimited_def)
    then show ?thesis
      using advance_at [OF sm2] advance_pos [OF sm2]
      by (simp add: PBytes SkipField_def skip_fixed_def delimited_def sint_length [OF sv])
  qed (use sm advance_at [OF sm] advance_pos [OF sm] in \<open>simp_all add: SkipField_def skip_fixed_def varint.dec_enc\<close>)
qed

end
