(* ===== verification/Proto_Spec.thy ===== *)
theory Proto_Spec
  imports Proto
begin

text \<open>
  What the protobuf codec promises: messages come back as they were written, skipping a field is the
  same as reading it and dropping the value, the exact outcome of reading a varint and of a
  length-delimited field for every input, and the input on which skipping runs in a circle.
\<close>

section \<open>Round trips\<close>

text \<open>C17. Decoding an encoded message, field by field with \<^verbatim>\<open>NextField\<close> and the decoder of the wire type
  it returns, gives the fields back in order, whatever the scope: varint, fixed-width and
  length-delimited fields with field numbers below 2^60 and values the scope can hold. As many rounds as
  there are fields are enough.\<close>

theorem message_round_trip:
  assumes "\<forall>x \<in> set xs. field_ok scope x" "small (encode_message xs)" "length xs \<le> n"
  shows "decode_message n scope (NewDecoder (encode_message xs)) = Ok xs"
  using decode_message_enc [of xs scope "[]" n] assms by (simp add: NewDecoder_at)

definition demo_message :: "pfield list" where
  "demo_message = [PVarint 1 300, PBytes 2 [0x68, 0x69], PFixed32 3 7, PBytes 4 [], PFixed64 16 1]"

definition demo_scope :: byte_scope where
  "demo_scope = Some (\<lambda>n. if n \<le> 64 then None else Some (PanicMsg ''out of memory''))"

lemma message_round_trip_witness:
  "decode_message 5 demo_scope (NewDecoder (encode_message demo_message)) = Ok demo_message"
proof (rule message_round_trip)
  show "\<forall>x \<in> set demo_message. field_ok demo_scope x"
    by (simp add: demo_message_def demo_scope_def scope_fits_def)
  show "small (encode_message demo_message)"
    by (rule small_short) code_simp
  show "length demo_message \<le> 5" by (simp add: demo_message_def)
qed



section \<open>Every input\<close>

text \<open>The number of leading bytes with the continuation bit.\<close>

definition cont_run :: "u8 list \<Rightarrow> nat" where
  "cont_run bs = length (takeWhile (\<lambda>b. b AND 0x80 \<noteq> 0) bs)"

lemma cont_run_simps [simp]:
  "cont_run [] = 0" "cont_run (b # bs) = (if b AND 0x80 = 0 then 0 else Suc (cont_run bs))"
  by (simp_all add: cont_run_def)

lemma cont_run_le: "cont_run bs \<le> length bs"
  by (simp add: cont_run_def length_takeWhile_le)

text \<open>The value of a varint: seven bits of each byte, the lowest group first; bits beyond 64 fall off.\<close>

fun varint_word :: "u8 list \<Rightarrow> u64" where
  "varint_word [] = 0"
| "varint_word (b # bs) = ucast (b AND 0x7F) OR push_bit 7 (varint_word bs)"

text \<open>The outcome of the loop, \<open>shift div 7\<close> bytes into a varint.\<close>

lemma varint_loop_outcome:
  assumes "small (pre @ post)"
  shows "shift \<le> 70 \<Longrightarrow> 7 dvd shift \<Longrightarrow>
    varint_loop (at pre post) val shift =
      (let n = 10 - shift div 7; k = cont_run post in
         if n \<le> k then (at (pre @ take n post) (drop n post), Err ErrMalformedProto)
         else if length post \<le> k then (at (pre @ post) [], Err UnexpectedEOF)
         else (at (pre @ take (Suc k) post) (drop (Suc k) post), Ok (val OR push_bit shift (varint_word (take (Suc k) post)))))"
  using assms
proof (induction post arbitrary: pre val shift)
  case Nil
  then show ?case by (subst varint_loop.simps) (auto simp: Let_def elim!: dvdE)
next
  case (Cons b post)
  show ?case
  proof (cases "shift < 64")
    case False
    then have "shift = 70" using Cons.prems by (auto elim!: dvdE)
    then show ?thesis by (subst varint_loop.simps) (simp add: Let_def)
  next
    case True
    have adv: "advance 1 (at pre (b # post)) = at (pre @ [b]) post"
      using advance_at [of pre "[b]" post 1] Cons.prems(3) by simp
    have m: "10 - shift div 7 = Suc (10 - (shift + 7) div 7)" using True Cons.prems(2) by (auto elim!: dvdE)
    show ?thesis
    proof (cases "b AND 0x80 = 0")
      case b: True
      show ?thesis using True by (subst varint_loop.simps) (simp add: Let_def m b adv)
    next
      case b: False
      have "varint_loop (at pre (b # post)) val shift =
          varint_loop (at (pre @ [b]) post) (val OR push_bit shift (ucast (b AND 0x7F))) (shift + 7)"
        using True b by (subst varint_loop.simps) (simp add: Let_def adv)
      moreover have "push_bit shift (varint_word (b # bs)) =
          push_bit shift (ucast (b AND 0x7F)) OR push_bit (shift + 7) (varint_word bs)" for bs
        by (simp add: push_bit_or push_bit_push_bit del: push_bit_numeral)
      moreover have "shift + 7 \<le> 70" "7 dvd shift + 7" "small ((pre @ [b]) @ post)"
        using True Cons.prems by (auto elim!: dvdE)
      ultimately show ?thesis
        using Cons.IH [of "shift + 7" "pre @ [b]" "val OR push_bit shift (ucast (b AND 0x7F))"] b
        by (simp add: Let_def m or.assoc del: varint_word.simps)
    qed
  qed
qed

text \<open>Reading a varint never panics and ends after at most ten bytes: ten continuation bytes are
  malformed, a sequence cut short is an unexpected end, and otherwise the result is the value of the bytes
  up to the first without the continuation bit, behind which the decoder stands.\<close>

lemma DecodeVarint_outcome:
  assumes "small (pre @ post)"
  shows "DecodeVarint (at pre post) =
    (let k = cont_run post in
       if 10 \<le> k then (at (pre @ take 10 post) (drop 10 post), Err ErrMalformedProto)
       else if length post \<le> k then (at (pre @ post) [], Err UnexpectedEOF)
       else (at (pre @ take (Suc k) post) (drop (Suc k) post), Ok (varint_word (take (Suc k) post))))"
  using varint_loop_outcome [OF assms, of 0 0] by (simp add: DecodeVarint_def Let_def cong: if_cong)

lemma DecodeVarint_outcome_witness:
  "DecodeVarint (at [] [0x96, 0x01, 0x05]) = (at [0x96, 0x01] [0x05], Ok (varint_word [0x96, 0x01]))"
  by (subst DecodeVarint_outcome) (simp_all add: small_short Let_def)

lemma sint_unat: "sint (w :: u64) = (if unat w < 2 ^ 63 then int (unat w) else int (unat w) - 2 ^ 64)"
proof (cases "unat w < 2 ^ 63")
  case False
  define n where "n = unat w"
  have "sint w = go_int (uint w)" by (simp add: go_int_def sint_uint)
  moreover have "uint w = int n" by (simp only: uint_nat n_def)
  moreover have "n < 2 ^ 64" using unsigned_less [of w, where ?'a = nat] by (simp add: n_def)
  moreover have "\<not> n < 2 ^ 63" using False by (simp add: n_def)
  ultimately show ?thesis unfolding n_def [symmetric] using go_int_wrap [of "int n"] by simp
qed (simp add: sint_small)

text \<open>The exact outcome of reading a length-delimited field, for every input. A length that reaches past
  the end is reported as an unexpected end, unless the sum of position and length does not fit a signed
  64-bit integer: then the bounds check passes and the slice expression panics.\<close>

lemma DecodeBytes_outcome:
  assumes "small (pre @ post)" "cont_run post < 10" "cont_run post < length post"
  shows "DecodeBytes scope (at pre post) =
    (let v = take (Suc (cont_run post)) post; rest = drop (Suc (cont_run post)) post;
         len = unat (varint_word v); here = at (pre @ v) rest;
         there = at (pre @ v @ take len rest) (drop len rest)
     in if 2 ^ 63 \<le> length pre + length v + len then (here, Panicked SliceOutOfRange)
        else if length rest < len then (here, Err UnexpectedEOF)
        else case scope of
               None \<Rightarrow> (there, Ok (take len rest))
             | Some alloc \<Rightarrow>
                 (case (if 0 < len then alloc (int len) else None) of
                    None \<Rightarrow> (there, Ok (take len rest)) | Some p \<Rightarrow> (there, Panicked p)))"
proof -
  define v where "v = take (Suc (cont_run post)) post"
  define rest where "rest = drop (Suc (cont_run post)) post"
  define len where "len = unat (varint_word v)"
  let ?d = "at (pre @ v) rest" and ?p = "length pre + length v"
  have dv: "DecodeVarint (at pre post) = (?d, Ok (varint_word v))"
    using DecodeVarint_outcome [OF assms(1)] assms(2,3) by (simp add: v_def rest_def Let_def)
  have sm: "small ((pre @ v) @ rest)" and pos: "int (length pre) + int (length v) = int ?p" and p: "?p < 2 ^ 62"
    using assms(1) by (simp_all add: v_def rest_def small_def)
  have len64: "len < 2 ^ 64" using unsigned_less [of "varint_word v", where ?'a = nat] by (simp add: len_def)
  show ?thesis
  proof (cases "2 ^ 63 \<le> ?p + len")
    case True
    have "go_int (int ?p + sint (varint_word v)) < int ?p"
    proof (cases "len < 2 ^ 63")
      case l: True
      then have "go_int (int ?p + sint (varint_word v)) = int ?p + int len - 2 ^ 64"
        using go_int_wrap [of "int ?p + int len"] True p by (simp add: sint_unat len_def [symmetric])
      then show ?thesis using p l by simp
    next
      case l: False
      then have "go_int (int ?p + sint (varint_word v)) = int ?p + int len - 2 ^ 64"
        using len64 p by (simp add: sint_unat len_def [symmetric] in_int64_def)
      then show ?thesis using p l len64 by simp
    qed
    then have "\<not> go_int (int ?p + sint (varint_word v)) > d_len ?d"
        "bytes_at ?d (int ?p) (go_int (int ?p + sint (varint_word v))) = None"
      by (simp_all add: bytes_at_def)
    then have "DecodeBytes scope (at pre post) = (?d, Panicked SliceOutOfRange)"
      unfolding DecodeBytes_def dv by (simp add: Let_def)
    then show ?thesis
      unfolding Let_def v_def [symmetric] rest_def [symmetric] len_def [symmetric] using True by simp
  next
    case False
    then have s: "sint (varint_word v) = int len" using p by (simp add: sint_unat len_def [symmetric])
    have g: "go_int (int (length pre) + int (length v) + int len) = int (length pre) + int (length v) + int len"
      using False by (intro go_int_nonneg) auto
    show ?thesis
    proof (cases "length rest < len")
      case True
      then show ?thesis
        using False unfolding DecodeBytes_def dv v_def [symmetric] rest_def [symmetric] len_def [symmetric]
        by (simp add: Let_def s g len_def [symmetric] v_def [symmetric] rest_def [symmetric])
    next
      case l: False
      let ?t = "take len rest"
      have r: "rest = ?t @ drop len rest" "int len = int (length ?t)" using l by simp_all
      have b: "bytes_at ?d (int ?p) (int ?p + int len) = Some ?t"
        using bytes_at_at [of "pre @ v" ?t "drop len rest"] r by simp
      have a: "advance (int len) ?d = at (pre @ v @ ?t) (drop len rest)"
        using advance_at [of "pre @ v" ?t "drop len rest" "int len"] sm r by simp
      have there: "(case if 0 < len then alloc (int len) else None of None \<Rightarrow> r | Some p \<Rightarrow> q p) =
          (if 0 < int len then case alloc (int len) of Some p \<Rightarrow> q p | None \<Rightarrow> r else r)" for alloc :: "int \<Rightarrow> panic option"
          and r :: "decoder \<times> (codec_error, u8 list) gocall" and q
        by simp
      show ?thesis
        unfolding DecodeBytes_def dv Let_def v_def [symmetric] rest_def [symmetric] len_def [symmetric] there
        using False l b a by (cases scope) (simp_all only: s prod.case gocall.case at_simps, simp_all add: g split: option.split)
    qed
  qed
qed

text \<open>A field of two bytes, and one whose announced length is 2^63 - 1.\<close>

lemma DecodeBytes_outcome_witness:
  "DecodeBytes None (at [0x12] [0x02, 0x68, 0x69, 0x08]) = (at [0x12, 0x02, 0x68, 0x69] [0x08], Ok [0x68, 0x69]) \<and>
   DecodeBytes None (at [0x12] [0xFF, 0xFF, 0xFF, 0xFF, 0xFF, 0xFF, 0xFF, 0xFF, 0x7F, 0x08]) =
     (at [0x12, 0xFF, 0xFF, 0xFF, 0xFF, 0xFF, 0xFF, 0xFF, 0xFF, 0x7F] [0x08], Panicked SliceOutOfRange)"
proof -
  have w: "(\<forall>bs. bs = [0xFF, 0xFF, 0xFF, 0xFF, 0xFF, 0xFF, 0xFF, 0xFF, 0x7F] \<longrightarrow> varint_word bs = 0x7FFFFFFFFFFFFFFF) \<and> varint_word [2] = 2"
    by simp
  show ?thesis
    using w by (subst (1 2) DecodeBytes_outcome) (simp_all add: small_short Let_def del: varint_word.simps)
qed

text \<open>Skipping can run in a circle: this message of eleven bytes is one length-delimited field whose
  length, read as a signed integer, is -11; skipping it succeeds and leaves the decoder where it started, so
  that a client that skips what it does not know, as long as there is more, never returns.\<close>

lemma SkipField_circle:
  "let d = NewDecoder [0x0A, 0xF5, 0xFF, 0xFF, 0xFF, 0xFF, 0xFF, 0xFF, 0xFF, 0xFF, 0x01] in
     HasMore d \<and> (case NextField d of (d', Ok (f, w)) \<Rightarrow> f = 1 \<and> SkipField w d' = (d, Ok ()) | _ \<Rightarrow> False)"
  by code_simp

lemma uint_not: "uint (NOT (x :: u64)) = 2 ^ 64 - 1 - uint x"
proof -
  have "uint (NOT x) = (- uint x - 1) mod 2 ^ 64"
    by (simp only: unsigned_not_eq take_bit_eq_mod not_int_def) simp
  also have "\<dots> = (- uint x - 1 + 2 ^ 64) mod 2 ^ 64" by (rule mod_add_self2 [symmetric])
  also have "\<dots> = - uint x - 1 + 2 ^ 64"
  proof (rule mod_pos_pos_trivial)
    show "0 \<le> - uint x - 1 + 2 ^ 64" using uint_lt2p [of x] by simp
    show "- uint x - 1 + 2 ^ 64 < 2 ^ 64" using uint_ge_0 [of x] by linarith
  qed
  finally show ?thesis by simp
qed

text \<open>Zigzag encoding interleaves the signs, so that integers of small magnitude get small codes, and
  decoding inverts it on every 64-bit integer.\<close>

lemma zigzag_codes:
  fixes v :: u64
  shows "uint (zigzag v) = (if 0 \<le> sint v then 2 * sint v else - 2 * sint v - 1) \<and> unzigzag (zigzag v) = v"
proof -
  define n where "n = unat v"
  have n: "n < 2 ^ 64" using unsigned_less [of v, where ?'a = nat] by (simp add: n_def)
  have neg: "bit v 63 \<longleftrightarrow> sint v < 0" using bit_last_iff [of v] by simp
  have s: "sint v = (if n < 2 ^ 63 then int n else int n - 2 ^ 64)" by (simp add: sint_unat n_def)
  have p: "uint (push_bit 1 v) = int (n * 2 mod 2 ^ 64)"
    by (simp only: uint_nat unat_push_bit_mod) (simp add: n_def)
  have "uint (zigzag v) = (if 0 \<le> sint v then 2 * sint v else - 2 * sint v - 1)"
  proof (cases "bit v 63")
    case True
    then have "signed_drop_bit 63 v = - 1" by (intro bit_eqI) (auto simp: bit_simps Suc_le_eq)
    then have "zigzag v = NOT (push_bit 1 v)" by (simp add: zigzag_def)
    moreover have "uint (NOT (push_bit 1 v)) = 2 ^ 64 - 1 - uint (push_bit 1 v)" by (rule uint_not)
    moreover have "n * 2 mod 2 ^ 64 = n * 2 - 2 ^ 64" "\<not> n < 2 ^ 63"
      using True neg s n by (auto simp: mod_if split: if_splits)
    ultimately show ?thesis using p s n by (simp add: of_nat_diff)
  next
    case False
    then have "signed_drop_bit 63 v = 0" by (intro bit_eqI) (auto simp: bit_simps Suc_le_eq)
    then have "zigzag v = push_bit 1 v" by (simp add: zigzag_def)
    moreover have "n < 2 ^ 63" using False neg s n by (auto split: if_splits)
    ultimately show ?thesis using p s by simp
  qed
  then show ?thesis by (simp add: unzigzag_zigzag)
qed

end
