(* ===== verification/MsgPack.thy ===== *)
theory MsgPack
  imports Bytes
begin

text \<open>
  MessagePack, \<^verbatim>\<open>codec/msgpack.go\<close>: the decoder methods, each with its dispatch on the first byte and its
  bounds checks, and the encoder methods, each as the bytes it appends.
\<close>

section \<open>Decoder\<close>

definition Remaining :: "decoder \<Rightarrow> int" where
  "Remaining d = go_int (d_len d - d_pos d)"

text \<open>What every method starts with: the end of the data, or the byte at the position.\<close>

definition with_lead :: "decoder \<Rightarrow> (u8 \<Rightarrow> decoder \<times> (codec_error, 'a) gocall) \<Rightarrow> decoder \<times> (codec_error, 'a) gocall" where
  "with_lead d f =
     (if d_pos d \<ge> d_len d then (d, Err EOF)
      else case byte_at d (d_pos d) of None \<Rightarrow> (d, Panicked IndexOutOfRange) | Some b \<Rightarrow> f b)"

text \<open>The k - 1 bytes behind the first one: the bounds check on k bytes, the bytes, the new position.\<close>

definition tail_field :: "int \<Rightarrow> decoder \<Rightarrow> decoder \<times> (codec_error, u8 list) gocall" where
  "tail_field k d =
     (if go_int (d_pos d + k) > d_len d then (d, Err UnexpectedEOF)
      else case bytes_at d (d_pos d + 1) (d_pos d + k) of
             None \<Rightarrow> (d, Panicked SliceOutOfRange)
           | Some bs \<Rightarrow> (advance k d, Ok bs))"

fun map_result :: "('a \<Rightarrow> 'b) \<Rightarrow> decoder \<times> ('e, 'a) gocall \<Rightarrow> decoder \<times> ('e, 'b) gocall" where
  "map_result g (d, Ok v) = (d, Ok (g v))"
| "map_result g (d, Err e) = (d, Err e)"
| "map_result g (d, Panicked p) = (d, Panicked p)"

definition DecodeNil :: "decoder \<Rightarrow> decoder \<times> (codec_error, unit) gocall" where
  "DecodeNil d = with_lead d (\<lambda>b. if b \<noteq> 0xc0 then (d, Err ErrTypeMismatch) else (advance 1 d, Ok ()))"

definition DecodeBool :: "decoder \<Rightarrow> decoder \<times> (codec_error, bool) gocall" where
  "DecodeBool d = with_lead d (\<lambda>b.
     if b = 0xc2 then (advance 1 d, Ok False)
     else if b = 0xc3 then (advance 1 d, Ok True)
     else (d, Err ErrTypeMismatch))"

definition DecodeInt :: "decoder \<Rightarrow> decoder \<times> (codec_error, int) gocall" where
  "DecodeInt d = with_lead d (\<lambda>b.
     if b \<le> 0x7f then (advance 1 d, Ok (uint b))
     else if b \<ge> 0xe0 then (advance 1 d, Ok (sint b))
     else if b = 0xcc then map_result (\<lambda>bs. uint (be_get bs :: u8)) (tail_field 2 d)
     else if b = 0xcd then map_result (\<lambda>bs. uint (be_get bs :: u16)) (tail_field 3 d)
     else if b = 0xce then map_result (\<lambda>bs. uint (be_get bs :: u32)) (tail_field 5 d)
     else if b = 0xcf then map_result (\<lambda>bs. sint (be_get bs :: u64)) (tail_field 9 d)
     else if b = 0xd0 then map_result (\<lambda>bs. sint (be_get bs :: u8)) (tail_field 2 d)
     else if b = 0xd1 then map_result (\<lambda>bs. sint (be_get bs :: u16)) (tail_field 3 d)
     else if b = 0xd2 then map_result (\<lambda>bs. sint (be_get bs :: u32)) (tail_field 5 d)
     else if b = 0xd3 then map_result (\<lambda>bs. sint (be_get bs :: u64)) (tail_field 9 d)
     else (d, Err ErrTypeMismatch))"

text \<open>Floating-point numbers are their bit patterns; a \<^verbatim>\<open>float32\<close> converts to \<^verbatim>\<open>float64\<close> without loss.\<close>

datatype msg_float = Float32Bits u32 | Float64Bits u64

definition DecodeFloat64 :: "decoder \<Rightarrow> decoder \<times> (codec_error, msg_float) gocall" where
  "DecodeFloat64 d = with_lead d (\<lambda>b.
     if b = 0xca then map_result (\<lambda>bs. Float32Bits (be_get bs)) (tail_field 5 d)
     else if b = 0xcb then map_result (\<lambda>bs. Float64Bits (be_get bs)) (tail_field 9 d)
     else (d, Err ErrTypeMismatch))"

text \<open>The length of a string or of binary data, read from its header.\<close>

definition str_header :: "decoder \<Rightarrow> decoder \<times> (codec_error, int) gocall" where
  "str_header d = with_lead d (\<lambda>b.
     if b \<ge> 0xa0 \<and> b \<le> 0xbf then (advance 1 d, Ok (uint (b AND 0x1f)))
     else if b = 0xd9 then map_result (\<lambda>bs. uint (be_get bs :: u8)) (tail_field 2 d)
     else if b = 0xda then map_result (\<lambda>bs. uint (be_get bs :: u16)) (tail_field 3 d)
     else if b = 0xdb then map_result (\<lambda>bs. uint (be_get bs :: u32)) (tail_field 5 d)
     else (d, Err ErrTypeMismatch))"

definition bin_header :: "decoder \<Rightarrow> decoder \<times> (codec_error, int) gocall" where
  "bin_header d = with_lead d (\<lambda>b.
     if b = 0xc4 then map_result (\<lambda>bs. uint (be_get bs :: u8)) (tail_field 2 d)
     else if b = 0xc5 then map_result (\<lambda>bs. uint (be_get bs :: u16)) (tail_field 3 d)
     else if b = 0xc6 then map_result (\<lambda>bs. uint (be_get bs :: u32)) (tail_field 5 d)
     else (d, Err ErrTypeMismatch))"

text \<open>The bytes behind a header: the bounds check, the slice, and the new position.\<close>

definition raw_bytes :: "int \<Rightarrow> decoder \<Rightarrow> decoder \<times> (codec_error, u8 list) gocall" where
  "raw_bytes len d =
     (if go_int (d_pos d + len) > d_len d then (d, Err UnexpectedEOF)
      else case bytes_at d (d_pos d) (d_pos d + len) of
             None \<Rightarrow> (d, Panicked SliceOutOfRange)
           | Some raw \<Rightarrow> (advance len d, Ok raw))"

fun and_then :: "decoder \<times> ('e, 'a) gocall \<Rightarrow> ('a \<Rightarrow> decoder \<Rightarrow> decoder \<times> ('e, 'b) gocall) \<Rightarrow> decoder \<times> ('e, 'b) gocall" where
  "and_then (d, Ok v) f = f v d"
| "and_then (d, Err e) f = (d, Err e)"
| "and_then (d, Panicked p) f = (d, Panicked p)"

text \<open>The copy into the scope. \<^verbatim>\<open>&buf[0]\<close> of an empty string's buffer is out of range.\<close>

definition msgpack_DecodeString :: "byte_scope \<Rightarrow> decoder \<Rightarrow> decoder \<times> (codec_error, u8 list) gocall" where
  "msgpack_DecodeString scope d =
     and_then (str_header d) (\<lambda>len d1. and_then (raw_bytes len d1) (\<lambda>raw d2.
       case scope of
         None \<Rightarrow> (d2, Ok raw)
       | Some alloc \<Rightarrow>
           (case alloc len of
              Some p \<Rightarrow> (d2, Panicked p)
            | None \<Rightarrow> if raw = [] then (d2, Panicked IndexOutOfRange) else (d2, Ok raw))))"

definition msgpack_DecodeBytes :: "byte_scope \<Rightarrow> decoder \<Rightarrow> decoder \<times> (codec_error, u8 list) gocall" where
  "msgpack_DecodeBytes scope d =
     and_then (bin_header d) (\<lambda>len d1. and_then (raw_bytes len d1) (\<lambda>raw d2.
       case scope of
         None \<Rightarrow> (d2, Ok raw)
       | Some alloc \<Rightarrow> (case alloc len of Some p \<Rightarrow> (d2, Panicked p) | None \<Rightarrow> (d2, Ok raw))))"

definition DecodeArrayHeader :: "decoder \<Rightarrow> decoder \<times> (codec_error, int) gocall" where
  "DecodeArrayHeader d = with_lead d (\<lambda>b.
     if b \<ge> 0x90 \<and> b \<le> 0x9f then (advance 1 d, Ok (uint (b AND 0x0f)))
     else if b = 0xdc then map_result (\<lambda>bs. uint (be_get bs :: u16)) (tail_field 3 d)
     else if b = 0xdd then map_result (\<lambda>bs. uint (be_get bs :: u32)) (tail_field 5 d)
     else (d, Err ErrTypeMismatch))"

definition DecodeMapHeader :: "decoder \<Rightarrow> decoder \<times> (codec_error, int) gocall" where
  "DecodeMapHeader d = with_lead d (\<lambda>b.
     if b \<ge> 0x80 \<and> b \<le> 0x8f then (advance 1 d, Ok (uint (b AND 0x0f)))
     else if b = 0xde then map_result (\<lambda>bs. uint (be_get bs :: u16)) (tail_field 3 d)
     else if b = 0xdf then map_result (\<lambda>bs. uint (be_get bs :: u32)) (tail_field 5 d)
     else (d, Err ErrTypeMismatch))"

section \<open>Encoder\<close>

definition EncodeNil :: "u8 list" where
  "EncodeNil = [0xc0]"

definition EncodeBool :: "bool \<Rightarrow> u8 list" where
  "EncodeBool v = (if v then [0xc3] else [0xc2])"

definition EncodeInt :: "int \<Rightarrow> u8 list" where
  "EncodeInt v =
     (if v \<ge> 0 \<and> v \<le> 127 then [word_of_int v]
      else if v \<ge> -32 \<and> v < 0 then [word_of_int v]
      else if v \<ge> -128 \<and> v \<le> 127 then [0xd0, word_of_int v]
      else if v \<ge> -32768 \<and> v \<le> 32767 then 0xd1 # be_put 2 (word_of_int v :: u16)
      else if v \<ge> -2147483648 \<and> v \<le> 2147483647 then 0xd2 # be_put 4 (word_of_int v :: u32)
      else 0xd3 # be_put 8 (word_of_int v :: u64))"

definition msgpack_EncodeString :: "u8 list \<Rightarrow> u8 list" where
  "msgpack_EncodeString s =
     (let l = int (length s) in
        (if l \<le> 31 then [0xa0 OR word_of_int l]
         else if l \<le> 255 then [0xd9, word_of_int l]
         else if l \<le> 65535 then 0xda # be_put 2 (word_of_int l :: u16)
         else 0xdb # be_put 4 (word_of_int l :: u32)) @ s)"

definition msgpack_EncodeBytes :: "u8 list \<Rightarrow> u8 list" where
  "msgpack_EncodeBytes b =
     (let l = int (length b) in
        (if l \<le> 255 then [0xc4, word_of_int l]
         else if l \<le> 65535 then 0xc5 # be_put 2 (word_of_int l :: u16)
         else 0xc6 # be_put 4 (word_of_int l :: u32)) @ b)"

definition EncodeArrayHeader :: "int \<Rightarrow> u8 list" where
  "EncodeArrayHeader n =
     (if n \<le> 15 then [0x90 OR word_of_int n]
      else if n \<le> 65535 then 0xdc # be_put 2 (word_of_int n :: u16)
      else 0xdd # be_put 4 (word_of_int n :: u32))"

definition EncodeMapHeader :: "int \<Rightarrow> u8 list" where
  "EncodeMapHeader n =
     (if n \<le> 15 then [0x80 OR word_of_int n]
      else if n \<le> 65535 then 0xde # be_put 2 (word_of_int n :: u16)
      else 0xdf # be_put 4 (word_of_int n :: u32))"

section \<open>Round trips of the methods\<close>

lemma with_lead_at [simp]: "with_lead (at pre (b # post)) f = f b"
  by (simp add: with_lead_def)

lemma tail_field_at:
  assumes "small (pre @ b # v @ post)" "k = int (length v) + 1"
  shows "tail_field k (at pre (b # v @ post)) = (at (pre @ b # v) post, Ok v)"
proof -
  have "bytes_at (at (pre @ [b]) (v @ post)) (int (length (pre @ [b]))) (int (length (pre @ [b])) + int (length v)) = Some v"
    by (rule bytes_at_at)
  then have "bytes_at (at pre (b # v @ post)) (int (length pre) + 1) (int (length pre) + k) = Some v"
    using assms(2) by (simp add: bytes_at_def add_ac)
  moreover have "go_int (int (length pre) + k) = int (length pre) + k"
    using assms by (simp add: small_def in_int64_def)
  moreover have "advance k (at pre ((b # v) @ post)) = at (pre @ b # v) post"
    using assms by (intro advance_at) auto
  ultimately show ?thesis using assms(2) by (simp add: tail_field_def)
qed

lemma advance1_at: "small (pre @ b # post) \<Longrightarrow> advance 1 (at pre (b # post)) = at (pre @ [b]) post"
  using advance_at [of pre "[b]" post 1] by simp

lemma sint_word_of_int:
  "- (2 ^ (LENGTH('a) - 1)) \<le> v \<Longrightarrow> v < 2 ^ (LENGTH('a) - 1) \<Longrightarrow> sint (word_of_int v :: 'a::len word) = v"
  by (simp add: signed_of_int signed_take_bit_int_eq_self)

lemma uint_word_of_int:
  "0 \<le> v \<Longrightarrow> v < 2 ^ LENGTH('a) \<Longrightarrow> uint (word_of_int v :: 'a::len word) = v"
  by (simp add: unsigned_of_int take_bit_int_eq_self)

interpretation nil_codec: prefix_codec "\<lambda>_. True" "\<lambda>_. EncodeNil" DecodeNil
  by unfold_locales (simp add: EncodeNil_def DecodeNil_def advance1_at)

interpretation bool_codec: prefix_codec "\<lambda>_. True" EncodeBool DecodeBool
  by unfold_locales (auto simp: EncodeBool_def DecodeBool_def advance1_at)

lemma map_result_tail:
  "small (pre @ b # v @ post) \<Longrightarrow> k = int (length v) + 1 \<Longrightarrow>
     map_result g (tail_field k (at pre (b # v @ post))) = (at (pre @ b # v) post, Ok (g v))"
  by (simp add: tail_field_at)

text \<open>The lead byte of a fixint.\<close>

lemma fixint_byte:
  assumes "-32 \<le> v" "v \<le> 127"
  shows "uint (word_of_int v :: u8) = (if 0 \<le> v then v else v + 256)"
proof (cases "0 \<le> v")
  case False
  have "uint (word_of_int v :: u8) = v mod 256" by (simp add: unsigned_of_int take_bit_eq_mod)
  also have "v mod 256 = (v + 256) mod 256" by (rule mod_add_self2 [symmetric])
  also have "\<dots> = v + 256" by (rule mod_pos_pos_trivial) (use assms False in auto)
  finally show ?thesis using False by simp
qed (use assms in \<open>simp add: uint_word_of_int\<close>)

interpretation int_codec: prefix_codec in_int64 EncodeInt DecodeInt
proof
  fix v pre post assume ok: "in_int64 v" and sm: "small (pre @ EncodeInt v @ post)"
  consider "0 \<le> v" "v \<le> 127" | "-32 \<le> v" "v < 0" | "-128 \<le> v" "v < -32"
    | "v < -128 \<or> 127 < v" "-32768 \<le> v" "v \<le> 32767"
    | "v < -32768 \<or> 32767 < v" "-2147483648 \<le> v" "v \<le> 2147483647"
    | "v < -2147483648 \<or> 2147483647 < v" by linarith
  then show "DecodeInt (at pre (EncodeInt v @ post)) = (at (pre @ EncodeInt v) post, Ok v)"
  proof cases
    case 1
    then have "(word_of_int v :: u8) \<le> 0x7f" by (simp add: word_le_def fixint_byte)
    then show ?thesis using 1 sm by (simp add: EncodeInt_def DecodeInt_def advance1_at fixint_byte)
  next
    case 2
    then have "\<not> (word_of_int v :: u8) \<le> 0x7f" "(0xe0 :: u8) \<le> word_of_int v"
      by (simp_all add: word_le_def fixint_byte)
    moreover have "sint (word_of_int v :: u8) = v" using 2 by (intro sint_word_of_int) auto
    ultimately show ?thesis using 2 sm by (simp add: EncodeInt_def DecodeInt_def advance1_at)
  next
    case 3
    then have "EncodeInt v = 0xd0 # be_put 1 (word_of_int v :: u8)" by (simp add: EncodeInt_def be_put_def le_put_def)
    then show ?thesis using 3 sm sint_word_of_int [of v, where ?'a = 8]
      by (simp add: DecodeInt_def map_result_tail be_get_put)
  next
    case 4
    then have "EncodeInt v = 0xd1 # be_put 2 (word_of_int v :: u16)" by (auto simp: EncodeInt_def)
    then show ?thesis using 4 sm sint_word_of_int [of v, where ?'a = 16]
      by (simp add: DecodeInt_def map_result_tail be_get_put)
  next
    case 5
    then have "EncodeInt v = 0xd2 # be_put 4 (word_of_int v :: u32)" by (auto simp: EncodeInt_def)
    then show ?thesis using 5 sm sint_word_of_int [of v, where ?'a = 32]
      by (simp add: DecodeInt_def map_result_tail be_get_put)
  next
    case 6
    then have "EncodeInt v = 0xd3 # be_put 8 (word_of_int v :: u64)" by (auto simp: EncodeInt_def)
    then show ?thesis using 6 sm ok sint_word_of_int [of v, where ?'a = 64]
      by (simp add: DecodeInt_def map_result_tail be_get_put in_int64_def)
  qed
qed


section \<open>Lengths and headers\<close>

text \<open>The header of a value is that of its length.\<close>

definition str_head :: "int \<Rightarrow> u8 list" where
  "str_head l = (if l \<le> 31 then [0xa0 OR word_of_int l] else if l \<le> 255 then [0xd9, word_of_int l]
     else if l \<le> 65535 then 0xda # be_put 2 (word_of_int l :: u16) else 0xdb # be_put 4 (word_of_int l :: u32))"

definition bin_head :: "int \<Rightarrow> u8 list" where
  "bin_head l = (if l \<le> 255 then [0xc4, word_of_int l]
     else if l \<le> 65535 then 0xc5 # be_put 2 (word_of_int l :: u16) else 0xc6 # be_put 4 (word_of_int l :: u32))"

definition size_ok :: "int \<Rightarrow> bool" where
  "size_ok n \<longleftrightarrow> 0 \<le> n \<and> n < 2 ^ 32"

lemma be_put_1: "[word_of_int l] = be_put 1 (word_of_int l :: u8)"
  by (simp add: be_put_def le_put_def)

lemma decode_size:
  assumes "size_ok l" "l < 2 ^ LENGTH('a)" "LENGTH('a::len) \<le> 8 * n"
    and "small (pre @ b # be_put n (word_of_int l :: 'a word) @ post)"
  shows "map_result (\<lambda>bs. uint (be_get bs :: 'a word)) (tail_field (int n + 1) (at pre (b # be_put n (word_of_int l :: 'a word) @ post)))
    = (at (pre @ b # be_put n (word_of_int l :: 'a word)) post, Ok l)"
  using assms by (simp add: map_result_tail be_get_put size_ok_def uint_word_of_int)

interpretation str_head_codec: prefix_codec size_ok str_head str_header
proof
  fix l pre post assume ok: "size_ok l" and sm: "small (pre @ str_head l @ post)"
  consider "l \<le> 31" | "31 < l" "l \<le> 255" | "255 < l" "l \<le> 65535" | "65535 < l" by linarith
  then show "str_header (at pre (str_head l @ post)) = (at (pre @ str_head l) post, Ok l)"
  proof cases
    case 1
    then have "uint ((0xa0 :: u8) OR word_of_int l) = 0xa0 + l" "((0xa0 :: u8) OR word_of_int l) AND 0x1f = word_of_int l"
      using lead_small [of 5 l "0xa0"] ok by (simp_all add: size_ok_def masks)
    then show ?thesis using 1 sm ok
      by (simp add: str_header_def str_head_def word_le_def advance1_at uint_word_of_int size_ok_def)
  next
    case 2
    then have "str_head l = 0xd9 # be_put 1 (word_of_int l :: u8)" by (simp add: str_head_def be_put_1)
    then show ?thesis using 2 sm decode_size [where ?'a = 8 and n = 1, OF ok, of pre "0xd9" post] by (simp add: str_header_def)
  next
    case 3
    then have "str_head l = 0xda # be_put 2 (word_of_int l :: u16)" by (simp add: str_head_def)
    then show ?thesis using 3 sm decode_size [where ?'a = 16 and n = 2, OF ok, of pre "0xda" post] by (simp add: str_header_def)
  next
    case 4
    then have "str_head l = 0xdb # be_put 4 (word_of_int l :: u32)" by (simp add: str_head_def)
    then show ?thesis using sm ok decode_size [where ?'a = 32 and n = 4, OF ok, of pre "0xdb" post]
      by (simp add: str_header_def size_ok_def)
  qed
qed

interpretation bin_head_codec: prefix_codec size_ok bin_head bin_header
proof
  fix l pre post assume ok: "size_ok l" and sm: "small (pre @ bin_head l @ post)"
  consider "l \<le> 255" | "255 < l" "l \<le> 65535" | "65535 < l" by linarith
  then show "bin_header (at pre (bin_head l @ post)) = (at (pre @ bin_head l) post, Ok l)"
  proof cases
    case 1
    then have "bin_head l = 0xc4 # be_put 1 (word_of_int l :: u8)" by (simp add: bin_head_def be_put_1)
    then show ?thesis using 1 sm decode_size [where ?'a = 8 and n = 1, OF ok, of pre "0xc4" post] by (simp add: bin_header_def)
  next
    case 2
    then have "bin_head l = 0xc5 # be_put 2 (word_of_int l :: u16)" by (simp add: bin_head_def)
    then show ?thesis using 2 sm decode_size [where ?'a = 16 and n = 2, OF ok, of pre "0xc5" post] by (simp add: bin_header_def)
  next
    case 3
    then have "bin_head l = 0xc6 # be_put 4 (word_of_int l :: u32)" by (simp add: bin_head_def)
    then show ?thesis using sm ok decode_size [where ?'a = 32 and n = 4, OF ok, of pre "0xc6" post]
      by (simp add: bin_header_def size_ok_def)
  qed
qed

interpretation array_head_codec: prefix_codec size_ok EncodeArrayHeader DecodeArrayHeader
proof
  fix l pre post assume ok: "size_ok l" and sm: "small (pre @ EncodeArrayHeader l @ post)"
  consider "l \<le> 15" | "15 < l" "l \<le> 65535" | "65535 < l" by linarith
  then show "DecodeArrayHeader (at pre (EncodeArrayHeader l @ post)) = (at (pre @ EncodeArrayHeader l) post, Ok l)"
  proof cases
    case 1
    then have "uint ((0x90 :: u8) OR word_of_int l) = 0x90 + l" "((0x90 :: u8) OR word_of_int l) AND 0x0f = word_of_int l"
      using lead_small [of 4 l "0x90"] ok by (simp_all add: size_ok_def masks)
    then show ?thesis using 1 sm ok
      by (simp add: DecodeArrayHeader_def EncodeArrayHeader_def word_le_def advance1_at uint_word_of_int size_ok_def)
  next
    case 2
    then have "EncodeArrayHeader l = 0xdc # be_put 2 (word_of_int l :: u16)" by (simp add: EncodeArrayHeader_def)
    then show ?thesis using 2 sm decode_size [where ?'a = 16 and n = 2, OF ok, of pre "0xdc" post] by (simp add: DecodeArrayHeader_def)
  next
    case 3
    then have "EncodeArrayHeader l = 0xdd # be_put 4 (word_of_int l :: u32)" by (simp add: EncodeArrayHeader_def)
    then show ?thesis using sm ok decode_size [where ?'a = 32 and n = 4, OF ok, of pre "0xdd" post]
      by (simp add: DecodeArrayHeader_def size_ok_def)
  qed
qed

interpretation map_head_codec: prefix_codec size_ok EncodeMapHeader DecodeMapHeader
proof
  fix l pre post assume ok: "size_ok l" and sm: "small (pre @ EncodeMapHeader l @ post)"
  consider "l \<le> 15" | "15 < l" "l \<le> 65535" | "65535 < l" by linarith
  then show "DecodeMapHeader (at pre (EncodeMapHeader l @ post)) = (at (pre @ EncodeMapHeader l) post, Ok l)"
  proof cases
    case 1
    then have "uint ((0x80 :: u8) OR word_of_int l) = 0x80 + l" "((0x80 :: u8) OR word_of_int l) AND 0x0f = word_of_int l"
      using lead_small [of 4 l "0x80"] ok by (simp_all add: size_ok_def masks)
    then show ?thesis using 1 sm ok
      by (simp add: DecodeMapHeader_def EncodeMapHeader_def word_le_def advance1_at uint_word_of_int size_ok_def)
  next
    case 2
    then have "EncodeMapHeader l = 0xde # be_put 2 (word_of_int l :: u16)" by (simp add: EncodeMapHeader_def)
    then show ?thesis using 2 sm decode_size [where ?'a = 16 and n = 2, OF ok, of pre "0xde" post] by (simp add: DecodeMapHeader_def)
  next
    case 3
    then have "EncodeMapHeader l = 0xdf # be_put 4 (word_of_int l :: u32)" by (simp add: EncodeMapHeader_def)
    then show ?thesis using sm ok decode_size [where ?'a = 32 and n = 4, OF ok, of pre "0xdf" post]
      by (simp add: DecodeMapHeader_def size_ok_def)
  qed
qed

end
