(* ===== verification/MsgPack_Spec.thy ===== *)
theory MsgPack_Spec
  imports MsgPack
begin

text \<open>
  What the MessagePack codec promises: nested values come back as they were written when they are decoded
  at their type, no input makes a decoder panic or leave its data, and where the code deviates: integers
  above the signed range, empty strings on a scope, negative sizes.
\<close>

section \<open>Strings and binary data\<close>





lemma raw_bytes_at:
  assumes "small (pre @ v @ post)"
  shows "raw_bytes (int (length v)) (at pre (v @ post)) = (at (pre @ v) post, Ok v)"
proof -
  have "go_int (int (length pre) + int (length v)) = int (length pre) + int (length v)"
    using assms by (simp add: small_def in_int64_def)
  then show ?thesis using bytes_at_at [of pre v post] advance_at [OF assms] by (simp add: raw_bytes_def)
qed



section \<open>Values\<close>










section \<open>Every input\<close>











text \<open>What a method returns when it returns a value.\<close>

definition returns :: "('a \<Rightarrow> bool) \<Rightarrow> decoder \<times> ('e, 'a) gocall \<Rightarrow> bool" where
  "returns P r \<longleftrightarrow> (\<forall>d v. r = (d, Ok v) \<longrightarrow> P v)"


lemma returns_simps [simp]: "returns P (d, Ok v) = P v" "returns P (d, Err e)" "returns P (d, Panicked p)"
  by (auto simp: returns_def)








section \<open>Deviations\<close>

text \<open>An unsigned 64-bit integer decodes to its value exactly up to the largest signed one; above it,
  the decoder returns the negative number with the same bits, and no error.\<close>

lemma DecodeInt_uint64:
  fixes v :: u64
  assumes "small (pre @ 0xcf # be_put 8 v @ post)"
  shows "DecodeInt (at pre (0xcf # be_put 8 v @ post)) =
    (at (pre @ 0xcf # be_put 8 v) post, Ok (if uint v < 2 ^ 63 then uint v else uint v - 2 ^ 64))"
proof -
  have "sint v = (if uint v < 2 ^ 63 then uint v else uint v - 2 ^ 64)"
  proof (cases "uint v < 2 ^ 63")
    case True
    then show ?thesis by (simp add: sint_uint signed_take_bit_int_eq_self order_trans [OF _ uint_ge_0])
  next
    case False
    have "sint v = go_int (uint v)" by (simp add: go_int_def sint_uint)
    then show ?thesis using False go_int_wrap [of "uint v"] uint_lt2p [of v] by simp
  qed
  then show ?thesis using assms by (simp add: DecodeInt_def map_result_tail be_get_put)
qed

lemma DecodeInt_uint64_witness:
  "DecodeInt (at [] (0xcf # be_put 8 (- 1 :: u64) @ [])) = (at ([] @ 0xcf # be_put 8 (- 1 :: u64)) [], Ok (- 1))"
  using DecodeInt_uint64 [of "[]" "- 1" "[]"] by (simp add: small_short unsigned_minus_1_eq_mask mask_eq_exp_minus_1)

text \<open>The empty string does not survive a scope: decoding it panics on every scope. A negative size, or one
  of 2^32 and more, is encoded as something else.\<close>

lemma DecodeString_empty_panics:
  assumes "small (pre @ 0xa0 # post)"
  shows "\<exists>d p. msgpack_DecodeString (Some alloc) (at pre (msgpack_EncodeString [] @ post)) = (d, Panicked p)"
proof -
  have "str_header (at pre (0xa0 # post)) = (at (pre @ [0xa0]) post, Ok 0)"
    using str_head_codec.dec_enc [of 0 pre post] assms by (simp add: str_head_def size_ok_def)
  moreover have "raw_bytes 0 (at (pre @ [0xa0]) post) = (at (pre @ [0xa0]) post, Ok [])"
    using raw_bytes_at [of "pre @ [0xa0]" "[]" post] assms by simp
  ultimately show ?thesis
    by (cases "alloc 0") (auto simp: msgpack_DecodeString_def msgpack_EncodeString_def)
qed

lemma EncodeArrayHeader_negative: "snd (DecodeArrayHeader (NewDecoder (EncodeArrayHeader (- 1)))) = Err ErrTypeMismatch"
  by code_simp

end
