(* ===== verification/Swar.thy ===== *)
theory Swar
  imports Bytes
begin

text \<open>
  Eight bytes at a time, \<^verbatim>\<open>codec/simd.go\<close> and the copy of its loops in \<^verbatim>\<open>ws.go\<close> and \<^verbatim>\<open>json.go\<close>: the
  zero-byte test, the searches built on it, and unmasking. A search is an interface: a test on words that
  agrees with a test on bytes; what the code's tests find is what a scan byte by byte finds.
\<close>

section \<open>Code\<close>

definition hi8 :: u64 where
  "hi8 = 0x8080808080808080"

definition lo8 :: u64 where
  "lo8 = 0x0101010101010101"

definition HasZeroByte64 :: "u64 \<Rightarrow> bool" where
  "HasZeroByte64 w \<longleftrightarrow> (w - lo8) AND NOT w AND hi8 \<noteq> 0"

text \<open>\<^verbatim>\<open>binary.LittleEndian.Uint64(data[i:])\<close>\<close>

definition word_at :: "u8 list \<Rightarrow> nat \<Rightarrow> u64" where
  "word_at data i = le_get (take 8 (drop i data))"

text \<open>The two loops of a search: words until one stops it, then bytes.\<close>

function word_scan :: "(u64 \<Rightarrow> bool) \<Rightarrow> u8 list \<Rightarrow> nat \<Rightarrow> nat" where
  "word_scan stop data i =
     (if i + 8 \<le> length data then if stop (word_at data i) then i else word_scan stop data (i + 8) else i)"
  by auto
termination by (relation "measure (\<lambda>(stop, data, i). length data - i)") auto

function byte_scan :: "(u8 \<Rightarrow> bool) \<Rightarrow> u8 list \<Rightarrow> nat \<Rightarrow> int" where
  "byte_scan hit data i =
     (if i < length data then if hit (data ! i) then int i else byte_scan hit data (i + 1) else - 1)"
  by auto
termination by (relation "measure (\<lambda>(hit, data, i). length data - i)") auto

declare word_scan.simps [simp del] byte_scan.simps [simp del]

definition quote_word :: "u64 \<Rightarrow> bool" where
  "quote_word w \<longleftrightarrow> HasZeroByte64 (w XOR 0x2222222222222222) \<or> HasZeroByte64 (w XOR 0x5C5C5C5C5C5C5C5C)"

definition quote_byte :: "u8 \<Rightarrow> bool" where
  "quote_byte b \<longleftrightarrow> b = 0x22 \<or> b = 0x5C"

definition FindQuoteOrEscape :: "u8 list \<Rightarrow> int" where
  "FindQuoteOrEscape data = byte_scan quote_byte data (word_scan quote_word data 0)"

definition FindByte :: "u8 list \<Rightarrow> u8 \<Rightarrow> int" where
  "FindByte data target =
     (let rep = ucast target * 0x0101010101010101
      in byte_scan (\<lambda>b. b = target) data (word_scan (\<lambda>w. HasZeroByte64 (w XOR rep)) data 0))"

text \<open>Unmasking in place: whole words, then the remaining bytes.\<close>

definition repeated_mask :: "u8 list \<Rightarrow> u64" where
  "repeated_mask key = (let mask32 = le_get key :: u32 in ucast mask32 OR push_bit 32 (ucast mask32))"

definition put_word :: "u8 list \<Rightarrow> nat \<Rightarrow> u64 \<Rightarrow> u8 list" where
  "put_word data i w = take i data @ le_put 8 w @ drop (i + 8) data"

function unmask_words :: "u64 \<Rightarrow> u8 list \<Rightarrow> nat \<Rightarrow> u8 list \<times> nat" where
  "unmask_words mask64 data i =
     (if i + 8 \<le> length data then unmask_words mask64 (put_word data i (word_at data i XOR mask64)) (i + 8)
      else (data, i))"
  by auto
termination by (relation "measure (\<lambda>(m, data, i). length data - i)") (auto simp: put_word_def)

function unmask_bytes :: "u8 list \<Rightarrow> u8 list \<Rightarrow> nat \<Rightarrow> u8 list" where
  "unmask_bytes key data i =
     (if i < length data then unmask_bytes key (data[i := data ! i XOR key ! (i mod 4)]) (i + 1) else data)"
  by auto
termination by (relation "measure (\<lambda>(m, data, i). length data - i)") auto

declare unmask_words.simps [simp del] unmask_bytes.simps [simp del]

definition UnmaskBytesVectorized :: "u8 list \<Rightarrow> u8 list \<Rightarrow> u8 list" where
  "UnmaskBytesVectorized payload key =
     (let (data, i) = unmask_words (repeated_mask key) payload 0 in unmask_bytes key data i)"

section \<open>Words as numbers\<close>

fun le_val :: "u8 list \<Rightarrow> int" where
  "le_val [] = 0"
| "le_val (b # bs) = uint b + 256 * le_val bs"

lemma le_get_val: "(le_get bs :: u64) = word_of_int (le_val bs)"
proof (induction bs)
  case (Cons b bs)
  have "(ucast b :: u64) AND push_bit 8 (le_get bs) = 0"
    by (rule bit_eqI) (auto simp: bit_simps dest: bit_imp_le_length)
  then have "(le_get (b # bs) :: u64) = ucast b + push_bit 8 (le_get bs)"
    by (simp add: disjunctive_add_eq_or)
  also have "\<dots> = word_of_int (uint b) + word_of_int (le_val bs) * 2 ^ 8"
    by (simp only: Cons.IH push_bit_eq_mult ucast_eq)
  also have "\<dots> = word_of_int (uint b + le_val bs * 2 ^ 8)" by (simp only: of_int_add of_int_mult of_int_power of_int_numeral)
  finally show ?case by (simp add: mult.commute)
qed simp

lemma bit_byte_shift:
  fixes u x :: int
  assumes "0 \<le> u" "u < 256"
  shows "bit (u + 256 * x) (8 * Suc k + j) = bit x (8 * k + j)" "bit (u + 256 * x) 7 \<longleftrightarrow> 128 \<le> u"
proof -
  have "bit (u + 256 * x) (8 + (8 * k + j)) = bit (drop_bit 8 (u + 256 * x)) (8 * k + j)"
    by (simp add: bit_drop_bit_eq)
  also have "drop_bit 8 (u + 256 * x) = x" using assms by (simp add: drop_bit_eq_div)
  finally show "bit (u + 256 * x) (8 * Suc k + j) = bit x (8 * k + j)" by (simp add: add.assoc)
  have "u + 256 * x = u + (2 * x) * 128" by simp
  then have "(u + 256 * x) div 128 = 2 * x + u div 128" by (simp only: div_mult_self1 [of 128 u "2 * x"])
  then have "bit (u + 256 * x) 7 \<longleftrightarrow> odd (u div 128)" by (simp add: bit_iff_odd)
  also have "u div 128 = (if 128 \<le> u then 1 else 0)" using assms by auto
  finally show "bit (u + 256 * x) 7 \<longleftrightarrow> 128 \<le> u" by simp
qed

lemma uint_byte [simp]: "uint (b :: u8) < 256"
  using uint_lt2p [of b] by simp

text \<open>Subtracting one from every byte borrows only out of a zero byte.\<close>

lemma zero_byte_val:
  "(\<exists>k < length bs. bit (le_val bs - le_val (replicate (length bs) 1)) (8 * k + 7) \<and> \<not> bit (le_val bs) (8 * k + 7))
    \<longleftrightarrow> 0 \<in> set bs"
proof (induction bs)
  case (Cons b bs)
  let ?W = "le_val bs" and ?L = "le_val (replicate (length bs) 1)"
  have split: "(\<exists>k < Suc n. P k) \<longleftrightarrow> P 0 \<or> (\<exists>k < n. P (Suc k))" for P and n :: nat
    by (metis less_Suc_eq_0_disj zero_less_Suc)
  show ?case
  proof (cases "b = 0")
    case True
    have "le_val (b # bs) - le_val (replicate (length (b # bs)) 1) = 255 + 256 * (?W - ?L - 1)" by (simp add: True)
    then have "bit (le_val (b # bs) - le_val (replicate (length (b # bs)) 1)) 7"
      using bit_byte_shift(2) [of 255 "?W - ?L - 1"] by (simp only:) 
    moreover have "\<not> bit (le_val (b # bs)) 7" using bit_byte_shift(2) [of 0 ?W] by (simp add: True)
    ultimately show ?thesis by (simp only: split length_Cons) (simp add: True)
  next
    case False
    then have b: "1 \<le> uint b" using uint_0_iff [of b] uint_ge_0 [of b] by linarith
    have r: "0 \<le> uint b" "uint b < 256" "0 \<le> uint b - 1" "uint b - 1 < 256" using b uint_byte [of b] by linarith+
    have e: "le_val (b # bs) - le_val (replicate (length (b # bs)) 1) = (uint b - 1) + 256 * (?W - ?L)" by simp
    have "(bit (le_val (b # bs) - le_val (replicate (length (b # bs)) 1)) (8 * Suc k + 7) \<and> \<not> bit (le_val (b # bs)) (8 * Suc k + 7))
        \<longleftrightarrow> bit (?W - ?L) (8 * k + 7) \<and> \<not> bit ?W (8 * k + 7)" for k
      unfolding e unfolding le_val.simps(2) [of b bs] by (simp only: bit_byte_shift(1) [OF r(1,2)] bit_byte_shift(1) [OF r(3,4)])
    moreover have "\<not> (bit (le_val (b # bs) - le_val (replicate (length (b # bs)) 1)) (8 * 0 + 7) \<and> \<not> bit (le_val (b # bs)) (8 * 0 + 7))"
      unfolding e unfolding le_val.simps(2) [of b bs] using bit_byte_shift(2) [OF r(1,2), of ?W] bit_byte_shift(2) [OF r(3,4), of "?W - ?L"] by simp
    ultimately show ?thesis using Cons.IH False by (simp only: split length_Cons) auto
  qed
qed simp

lemma hi8_bit: "bit hi8 i \<longleftrightarrow> i < 64 \<and> i mod 8 = 7"
proof (cases "i < 64")
  case True
  have "\<forall>i \<in> set [0 ..< 64]. bit (0x8080808080808080 :: int) i \<longleftrightarrow> i mod 8 = 7" by code_simp
  then show ?thesis using True by (simp add: hi8_def)
next
  case False
  then show ?thesis using bit_imp_le_length [of hi8 i] by auto
qed

lemma lo8_val: "lo8 = word_of_int (le_val (replicate 8 1))"
  by (simp add: lo8_def numeral_eq_Suc)

lemma HasZeroByte64_iff: 
  assumes "length bs = 8"
  shows "HasZeroByte64 (le_get bs) \<longleftrightarrow> 0 \<in> set bs"
proof -
  let ?W = "le_val bs" and ?L = "le_val (replicate 8 1)"
  have "HasZeroByte64 (le_get bs) \<longleftrightarrow> (\<exists>i. bit ((le_get bs - lo8) AND NOT (le_get bs) AND hi8) i)"
    unfolding HasZeroByte64_def by (metis bit_0_eq bit_eqI bot_apply bot_bool_def)
  also have "\<dots> \<longleftrightarrow> (\<exists>i < 64. i mod 8 = 7 \<and> bit (?W - ?L) i \<and> \<not> bit ?W i)"
    unfolding le_get_val lo8_val of_int_diff [symmetric]
    by (simp only: bit_and_iff bit_not_iff hi8_bit bit_word_of_int_iff) auto
  also have "\<dots> \<longleftrightarrow> (\<exists>k < 8. bit (?W - ?L) (8 * k + 7) \<and> \<not> bit ?W (8 * k + 7))"
  proof
    assume "\<exists>i < 64. i mod 8 = 7 \<and> bit (?W - ?L) i \<and> \<not> bit ?W i"
    then obtain i where i: "i < 64" "i mod 8 = 7" "bit (?W - ?L) i" "\<not> bit ?W i" by blast
    then have "i = 8 * (i div 8) + 7" "i div 8 < 8" using mult_div_mod_eq [of 8 i] by simp_all
    then show "\<exists>k < 8. bit (?W - ?L) (8 * k + 7) \<and> \<not> bit ?W (8 * k + 7)" using i(3,4) by metis
  next
    assume "\<exists>k < 8. bit (?W - ?L) (8 * k + 7) \<and> \<not> bit ?W (8 * k + 7)"
    then obtain k where "k < 8" "bit (?W - ?L) (8 * k + 7)" "\<not> bit ?W (8 * k + 7)" by blast
    moreover have "8 * k + 7 < 64" "(8 * k + 7) mod 8 = (7 :: nat)" using \<open>k < 8\<close> by simp_all
    ultimately show "\<exists>i < 64. i mod 8 = 7 \<and> bit (?W - ?L) i \<and> \<not> bit ?W i" by blast
  qed
  also have "\<dots> \<longleftrightarrow> 0 \<in> set bs" using zero_byte_val [of bs] assms by simp
  finally show ?thesis .
qed

text \<open>A word XORed with eight copies of a byte has a zero byte where the word has that byte.\<close>

lemma le_get_xor: "length bs = length cs \<Longrightarrow> (le_get bs XOR le_get cs :: u64) = le_get (map2 (XOR) bs cs)"
  by (rule bit_eqI) (auto simp: bit_le_get bit_xor_iff)

lemma xor_zero_iff: "(b XOR t = 0) \<longleftrightarrow> (b :: 'a::len word) = t"
  by (metis xor.assoc xor_self_eq xor.right_neutral xor.left_neutral)

lemma HasZeroByte64_xor:
  assumes "length bs = 8"
  shows "HasZeroByte64 (le_get bs XOR le_get (replicate 8 t)) \<longleftrightarrow> t \<in> set bs"
proof -
  have "HasZeroByte64 (le_get bs XOR le_get (replicate 8 t)) \<longleftrightarrow> 0 \<in> set (map2 (XOR) bs (replicate 8 t))"
    using assms by (simp add: le_get_xor HasZeroByte64_iff)
  also have "map2 (XOR) bs (replicate 8 t) = map (\<lambda>b. b XOR t) bs"
    using assms by (intro nth_equalityI) auto
  finally show ?thesis by (auto simp: xor_zero_iff image_iff)
qed

lemma repeated_byte: "(ucast (t :: u8) * 0x0101010101010101 :: u64) = le_get (replicate 8 t)"
proof -
  have "le_val (replicate 8 t) = uint t * 0x0101010101010101" by (simp add: numeral_eq_Suc)
  then show ?thesis by (simp only: le_get_val ucast_eq of_int_mult of_int_numeral)
qed

section \<open>Searches\<close>

text \<open>The index of the first byte that a test accepts.\<close>

definition first_index :: "(u8 \<Rightarrow> bool) \<Rightarrow> u8 list \<Rightarrow> int" where
  "first_index hit data = (if \<exists>b \<in> set data. hit b then int (length (takeWhile (\<lambda>b. \<not> hit b) data)) else - 1)"

lemma byte_scan_first:
  "i \<le> length data \<Longrightarrow> \<forall>b \<in> set (take i data). \<not> hit b \<Longrightarrow> byte_scan hit data i = first_index hit data"
proof (induction "length data - i" arbitrary: i)
  case 0
  then have "i = length data" by simp
  then show ?case using 0 by (subst byte_scan.simps) (simp add: first_index_def)
next
  case (Suc n)
  then have i: "i < length data" by simp
  show ?case
  proof (cases "hit (data ! i)")
    case True
    have "takeWhile (\<lambda>b. \<not> hit b) data = take i data"
    proof -
      have "data = take i data @ data ! i # drop (Suc i) data" using i by (rule id_take_nth_drop)
      then show ?thesis using Suc.prems True
        by (metis (no_types, lifting) takeWhile_append2 takeWhile.simps(2) append_Nil2)
    qed
    moreover have "\<exists>b \<in> set data. hit b" using True i by (auto intro!: bexI [of _ "data ! i"])
    ultimately show ?thesis using True i by (subst byte_scan.simps) (simp add: first_index_def)
  next
    case False
    have "\<forall>b \<in> set (take (Suc i) data). \<not> hit b" using False Suc.prems i by (simp add: take_Suc_conv_app_nth)
    then show ?thesis using Suc.hyps(1) [of "i + 1"] Suc.hyps(2) i False by (subst byte_scan.simps) simp
  qed
qed

text \<open>What the word loop of a search promises: a word stops it exactly if one of its bytes is sought.\<close>

locale swar_search =
  fixes stop :: "u64 \<Rightarrow> bool" and hit :: "u8 \<Rightarrow> bool"
  assumes stop_iff: "length bs = 8 \<Longrightarrow> stop (le_get bs) \<longleftrightarrow> (\<exists>b \<in> set bs. hit b)"
begin

lemma word_scan_skips:
  "i \<le> length data \<Longrightarrow> i \<le> word_scan stop data i \<and> word_scan stop data i \<le> length data \<and>
     (\<forall>k. i \<le> k \<and> k < word_scan stop data i \<longrightarrow> \<not> hit (data ! k))"
proof (induction "length data - i" arbitrary: i rule: less_induct)
  case less
  show ?case
  proof (cases "i + 8 \<le> length data \<and> \<not> stop (word_at data i)")
    case True
    then have "\<forall>b \<in> set (take 8 (drop i data)). \<not> hit b"
      using stop_iff [of "take 8 (drop i data)"] True by (auto simp: word_at_def)
    moreover have "data ! k \<in> set (take 8 (drop i data))" if "i \<le> k" "k < i + 8" for k
      using that True by (auto simp: in_set_conv_nth intro!: exI [of _ "k - i"])
    ultimately have first: "\<not> hit (data ! k)" if "i \<le> k" "k < i + 8" for k using that by blast
    have "i + 8 \<le> word_scan stop data (i + 8) \<and> word_scan stop data (i + 8) \<le> length data \<and>
        (\<forall>k. i + 8 \<le> k \<and> k < word_scan stop data (i + 8) \<longrightarrow> \<not> hit (data ! k))"
      using True by (intro less.hyps) auto
    moreover have "word_scan stop data i = word_scan stop data (i + 8)" using True by (subst word_scan.simps) simp
    ultimately show ?thesis using first by (metis add_leD1 not_le)
  next
    case False
    then have "word_scan stop data i = i" by (subst word_scan.simps) auto
    then show ?thesis using less.prems by auto
  qed
qed

lemma search_first: "byte_scan hit data (word_scan stop data 0) = first_index hit data"
  using word_scan_skips [of 0 data] by (intro byte_scan_first) (auto simp: in_set_conv_nth)

end

interpretation quote_search: swar_search quote_word quote_byte
proof
  fix bs :: "u8 list" assume bs: "length bs = 8"
  have r: "(0x2222222222222222 :: u64) = le_get (replicate 8 0x22)" "(0x5C5C5C5C5C5C5C5C :: u64) = le_get (replicate 8 0x5C)"
    by (simp_all flip: repeated_byte)
  show "quote_word (le_get bs) \<longleftrightarrow> (\<exists>b \<in> set bs. quote_byte b)"
    unfolding quote_word_def r HasZeroByte64_xor [OF bs] quote_byte_def by auto
qed

interpretation byte_search: swar_search "\<lambda>w. HasZeroByte64 (w XOR ucast t * 0x0101010101010101)" "\<lambda>b. b = t" for t :: u8
  by unfold_locales (simp add: repeated_byte HasZeroByte64_xor)

section \<open>Unmasking\<close>

text \<open>The bytes from \<open>lo\<close> to \<open>hi\<close> XORed with the key, the first key byte at index 0.\<close>

definition mask_range :: "u8 list \<Rightarrow> nat \<Rightarrow> nat \<Rightarrow> u8 list \<Rightarrow> u8 list" where
  "mask_range key lo hi data =
     map (\<lambda>j. if lo \<le> j \<and> j < hi then data ! j XOR key ! (j mod 4) else data ! j) [0 ..< length data]"

definition masked :: "u8 list \<Rightarrow> u8 list \<Rightarrow> u8 list" where
  "masked key data = map (\<lambda>j. data ! j XOR key ! (j mod 4)) [0 ..< length data]"

lemma length_masked [simp]: "length (masked key data) = length data"
  by (simp add: masked_def)

lemma length_mask_range [simp]: "length (mask_range key lo hi data) = length data"
  by (simp add: mask_range_def)

lemma masked_masked [simp]: "masked key (masked key data) = data"
  by (intro nth_equalityI) (auto simp: masked_def xor.assoc)

lemma mask_range_all: "mask_range key 0 (length data) data = masked key data"
  by (auto simp: mask_range_def masked_def)

lemma mask_range_empty [simp]: "mask_range key i i data = data"
  by (intro nth_equalityI) (auto simp: mask_range_def)

lemma mask_range_trans:
  "a \<le> b \<Longrightarrow> b \<le> c \<Longrightarrow> mask_range key b c (mask_range key a b data) = mask_range key a c data"
  by (intro nth_equalityI) (auto simp: mask_range_def)

lemma repeated_mask_get: 
  assumes "length key = 4"
  shows "repeated_mask key = le_get (key @ key)"
proof (rule bit_eqI)
  fix n :: nat
  have key: "bit (le_get key :: u32) j \<longleftrightarrow> j < 32 \<and> bit (key ! (j div 8)) (j mod 8)" for j
    using assms by (auto simp: bit_le_get)
  have l: "bit (repeated_mask key) n \<longleftrightarrow>
      n < 64 \<and> (bit (le_get key :: u32) n \<or> 32 \<le> n \<and> bit (le_get key :: u32) (n - 32))"
    unfolding repeated_mask_def Let_def bit_or_iff bit_push_bit_iff bit_ucast_iff
    by (auto dest: bit_imp_le_length)
  have r: "bit (le_get (key @ key) :: u64) n \<longleftrightarrow> n < 64 \<and> bit ((key @ key) ! (n div 8)) (n mod 8)"
    using assms by (auto simp: bit_le_get)
  show "bit (repeated_mask key) n = bit (le_get (key @ key) :: u64) n"
  proof (cases "n < 32")
    case True
    then have "n div 8 < 4" by simp
    then show ?thesis unfolding l r key using True assms by (auto simp: nth_append)
  next
    case False
    define e where "e = n - 32"
    obtain d where d: "n = d + 4 * 8" using False by (intro that [of e]) (simp add: e_def)
    have n: "n div 8 = d div 8 + 4" "n mod 8 = d mod 8" "n - 32 = d" unfolding d using mod_mult_self2 [of d 8 4] by simp_all
    have k: "(key @ key) ! (d div 8 + 4) = key ! (d div 8)" using assms by (simp add: nth_append)
    show ?thesis unfolding l r key n k using d by auto
  qed
qed

lemma put_word_mask:
  assumes "length key = 4" "i mod 8 = 0" "i + 8 \<le> length data"
  shows "put_word data i (word_at data i XOR repeated_mask key) = mask_range key i (i + 8) data"
proof -
  have "le_put 8 (word_at data i XOR repeated_mask key) = map2 (XOR) (take 8 (drop i data)) (key @ key)"
  proof -
    have "word_at data i XOR repeated_mask key = le_get (map2 (XOR) (take 8 (drop i data)) (key @ key))"
      using assms by (simp add: word_at_def repeated_mask_get le_get_xor)
    then show ?thesis using assms by (simp add: le_put_get)
  qed
  moreover have "(key @ key) ! (j - i) = key ! (j mod 4)" if "i \<le> j" "j < i + 8" for j
  proof -
    obtain q where q: "i = 8 * q" using assms(2) by auto
    define d where "d = j - i"
    have "d < 8" and j: "j = d + 4 * (2 * q)" using that q by (simp_all add: d_def)
    moreover have "j mod 4 = d mod 4" unfolding j by (rule mod_mult_self2)
    ultimately have "j mod 4 = (if j - i < 4 then j - i else j - i - 4)"
      unfolding d_def [symmetric] by (auto simp: mod_if)
    then show ?thesis using assms(1) by (simp add: nth_append)
  qed
  ultimately show ?thesis
    using assms by (intro nth_equalityI) (auto simp: put_word_def mask_range_def nth_append not_less)
qed

lemma unmask_words_range:
  assumes "length key = 4"
  shows "i mod 8 = 0 \<Longrightarrow> i \<le> length data \<Longrightarrow>
    \<exists>j. i \<le> j \<and> j \<le> length data \<and> unmask_words (repeated_mask key) data i = (mask_range key i j data, j)"
proof (induction "length data - i" arbitrary: i data rule: less_induct)
  case less
  show ?case
  proof (cases "i + 8 \<le> length data")
    case True
    let ?d = "mask_range key i (i + 8) data"
    have "\<exists>j. i + 8 \<le> j \<and> j \<le> length ?d \<and> unmask_words (repeated_mask key) ?d (i + 8) = (mask_range key (i + 8) j ?d, j)"
      using True less.prems by (intro less.hyps) auto
    then show ?thesis
      using True put_word_mask [OF assms less.prems(1) True] by (subst unmask_words.simps) (auto simp: mask_range_trans)
  qed (use less.prems in \<open>subst unmask_words.simps, auto\<close>)
qed

lemma unmask_bytes_range:
  "i \<le> length data \<Longrightarrow> unmask_bytes key data i = mask_range key i (length data) data"
proof (induction "length data - i" arbitrary: i data rule: less_induct)
  case less
  show ?case
  proof (cases "i < length data")
    case True
    let ?d = "data[i := data ! i XOR key ! (i mod 4)]"
    have "?d = mask_range key i (i + 1) data" by (rule nth_equalityI) (auto simp: mask_range_def nth_list_update le_less_Suc_eq)
    then show ?thesis using less.hyps [of ?d "i + 1"] True by (subst unmask_bytes.simps) (simp add: mask_range_trans)
  next
    case False
    then show ?thesis using less.prems by (subst unmask_bytes.simps) simp
  qed
qed

lemma unmask_masked: "length key = 4 \<Longrightarrow> UnmaskBytesVectorized payload key = masked key payload"
  using unmask_words_range [of key 0 payload]
  by (auto simp: UnmaskBytesVectorized_def unmask_bytes_range mask_range_trans simp flip: mask_range_all)

section \<open>Properties\<close>

text \<open>The zero-byte test on a word is exact: it holds if and only if one of the eight bytes is zero.\<close>

lemma HasZeroByte64_exact:
  fixes w :: u64
  shows "HasZeroByte64 w \<longleftrightarrow> (\<exists>i < 8. (ucast (drop_bit (8 * i) w) :: u8) = 0)"
proof -
  have "HasZeroByte64 w \<longleftrightarrow> 0 \<in> set (le_put 8 w)"
    using HasZeroByte64_iff [of "le_put 8 w"] by (simp add: le_get_put)
  also have "\<dots> \<longleftrightarrow> (\<exists>i < 8. (ucast (drop_bit (8 * i) w) :: u8) = 0)"
    by (auto simp: le_put_def image_iff Bex_def eq_commute [of 0])
  finally show ?thesis .
qed

text \<open>C21. The vectorised searches find what a search byte by byte finds, the first quote or backslash and the
  first occurrence of a byte, and -1 if there is none, for data of every length; the vectorised unmasking
  XORs byte i with key byte i mod 4, so that unmasking twice gives the data back.\<close>

theorem swar_equals_bytewise:
  assumes "length key = 4"
  shows "FindQuoteOrEscape data = first_index (\<lambda>b. b = 0x22 \<or> b = 0x5C) data \<and>
    FindByte data target = first_index (\<lambda>b. b = target) data \<and>
    UnmaskBytesVectorized data key = map (\<lambda>i. data ! i XOR key ! (i mod 4)) [0 ..< length data] \<and>
    UnmaskBytesVectorized (UnmaskBytesVectorized data key) key = data"
proof (intro conjI)
  show "FindQuoteOrEscape data = first_index (\<lambda>b. b = 0x22 \<or> b = 0x5C) data"
    unfolding FindQuoteOrEscape_def quote_search.search_first by (simp add: quote_byte_def [abs_def])
  show "FindByte data target = first_index (\<lambda>b. b = target) data"
    by (simp add: FindByte_def Let_def byte_search.search_first)
qed (simp_all add: unmask_masked [OF assms] masked_def [symmetric])

definition demo_payload :: "u8 list" where
  "demo_payload = [1, 2, 3, 4, 5, 6, 7, 8, 0x5C, 10]"

lemma swar_equals_bytewise_witness:
  "FindQuoteOrEscape demo_payload = 8 \<and> FindByte demo_payload 10 = 9 \<and>
   UnmaskBytesVectorized demo_payload [1, 2, 3, 4] = [0, 0, 0, 0, 4, 4, 4, 12, 0x5D, 8]"
proof -
  have "length [1, 2, 3, 4 :: u8] = 4" by simp
  note * = swar_equals_bytewise [OF this, of demo_payload 10]
  have "first_index (\<lambda>b. b = 0x22 \<or> b = 0x5C) demo_payload = 8" "first_index (\<lambda>b. b = 10) demo_payload = 9"
    by (simp_all add: first_index_def demo_payload_def)
  moreover have "map (\<lambda>i. demo_payload ! i XOR [1, 2, 3, 4] ! (i mod 4)) [0 ..< length demo_payload]
      = [0, 0, 0, 0, 4, 4, 4, 12, 0x5D, 8]"
    by code_simp
  ultimately show ?thesis using * by simp
qed

end
