(* ===== verification/WebSocket.thy ===== *)
theory WebSocket
  imports Swar
begin

text \<open>
  WebSocket frames, \<^verbatim>\<open>codec/ws.go\<close>: reading a frame from a stream into a scope, and writing one. The
  reader is the bytes still to come; the writer is a parameter with its own state and errors.
\<close>

section \<open>Reading\<close>

definition WSOpClose :: u8 where
  "WSOpClose = 8"

record ws_frame =
  fr_opcode :: u8
  fr_fin :: bool
  fr_payload :: "u8 list"

definition unmaskVectorized :: "u8 list \<Rightarrow> u8 list \<Rightarrow> u8 list" where
  "unmaskVectorized b key = (let (data, i) = unmask_words (repeated_mask key) b 0 in unmask_bytes key data i)"

text \<open>A read that fails ends the call with its error.\<close>

fun on_read :: "u8 list \<times> (codec_error, 'a) gocall \<Rightarrow> ('a \<Rightarrow> u8 list \<Rightarrow> u8 list \<times> (codec_error, 'b) gocall)
    \<Rightarrow> u8 list \<times> (codec_error, 'b) gocall" where
  "on_read (r, Ok v) f = f v r"
| "on_read (r, Err e) f = (r, Err e)"
| "on_read (r, Panicked p) f = (r, Panicked p)"

text \<open>\<^verbatim>\<open>payloadLen\<close>: the seven bits of the second header byte, or the 16 or 64 bits that follow it.\<close>

definition read_length :: "u8 \<Rightarrow> u8 list \<Rightarrow> u8 list \<times> (codec_error, int) gocall" where
  "read_length h1 r =
     (let payloadLen = uint (h1 AND 0x7F) in
      if payloadLen = 126 then on_read (ReadFull 2 r) (\<lambda>ext r. (r, Ok (uint (be_get ext :: u16))))
      else if payloadLen = 127 then on_read (ReadFull 8 r) (\<lambda>ext r. (r, Ok (sint (be_get ext :: u64))))
      else (r, Ok payloadLen))"

text \<open>The buffer for the payload: in the scope, or made on the heap.\<close>

definition payload_buffer :: "byte_scope \<Rightarrow> int \<Rightarrow> panic option" where
  "payload_buffer scope payloadLen =
     (case scope of
        Some alloc \<Rightarrow> alloc payloadLen
      | None \<Rightarrow> (case makeslice 1 payloadLen payloadLen of Return _ \<Rightarrow> None | Panic p \<Rightarrow> Some p))"

definition ReadWSFrame :: "byte_scope \<Rightarrow> u8 list \<Rightarrow> u8 list \<times> (codec_error, ws_frame) gocall" where
  "ReadWSFrame scope r =
     on_read (ReadFull 2 r) (\<lambda>header r.
       let fin = header ! 0 AND 0x80 \<noteq> 0; opcode = header ! 0 AND 0x0F; isMasked = header ! 1 AND 0x80 \<noteq> 0
       in if \<not> fin \<and> opcode \<ge> WSOpClose then (r, Err ErrControlFrameFrag)
          else on_read (read_length (header ! 1) r) (\<lambda>payloadLen r.
            on_read (if isMasked then ReadFull 4 r else (r, Ok [0, 0, 0, 0])) (\<lambda>maskKey r.
              if payloadLen > 0 then
                (case payload_buffer scope payloadLen of
                   Some p \<Rightarrow> (r, Panicked p)
                 | None \<Rightarrow>
                     on_read (ReadFull (nat payloadLen) r) (\<lambda>payload r.
                       (r, Ok \<lparr>fr_opcode = opcode, fr_fin = fin,
                               fr_payload = if isMasked then unmaskVectorized payload maskKey else payload\<rparr>)))
              else (r, Ok \<lparr>fr_opcode = opcode, fr_fin = fin, fr_payload = []\<rparr>))))"

section \<open>Writing\<close>

text \<open>The bytes of the header: the two fixed ones, the extended length, the key.\<close>

definition ws_header :: "u8 \<Rightarrow> bool \<Rightarrow> int \<Rightarrow> u8 list option \<Rightarrow> u8 list" where
  "ws_header opcode fin len key =
     (let b0 = (if fin then opcode OR 0x80 else opcode);
          b1 = (if key \<noteq> None then 0x80 else 0)
      in b0 #
         (if len \<le> 125 then [b1 OR word_of_int len]
          else if len \<le> 65535 then (b1 OR 126) # be_put 2 (word_of_int len :: u16)
          else (b1 OR 127) # be_put 8 (word_of_int len :: u64)) @
         (case key of Some k \<Rightarrow> k | None \<Rightarrow> []))"

text \<open>\<^verbatim>\<open>w.Write\<close> takes the bytes and the writer's state and may return an error.\<close>

definition WriteWSFrame ::
    "(u8 list \<Rightarrow> 'w \<Rightarrow> 'w \<times> 'e option) \<Rightarrow> 'w \<Rightarrow> u8 \<Rightarrow> bool \<Rightarrow> u8 list \<Rightarrow> u8 list option \<Rightarrow> 'w \<times> 'e option" where
  "WriteWSFrame write w opcode fin payload key =
     (let len = int (length payload) in
      case write (ws_header opcode fin len key) w of
        (w1, Some e) \<Rightarrow> (w1, Some e)
      | (w1, None) \<Rightarrow>
          if len > 0 then
            (case key of
               Some k \<Rightarrow> (case write (unmaskVectorized payload k) w1 of (w2, Some e) \<Rightarrow> (w2, Some e) | (w2, None) \<Rightarrow> (w2, None))
             | None \<Rightarrow> (case write payload w1 of (w2, Some e) \<Rightarrow> (w2, Some e) | (w2, None) \<Rightarrow> (w2, None)))
          else (w1, None))"

text \<open>A writer that collects what it is given.\<close>

definition to_buffer :: "u8 list \<Rightarrow> u8 list \<Rightarrow> u8 list \<times> unit option" where
  "to_buffer bs w = (w @ bs, None)"

section \<open>Round trip\<close>

lemma unmaskVectorized_masked: "length key = 4 \<Longrightarrow> unmaskVectorized b key = masked key b"
  using unmask_masked [of key b] by (simp add: unmaskVectorized_def UnmaskBytesVectorized_def)

definition key_ok :: "u8 list option \<Rightarrow> bool" where
  "key_ok key \<longleftrightarrow> (\<forall>k. key = Some k \<longrightarrow> length k = 4)"

definition frame_ok :: "byte_scope \<Rightarrow> ws_frame \<Rightarrow> bool" where
  "frame_ok scope f \<longleftrightarrow> fr_opcode f \<le> 0x0F \<and> (fr_fin f \<or> fr_opcode f < WSOpClose) \<and>
     int (length (fr_payload f)) \<le> maxAlloc \<and> (fr_payload f \<noteq> [] \<longrightarrow> payload_buffer scope (int (length (fr_payload f))) = None)"

text \<open>The two bytes of the header, read back.\<close>

lemma byte_0x80: "bit (0x80 :: u8) i \<longleftrightarrow> i = 7"
proof (cases "i < 8")
  case True
  have "\<forall>i \<in> set [0 ..< 8]. bit (0x80 :: u8) i \<longleftrightarrow> i = 7" by code_simp
  then show ?thesis using True by simp
qed (use bit_imp_le_length [of "0x80 :: u8" i] in auto)

lemma byte_small:
  fixes b :: u8
  assumes "uint b < 2 ^ k" "k \<le> 7"
  shows "(b OR 0x80) AND 0x80 \<noteq> 0" "b AND 0x80 = 0" "(b OR 0x80) AND mask k = b" "b AND mask k = b"
proof -
  have b: "bit b i \<Longrightarrow> i < k" for i using low_bits [of "uint b" k i] assms by simp
  have "bit ((b OR 0x80) AND 0x80) 7" by (simp add: bit_and_iff bit_or_iff byte_0x80)
  then show "(b OR 0x80) AND 0x80 \<noteq> 0" by auto
  show "b AND 0x80 = 0" by (rule bit_eqI) (use b [of 7] assms(2) in \<open>auto simp: bit_and_iff byte_0x80 bit_0x80\<close>)
  show "(b OR 0x80) AND mask k = b"
    by (rule bit_eqI) (use b assms(2) in \<open>auto simp: bit_and_iff bit_or_iff byte_0x80 bit_0x80 bit_mask_iff\<close>)
  show "b AND mask k = b" by (rule bit_eqI) (use b in \<open>auto simp: bit_and_iff bit_mask_iff\<close>)
qed

lemma header_byte0:
  assumes "(opcode :: u8) \<le> 0x0F"
  shows "(opcode OR 0x80) AND 0x80 \<noteq> 0" "opcode AND 0x80 = 0" "(opcode OR 0x80) AND 0x0F = opcode" "opcode AND 0x0F = opcode"
proof -
  have "uint opcode < 2 ^ 4" using assms by (simp add: word_le_def)
  note * = byte_small [OF this]
  show "(opcode OR 0x80) AND 0x80 \<noteq> 0" "opcode AND 0x80 = 0" "(opcode OR 0x80) AND 0x0F = opcode" "opcode AND 0x0F = opcode"
    using * by (simp_all only: masks) simp_all
qed

lemma header_byte1:
  assumes "0 \<le> l" "l \<le> 127"
  shows "uint (((0x80 :: u8) OR word_of_int l) AND 0x7F) = l" "((0x80 :: u8) OR word_of_int l) AND 0x80 \<noteq> 0"
    "uint ((word_of_int l :: u8) AND 0x7F) = l" "(word_of_int l :: u8) AND 0x80 = 0"
proof -
  have u: "uint (word_of_int l :: u8) = l" using assms by (simp add: unsigned_of_int take_bit_int_eq_self)
  have m: "(0x7F :: u8) = mask 7" by (simp add: mask_eq_exp_minus_1)
  have "uint (word_of_int l :: u8) < 2 ^ 7" unfolding u using assms by simp
  note * = byte_small [OF this order.refl]
  show "uint (((0x80 :: u8) OR word_of_int l) AND 0x7F) = l" "((0x80 :: u8) OR word_of_int l) AND 0x80 \<noteq> 0"
    "uint ((word_of_int l :: u8) AND 0x7F) = l" "(word_of_int l :: u8) AND 0x80 = 0"
    using * u unfolding m or.commute [of "0x80 :: u8"] by (simp_all only: simp_thms)
qed

lemma read_length_header:
  assumes "0 \<le> len" "len < 2 ^ 63"
  obtains b ext where "ws_header opcode fin len key =
      (if fin then opcode OR 0x80 else opcode) # b # ext @ (case key of Some k \<Rightarrow> k | None \<Rightarrow> [])"
    "(b AND 0x80 \<noteq> 0) = (key \<noteq> None)" "\<And>r. read_length b (ext @ r) = (r, Ok len)"
proof -
  let ?b1 = "\<lambda>n. if key \<noteq> None then (0x80 :: u8) OR word_of_int n else word_of_int n"
  have b1: "uint (?b1 n AND 0x7F) = n \<and> ((?b1 n AND 0x80 \<noteq> 0) = (key \<noteq> None))" if "0 \<le> n" "n \<le> 127" for n
    using header_byte1 [OF that] by auto
  have e: "(if key \<noteq> None then 0x80 else 0) OR word_of_int n = ?b1 n" for n by simp
  have be: "uint (be_get (be_put 2 (word_of_int len :: u16)) :: u16) = len" if "len \<le> 65535"
    using that assms by (simp add: be_get_put unsigned_of_int take_bit_int_eq_self)
  consider "len \<le> 125" | "125 < len" "len \<le> 65535" | "65535 < len" by linarith
  then show ?thesis
  proof cases
    case 1
    then show ?thesis using that [of "?b1 len" "[]"] b1 [of len] assms e [of len]
      by (simp add: ws_header_def Let_def read_length_def)
  next
    case 2
    then show ?thesis using that [of "?b1 126" "be_put 2 (word_of_int len :: u16)"] b1 [of 126] e [of 126] be
      by (simp add: ws_header_def Let_def read_length_def)
  next
    case 3
    have "sint (be_get (be_put 8 (word_of_int len :: u64)) :: u64) = len"
      using assms by (simp add: be_get_put signed_of_int signed_take_bit_int_eq_self)
    then show ?thesis using 3 that [of "?b1 127" "be_put 8 (word_of_int len :: u64)"] b1 [of 127] e [of 127]
      by (simp add: ws_header_def Let_def read_length_def)
  qed
qed

lemma WriteWSFrame_buffer:
  "key_ok key \<Longrightarrow> WriteWSFrame to_buffer w opcode fin p key =
     (w @ ws_header opcode fin (int (length p)) key @ (case key of Some k \<Rightarrow> masked k p | None \<Rightarrow> p), None)"
  by (cases key; cases "p = []")
    (simp_all add: WriteWSFrame_def Let_def to_buffer_def key_ok_def unmaskVectorized_masked, simp_all add: masked_def)

text \<open>C22. A frame that is written, with or without a masking key, is read back exactly, and the reader stops
  behind it: any payload up to the largest slice the run time makes, in a scope that can hold it, opcodes of four bits,
  and control frames that are not fragmented.\<close>

theorem frame_round_trip:
  assumes "frame_ok scope f" "key_ok key"
    and "WriteWSFrame to_buffer [] (fr_opcode f) (fr_fin f) (fr_payload f) key = (bytes, err)"
  shows "err = None \<and> ReadWSFrame scope (bytes @ rest) = (rest, Ok f)"
proof -
  let ?p = "fr_payload f" and ?op = "fr_opcode f" and ?len = "int (length (fr_payload f))"
  have op: "?op \<le> 0x0F" and fin: "fr_fin f \<or> ?op < WSOpClose" and len: "?len \<le> maxAlloc" "?len < 2 ^ 63"
    and buf: "?p \<noteq> [] \<Longrightarrow> payload_buffer scope ?len = None"
    using assms(1) by (auto simp: frame_ok_def maxAlloc_def)
  obtain b ext where h: "ws_header ?op (fr_fin f) ?len key =
      (if fr_fin f then ?op OR 0x80 else ?op) # b # ext @ (case key of Some k \<Rightarrow> k | None \<Rightarrow> [])"
    and bm: "(b AND 0x80 \<noteq> 0) = (key \<noteq> None)" and rl: "\<And>r. read_length b (ext @ r) = (r, Ok ?len)"
    using read_length_header [where len = ?len and fin = "fr_fin f" and opcode = ?op and key = key] len(2) by auto
  define h0 where "h0 = (if fr_fin f then ?op OR 0x80 else ?op)"
  have h0: "h0 AND 0x0F = ?op" "(h0 AND 0x80 \<noteq> 0) = fr_fin f" using header_byte0 [OF op] by (auto simp: h0_def)
  define body where "body = (case key of Some k \<Rightarrow> masked k ?p | None \<Rightarrow> ?p)"
  have body: "bytes = h0 # b # ext @ (case key of Some k \<Rightarrow> k | None \<Rightarrow> []) @ body" "err = None"
    using assms(3) h unfolding WriteWSFrame_buffer [OF assms(2)] h0_def [symmetric] body_def [symmetric] by auto
  have "ReadFull 2 (bytes @ rest) = (ext @ (case key of Some k \<Rightarrow> k | None \<Rightarrow> []) @ body @ rest, Ok [h0, b])"
    using body(1) ReadFull_append [of "[h0, b]" 2] by simp
  moreover have "ReadFull 4 (k @ r) = (r, Ok k)" if "key = Some k" for k r
    using that assms(2) by (simp add: key_ok_def)
  moreover have "ReadFull (length ?p) (body @ rest) = (rest, Ok body)"
    by (rule ReadFull_append) (simp add: body_def split: option.split)
  moreover have "unmaskVectorized body k = ?p" if "key = Some k" for k
    using that assms(2) by (simp add: body_def key_ok_def unmaskVectorized_masked)
  moreover have "body = ?p" if "key = None" using that by (simp add: body_def)
  moreover have "body = []" if "?p = []" using that by (simp add: body_def masked_def split: option.split)
  moreover have "\<not> (\<not> fr_fin f \<and> WSOpClose \<le> ?op)" using fin by auto
  moreover have "f = \<lparr>fr_opcode = ?op, fr_fin = fr_fin f, fr_payload = ?p\<rparr>" by simp
  ultimately have "ReadWSFrame scope (bytes @ rest) = (rest, Ok f)"
    using buf unfolding ReadWSFrame_def
    by (cases key; cases "?p = []") (simp_all add: Let_def h0 bm rl)
  then show ?thesis using body(2) by simp
qed


definition demo_frame :: ws_frame where
  "demo_frame = \<lparr>fr_opcode = 1, fr_fin = True, fr_payload = [0x68, 0x65, 0x6c, 0x6c, 0x6f, 0x2c, 0x20, 0x77, 0x73]\<rparr>"

lemma frame_round_trip_witness:
  "ReadWSFrame None ([0x81, 0x89, 1, 2, 3, 4, 0x69, 0x67, 0x6f, 0x68, 0x6e, 0x2e, 0x23, 0x73, 0x72] @ [7]) = ([7], Ok demo_frame)"
proof -
  have "WriteWSFrame to_buffer [] (fr_opcode demo_frame) (fr_fin demo_frame) (fr_payload demo_frame) (Some [1, 2, 3, 4])
      = ([0x81, 0x89, 1, 2, 3, 4, 0x69, 0x67, 0x6f, 0x68, 0x6e, 0x2e, 0x23, 0x73, 0x72], None)"
    by code_simp
  moreover have "frame_ok None demo_frame"
    by (simp add: frame_ok_def demo_frame_def maxAlloc_def payload_buffer_def makeslice_def)
  moreover have "key_ok (Some [1, 2, 3, 4])" by (simp add: key_ok_def)
  ultimately show ?thesis using frame_round_trip by blast
qed

section \<open>Deviations\<close>

text \<open>A 64-bit length with its highest bit set is not an error: the frame is accepted with an empty payload
  and the bytes behind the header are taken for the next frame.\<close>

lemma negative_length_accepted:
  fixes len :: u64
  assumes "bit len 63"
  shows "ReadWSFrame scope (0x82 # 0x7F # be_put 8 len @ rest) = (rest, Ok \<lparr>fr_opcode = 2, fr_fin = True, fr_payload = []\<rparr>)"
proof -
  have h: "ReadFull 2 (0x82 # 0x7F # r) = (r, Ok [0x82, 0x7F])" for r :: "u8 list"
    using ReadFull_append [of "[0x82, 0x7F]" 2 r] by simp
  have "sint (be_get (be_put 8 len) :: u64) < 0" using assms bit_last_iff [of len] by (simp add: be_get_put)
  then have "\<not> 0 < sint (be_get (be_put 8 len) :: u64)" by simp
  then show ?thesis by (simp add: ReadWSFrame_def h Let_def read_length_def)
qed

lemma negative_length_accepted_witness:
  "ReadWSFrame None (0x82 # 0x7F # be_put 8 (- 1 :: u64) @ [1, 2, 3]) = ([1, 2, 3], Ok \<lparr>fr_opcode = 2, fr_fin = True, fr_payload = []\<rparr>)"
  by (rule negative_length_accepted) simp

text \<open>A writer that fails ends the call with its error: nothing is written after a failed write.\<close>

lemma WriteWSFrame_errors:
  "WriteWSFrame write w opcode fin payload key =
     (let len = int (length payload); hdr = ws_header opcode fin len key;
          body = (case key of Some k \<Rightarrow> unmaskVectorized payload k | None \<Rightarrow> payload);
          r1 = write hdr w
      in if snd r1 \<noteq> None \<or> payload = [] then r1 else write body (fst r1))"
  by (auto simp: WriteWSFrame_def Let_def split: prod.splits option.splits)

end
