(* ===== verification/Unquote.thy ===== *)
theory Unquote
  imports Bytes
begin

text \<open>
  \<^verbatim>\<open>strconv.Unquote\<close> on double-quoted input, as the JSON scanner uses it for strings with escapes: the Go
  escapes, one character at a time, with UTF-8 decoding of what is not escaped.
\<close>

section \<open>UTF-8\<close>

definition cont_byte :: "u8 \<Rightarrow> bool" where
  "cont_byte b \<longleftrightarrow> 0x80 \<le> b \<and> b \<le> 0xBF"

text \<open>The length of the well-formed character at the front of a string that starts outside ASCII; 0 if
  there is none.\<close>

definition utf8_len :: "u8 list \<Rightarrow> nat" where
  "utf8_len s =
     (case s of
        a # b # c # d # _ \<Rightarrow>
          if 0xC2 \<le> a \<and> a \<le> 0xDF \<and> cont_byte b then 2
          else if 0xE0 \<le> a \<and> a \<le> 0xEF \<and> cont_byte b \<and> cont_byte c \<and> (a = 0xE0 \<longrightarrow> 0xA0 \<le> b) \<and> (a = 0xED \<longrightarrow> b \<le> 0x9F) then 3
          else if 0xF0 \<le> a \<and> a \<le> 0xF4 \<and> cont_byte b \<and> cont_byte c \<and> cont_byte d \<and> (a = 0xF0 \<longrightarrow> 0x90 \<le> b) \<and> (a = 0xF4 \<longrightarrow> b \<le> 0x8F) then 4
          else 0
      | a # b # c # _ \<Rightarrow>
          if 0xC2 \<le> a \<and> a \<le> 0xDF \<and> cont_byte b then 2
          else if 0xE0 \<le> a \<and> a \<le> 0xEF \<and> cont_byte b \<and> cont_byte c \<and> (a = 0xE0 \<longrightarrow> 0xA0 \<le> b) \<and> (a = 0xED \<longrightarrow> b \<le> 0x9F) then 3
          else 0
      | a # b # _ \<Rightarrow> if 0xC2 \<le> a \<and> a \<le> 0xDF \<and> cont_byte b then 2 else 0
      | _ \<Rightarrow> 0)"

definition utf8_encode :: "int \<Rightarrow> u8 list" where
  "utf8_encode r =
     (if r < 0x80 then [word_of_int r]
      else if r < 0x800 then [word_of_int (0xC0 + r div 0x40), word_of_int (0x80 + r mod 0x40)]
      else if r < 0x10000 then [word_of_int (0xE0 + r div 0x1000), word_of_int (0x80 + r div 0x40 mod 0x40), word_of_int (0x80 + r mod 0x40)]
      else [word_of_int (0xF0 + r div 0x40000), word_of_int (0x80 + r div 0x1000 mod 0x40),
            word_of_int (0x80 + r div 0x40 mod 0x40), word_of_int (0x80 + r mod 0x40)])"

definition valid_rune :: "int \<Rightarrow> bool" where
  "valid_rune r \<longleftrightarrow> 0 \<le> r \<and> r < 0xD800 \<or> 0xDFFF < r \<and> r \<le> 0x10FFFF"

section \<open>Escapes\<close>

definition unhex :: "u8 \<Rightarrow> int option" where
  "unhex b =
     (if 0x30 \<le> b \<and> b \<le> 0x39 then Some (uint b - 0x30)
      else if 0x61 \<le> b \<and> b \<le> 0x66 then Some (uint b - 0x61 + 10)
      else if 0x41 \<le> b \<and> b \<le> 0x46 then Some (uint b - 0x41 + 10)
      else None)"

definition octal :: "u8 \<Rightarrow> int option" where
  "octal b = (if 0x30 \<le> b \<and> b \<le> 0x37 then Some (uint b - 0x30) else None)"

text \<open>The first n digits as a number, and the rest.\<close>

fun digits :: "int \<Rightarrow> (u8 \<Rightarrow> int option) \<Rightarrow> nat \<Rightarrow> int \<Rightarrow> u8 list \<Rightarrow> (int \<times> u8 list) option" where
  "digits base f 0 v s = Some (v, s)"
| "digits base f (Suc n) v [] = None"
| "digits base f (Suc n) v (b # s) = (case f b of None \<Rightarrow> None | Some x \<Rightarrow> digits base f n (v * base + x) s)"

text \<open>The bytes that the character at the front contributes, and the rest; None for a syntax error.\<close>

fun unquote_char :: "u8 list \<Rightarrow> (u8 list \<times> u8 list) option" where
  "unquote_char [] = None"
| "unquote_char (c # s) =
     (if c = 0x22 then None
      else if c \<ge> 0x80 then
        (if utf8_len (c # s) = 0 then Some ([0xEF, 0xBF, 0xBD], s)
         else Some (take (utf8_len (c # s)) (c # s), drop (utf8_len (c # s)) (c # s)))
      else if c \<noteq> 0x5C then Some ([c], s)
      else case s of
             [] \<Rightarrow> None
           | e # s' \<Rightarrow>
               (if e = 0x61 then Some ([7], s')
                else if e = 0x62 then Some ([8], s')
                else if e = 0x66 then Some ([12], s')
                else if e = 0x6E then Some ([10], s')
                else if e = 0x72 then Some ([13], s')
                else if e = 0x74 then Some ([9], s')
                else if e = 0x76 then Some ([11], s')
                else if e = 0x78 then
                  (case digits 16 unhex 2 0 s' of None \<Rightarrow> None | Some (v, r) \<Rightarrow> Some ([word_of_int v], r))
                else if e = 0x75 then
                  (case digits 16 unhex 4 0 s' of None \<Rightarrow> None
                   | Some (v, r) \<Rightarrow> if valid_rune v then Some (utf8_encode v, r) else None)
                else if e = 0x55 then
                  (case digits 16 unhex 8 0 s' of None \<Rightarrow> None
                   | Some (v, r) \<Rightarrow> if valid_rune v then Some (utf8_encode v, r) else None)
                else if 0x30 \<le> e \<and> e \<le> 0x37 then
                  (case digits 8 octal 2 (uint e - 0x30) s' of None \<Rightarrow> None
                   | Some (v, r) \<Rightarrow> if v > 255 then None else Some ([word_of_int v], r))
                else if e = 0x5C then Some ([0x5C], s')
                else if e = 0x22 then Some ([0x22], s')
                else None))"

lemma digits_length: "digits base f n v s = Some (w, r) \<Longrightarrow> length r \<le> length s"
  by (induction base f n v s rule: digits.induct) (auto split: option.splits)

lemma unquote_char_shorter: "unquote_char s = Some (out, r) \<Longrightarrow> length r < length s"
  by (cases s) (auto split: if_splits list.splits option.splits dest!: digits_length)

declare unquote_char.simps [simp del]

text \<open>The characters up to the closing quote, which must be the last byte.\<close>

function unquote_body :: "u8 list \<Rightarrow> u8 list option" where
  "unquote_body s =
     (case s of
        [] \<Rightarrow> None
      | c # s' \<Rightarrow>
          if c = 0x22 then if s' = [] then Some [] else None
          else if c = 0x0A then None
          else case unquote_char s of
                 None \<Rightarrow> None
               | Some (out, r) \<Rightarrow> (case unquote_body r of None \<Rightarrow> None | Some rest \<Rightarrow> Some (out @ rest)))"
  by pat_completeness auto
termination by (relation "measure length") (auto dest!: unquote_char_shorter)

declare unquote_body.simps [simp del]

text \<open>\<^verbatim>\<open>strconv.Unquote(`"` + raw + `"`)\<close>\<close>

definition unquote :: "u8 list \<Rightarrow> u8 list option" where
  "unquote raw = unquote_body (raw @ [0x22])"

section \<open>Quoting and unquoting\<close>

definition escape_byte :: "u8 \<Rightarrow> u8 list" where
  "escape_byte b = (if b = 0x22 \<or> b = 0x5C then [0x5C, b] else if b = 0x0A then [0x5C, 0x6E] else [b])"

definition ascii :: "u8 list \<Rightarrow> bool" where
  "ascii s \<longleftrightarrow> (\<forall>b \<in> set s. b < 0x80)"

lemma unquote_escape_byte:
  assumes "b < 0x80"
  shows "unquote_body (escape_byte b @ s) = (case unquote_body s of None \<Rightarrow> None | Some rest \<Rightarrow> Some (b # rest))"
  using assms by (subst unquote_body.simps) (auto simp: escape_byte_def not_le unquote_char.simps split: option.split)

lemma unquote_escape: "ascii s \<Longrightarrow> unquote (concat (map escape_byte s)) = Some s"
proof (induction s)
  case Nil
  then show ?case by (simp add: unquote_def unquote_body.simps)
next
  case (Cons b s)
  then show ?case
    using unquote_escape_byte [of b "concat (map escape_byte s) @ [0x22]"] by (simp add: unquote_def ascii_def)
qed

text \<open>Escapes of JSON that Go does not have: \<^verbatim>\<open>\/\<close>, and the two halves of a surrogate pair.\<close>

lemma unquote_slash: "unquote [0x5C, 0x2F] = None"
  by code_simp

lemma unquote_surrogates: "unquote [0x5C, 0x75, 0x64, 0x38, 0x33, 0x64, 0x5C, 0x75, 0x64, 0x65, 0x30, 0x30] = None"
  by code_simp

end
