(* ===== verification/Json.thy ===== *)
theory Json
  imports Swar Unquote
begin

text \<open>
  The JSON scanner, \<^verbatim>\<open>codec/json.go\<close>: a byte slice and a position, which never is negative; \<^verbatim>\<open>Next\<close>
  with the word-at-a-time search for the end of a string, keys recognised by the colon that follows, and the
  copies into a scope.
\<close>

section \<open>Scanner\<close>

datatype JSONTokenType =
    JSONTokenNone
  | JSONTokenObjectStart
  | JSONTokenObjectEnd
  | JSONTokenArrayStart
  | JSONTokenArrayEnd
  | JSONTokenKey
  | JSONTokenString
  | JSONTokenNumber
  | JSONTokenBool
  | JSONTokenNull

type_synonym json_token = "JSONTokenType \<times> u8 list"

record scanner =
  js_data :: "u8 list"
  js_pos :: nat

abbreviation js_len :: "scanner \<Rightarrow> nat" where
  "js_len s \<equiv> length (js_data s)"

definition NewJSONScanner :: "u8 list \<Rightarrow> scanner" where
  "NewJSONScanner bs = \<lparr>js_data = bs, js_pos = 0\<rparr>"

text \<open>Space, tab, carriage return, line feed.\<close>

definition is_space :: "u8 \<Rightarrow> bool" where
  "is_space b \<longleftrightarrow> b = 0x20 \<or> b = 0x09 \<or> b = 0x0D \<or> b = 0x0A"

text \<open>Commas and colons are skipped like white space.\<close>

definition skipped :: "u8 \<Rightarrow> bool" where
  "skipped b \<longleftrightarrow> is_space b \<or> b = 0x2C \<or> b = 0x3A"

text \<open>The loops that move a position over bytes of a kind.\<close>

function skip_while :: "(u8 \<Rightarrow> bool) \<Rightarrow> u8 list \<Rightarrow> nat \<Rightarrow> nat" where
  "skip_while f data p = (if p < length data \<and> f (data ! p) then skip_while f data (p + 1) else p)"
  by auto
termination by (relation "measure (\<lambda>(f, data, p). length data - p)") auto

declare skip_while.simps [simp del]

definition skipWhitespace :: "scanner \<Rightarrow> scanner" where
  "skipWhitespace s = s\<lparr>js_pos := skip_while skipped (js_data s) (js_pos s)\<rparr>"

text \<open>The word test of the fast path, written out in \<^verbatim>\<open>scanString\<close>.\<close>

definition string_stop :: "u64 \<Rightarrow> bool" where
  "string_stop w =
     (let xorQuote = w XOR 0x2222222222222222; xorSlash = w XOR 0x5c5c5c5c5c5c5c5c
      in ((xorQuote - 0x0101010101010101) AND NOT xorQuote) AND 0x8080808080808080 \<noteq> 0 \<or>
         ((xorSlash - 0x0101010101010101) AND NOT xorSlash) AND 0x8080808080808080 \<noteq> 0)"

text \<open>The byte loop: the position at which it ends, and, if it ends at a quote, whether there were escapes.\<close>

function string_loop :: "u8 list \<Rightarrow> nat \<Rightarrow> bool \<Rightarrow> nat \<times> bool option" where
  "string_loop data p escaped =
     (if p < length data
      then if data ! p = 0x5C then string_loop data (p + 2) True
           else if data ! p = 0x22 then (p, Some escaped)
           else string_loop data (p + 1) escaped
      else (p, None))"
  by auto
termination by (relation "measure (\<lambda>(data, p, escaped). length data - p)") auto

declare string_loop.simps [simp del]

text \<open>The copy of a string into the scope; \<^verbatim>\<open>&buf[0]\<close> is out of range for an empty one.\<close>

definition copy_string :: "byte_scope \<Rightarrow> u8 list \<Rightarrow> (codec_error, u8 list) gocall" where
  "copy_string scope str =
     (case scope of
        None \<Rightarrow> Ok str
      | Some alloc \<Rightarrow>
          (case alloc (int (length str)) of
             Some p \<Rightarrow> Panicked p
           | None \<Rightarrow> if str = [] then Panicked IndexOutOfRange else Ok str))"

definition scanString :: "byte_scope \<Rightarrow> scanner \<Rightarrow> scanner \<times> (codec_error, u8 list) gocall" where
  "scanString scope s =
     (let data = js_data s; start = js_pos s + 1; (p, r) = string_loop data (word_scan string_stop data start) False
      in case r of
           None \<Rightarrow> (s\<lparr>js_pos := p\<rparr>, Err ErrMalformedJSON)
         | Some escaped \<Rightarrow>
             (let raw = take (p - start) (drop start data); s' = s\<lparr>js_pos := p + 1\<rparr>
              in if \<not> escaped then (s', copy_string scope raw)
                 else case unquote raw of
                        None \<Rightarrow> (s', Err ErrSyntax)
                      | Some unquoted \<Rightarrow> (s', copy_string scope unquoted)))"

text \<open>The bytes \<^verbatim>\<open>true\<close>, \<^verbatim>\<open>false\<close> and \<^verbatim>\<open>null\<close>.\<close>

definition lit_true :: "u8 list" where "lit_true = [0x74, 0x72, 0x75, 0x65]"
definition lit_false :: "u8 list" where "lit_false = [0x66, 0x61, 0x6C, 0x73, 0x65]"
definition lit_null :: "u8 list" where "lit_null = [0x6E, 0x75, 0x6C, 0x6C]"

definition lit_at :: "u8 list \<Rightarrow> scanner \<Rightarrow> bool" where
  "lit_at lit s \<longleftrightarrow> js_pos s + length lit \<le> js_len s \<and> take (length lit) (drop (js_pos s) (js_data s)) = lit"

definition scanBool :: "scanner \<Rightarrow> scanner \<times> (codec_error, json_token) gocall" where
  "scanBool s =
     (if lit_at lit_true s then (s\<lparr>js_pos := js_pos s + 4\<rparr>, Ok (JSONTokenBool, lit_true))
      else if lit_at lit_false s then (s\<lparr>js_pos := js_pos s + 5\<rparr>, Ok (JSONTokenBool, lit_false))
      else (s, Err ErrMalformedJSON))"

definition scanNull :: "scanner \<Rightarrow> scanner \<times> (codec_error, json_token) gocall" where
  "scanNull s =
     (if lit_at lit_null s then (s\<lparr>js_pos := js_pos s + 4\<rparr>, Ok (JSONTokenNull, lit_null))
      else (s, Err ErrMalformedJSON))"

text \<open>Digits, signs, the point and the exponent, in any order.\<close>

definition number_byte :: "u8 \<Rightarrow> bool" where
  "number_byte b \<longleftrightarrow> 0x30 \<le> b \<and> b \<le> 0x39 \<or> b = 0x2D \<or> b = 0x2B \<or> b = 0x2E \<or> b = 0x65 \<or> b = 0x45"

definition scanNumber :: "scanner \<Rightarrow> scanner \<times> (codec_error, json_token) gocall" where
  "scanNumber s =
     (let p = skip_while number_byte (js_data s) (js_pos s)
      in (s\<lparr>js_pos := p\<rparr>, Ok (JSONTokenNumber, take (p - js_pos s) (drop (js_pos s) (js_data s)))))"

text \<open>A string is a key if a colon follows, after white space.\<close>

definition key_or_string :: "scanner \<Rightarrow> u8 list \<Rightarrow> scanner \<times> (codec_error, json_token) gocall" where
  "key_or_string s str =
     (let peekPos = skip_while is_space (js_data s) (js_pos s)
      in if peekPos < js_len s \<and> js_data s ! peekPos = 0x3A
         then (s\<lparr>js_pos := peekPos + 1\<rparr>, Ok (JSONTokenKey, str))
         else (s, Ok (JSONTokenString, str)))"

definition Next :: "byte_scope \<Rightarrow> scanner \<Rightarrow> scanner \<times> (codec_error, json_token) gocall" where
  "Next scope s0 =
     (let s = skipWhitespace s0 in
      if js_pos s \<ge> js_len s then (s, Err EOF)
      else let b = js_data s ! js_pos s; s1 = s\<lparr>js_pos := js_pos s + 1\<rparr> in
           if b = 0x7B then (s1, Ok (JSONTokenObjectStart, [0x7B]))
           else if b = 0x7D then (s1, Ok (JSONTokenObjectEnd, [0x7D]))
           else if b = 0x5B then (s1, Ok (JSONTokenArrayStart, [0x5B]))
           else if b = 0x5D then (s1, Ok (JSONTokenArrayEnd, [0x5D]))
           else if b = 0x22 then
             (case scanString scope s of
                (s2, Ok str) \<Rightarrow> key_or_string s2 str
              | (s2, Err e) \<Rightarrow> (s2, Err e)
              | (s2, Panicked p) \<Rightarrow> (s2, Panicked p))
           else if b = 0x74 \<or> b = 0x66 then scanBool s
           else if b = 0x6E then scanNull s
           else if b = 0x2D \<or> 0x30 \<le> b \<and> b \<le> 0x39 then scanNumber s
           else (s, Err ErrMalformedJSON))"

section \<open>Loops\<close>

definition js :: "u8 list \<Rightarrow> u8 list \<Rightarrow> scanner" where
  "js pre post = \<lparr>js_data = pre @ post, js_pos = length pre\<rparr>"

lemma js_simps [simp]:
  "js_data (js pre post) = pre @ post" "js_pos (js pre post) = length pre"
  "js pre post\<lparr>js_pos := p\<rparr> = \<lparr>js_data = pre @ post, js_pos = p\<rparr>"
  by (simp_all add: js_def)

lemma skip_while_at:
  "\<forall>b \<in> set v. f b \<Longrightarrow> post = [] \<or> \<not> f (hd post) \<Longrightarrow> skip_while f (pre @ v @ post) (length pre) = length pre + length v"
proof (induction v arbitrary: pre)
  case Nil
  then show ?case by (subst skip_while.simps) (auto simp: nth_append hd_conv_nth)
next
  case (Cons b v)
  then have "skip_while f ((pre @ [b]) @ v @ post) (length (pre @ [b])) = length (pre @ [b]) + length v"
    by (intro Cons.IH) auto
  then show ?case using Cons.prems by (subst skip_while.simps) simp
qed

lemma skip_while_bounds: "p \<le> skip_while f data p \<and> (p \<le> length data \<longrightarrow> skip_while f data p \<le> length data)"
proof (induction f data p rule: skip_while.induct)
  case (1 f data p)
  show ?case
  proof (cases "p < length data \<and> f (data ! p)")
    case True
    then have "skip_while f data p = skip_while f data (p + 1)" by (subst skip_while.simps) simp
    then show ?thesis using 1 True by auto
  next
    case False
    then have "skip_while f data p = p" by (subst skip_while.simps) auto
    then show ?thesis by simp
  qed
qed

interpretation string_search: swar_search string_stop quote_byte
proof -
  have "string_stop = quote_word"
    by (rule ext) (simp add: string_stop_def quote_word_def HasZeroByte64_def hi8_def lo8_def Let_def and.assoc)
  then show "swar_search string_stop quote_byte" using quote_search.swar_search_axioms by simp
qed

lemma string_loop_skip:
  "i \<le> j \<Longrightarrow> j \<le> length data \<Longrightarrow> \<forall>k. i \<le> k \<and> k < j \<longrightarrow> \<not> quote_byte (data ! k) \<Longrightarrow>
     string_loop data i e = string_loop data j e"
proof (induction "j - i" arbitrary: i)
  case (Suc n)
  then have "string_loop data (Suc i) e = string_loop data j e" by (intro Suc.hyps) auto
  then show ?case using Suc.prems Suc.hyps(2) by (subst string_loop.simps) (auto simp: quote_byte_def)
qed simp

text \<open>The fast path does not change what the byte loop finds.\<close>

lemma string_loop_fast:
  assumes "i \<le> length data"
  shows "string_loop data (word_scan string_stop data i) e = string_loop data i e"
  using string_search.word_scan_skips [OF assms] by (intro string_loop_skip [symmetric]) auto

lemma string_loop_bounds:
  "string_loop data p e = (q, r) \<Longrightarrow> p \<le> length data + 1 \<Longrightarrow> p \<le> q \<and> q \<le> length data + 1 \<and> (r \<noteq> None \<longrightarrow> q < length data)"
proof (induction data p e arbitrary: q r rule: string_loop.induct)
  case (1 data p e)
  consider "p \<ge> length data" | "p < length data" "data ! p = 0x5C"
    | "p < length data" "data ! p \<noteq> 0x5C" "data ! p = 0x22" | "p < length data" "data ! p \<noteq> 0x5C" "data ! p \<noteq> 0x22"
    by linarith
  then show ?case
  proof cases
    case 2
    then have "string_loop data (p + 2) True = (q, r)" using "1.prems"(1) by (subst (asm) string_loop.simps) simp
    then show ?thesis using "1.IH"(1) [OF 2] 2 by auto
  next
    case 4
    then have "string_loop data (p + 1) e = (q, r)" using "1.prems"(1) by (subst (asm) string_loop.simps) simp
    then show ?thesis using "1.IH"(2) [OF 4] 4 by auto
  qed (use "1.prems" in \<open>subst (asm) string_loop.simps, auto\<close>)+
qed

text \<open>What the string's bytes are, seen from the byte loop.\<close>

fun string_body :: "u8 list \<Rightarrow> bool" where
  "string_body [] = True"
| "string_body (b # s) = (b \<noteq> 0x22 \<and> (if b = 0x5C then s \<noteq> [] \<and> string_body (tl s) else string_body s))"

definition has_escape :: "u8 list \<Rightarrow> bool" where
  "has_escape s \<longleftrightarrow> 0x5C \<in> set s"

lemma string_loop_body:
  "string_body v \<Longrightarrow> string_loop (pre @ v @ 0x22 # post) (length pre) e = (length pre + length v, Some (e \<or> has_escape v))"
proof (induction v arbitrary: pre e rule: string_body.induct)
  case 1
  then show ?case by (subst string_loop.simps) (simp add: has_escape_def)
next
  case (2 b s)
  show ?case
  proof (cases "b = 0x5C")
    case True
    then obtain c s' where s: "s = c # s'" using 2 by (cases s) auto
    then have "string_loop ((pre @ [b, c]) @ s' @ 0x22 # post) (length (pre @ [b, c])) True
        = (length (pre @ [b, c]) + length s', Some (True \<or> has_escape s'))"
      using "2.IH"(1) [of "pre @ [b, c]" True] "2.prems" True by simp
    then show ?thesis using True by (subst string_loop.simps) (simp add: s has_escape_def)
  next
    case False
    then have "string_loop ((pre @ [b]) @ s @ 0x22 # post) (length (pre @ [b])) e = (length (pre @ [b]) + length s, Some (e \<or> has_escape s))"
      using "2.IH"(2) [of "pre @ [b]" e] "2.prems" by simp
    then show ?thesis using False "2.prems" by (subst string_loop.simps) (auto simp: has_escape_def)
  qed
qed

text \<open>The bytes of a string as the scanner decodes them, None for an escape it does not know.\<close>

definition string_value :: "u8 list \<Rightarrow> u8 list option" where
  "string_value raw = (if has_escape raw then unquote raw else Some raw)"

lemma scanString_body:
  assumes "string_body raw"
  shows "scanString scope (js pre (0x22 # raw @ 0x22 # post)) =
    (js (pre @ 0x22 # raw @ [0x22]) post,
     case string_value raw of None \<Rightarrow> Err ErrSyntax | Some str \<Rightarrow> copy_string scope str)"
proof -
  let ?data = "pre @ 0x22 # raw @ 0x22 # post" and ?start = "length pre + 1"
  have "string_loop ?data (word_scan string_stop ?data ?start) False = string_loop ?data ?start False"
    by (rule string_loop_fast) simp
  also have "\<dots> = (?start + length raw, Some (has_escape raw))"
    using string_loop_body [OF assms, of "pre @ [0x22]" post False] by simp
  finally have *: "string_loop ?data (word_scan string_stop ?data ?start) False = (?start + length raw, Some (has_escape raw))" .
  show ?thesis
    using * by (simp add: scanString_def Let_def string_value_def js_def split: option.split)
qed

section \<open>Progress\<close>

definition js_valid :: "scanner \<Rightarrow> bool" where
  "js_valid s \<longleftrightarrow> js_pos s \<le> js_len s + 1"

end
