(* ===== verification/Json_Spec.thy ===== *)
theory Json_Spec
  imports Json
begin

text \<open>
  What the JSON scanner promises: it always moves forward, so that scanning ends; the tokens of a printed
  value, with any white space between them, are scanned in order; and what it accepts beyond JSON.
\<close>

section \<open>Progress and termination\<close>




text \<open>A client's loop: tokens until the first error, with a bound on their number.\<close>

fun scan_all :: "byte_scope \<Rightarrow> nat \<Rightarrow> scanner \<Rightarrow> (json_token list \<times> (codec_error, json_token) gocall) option" where
  "scan_all scope n s =
     (case Next scope s of
        (s', Ok t) \<Rightarrow>
          (case n of 0 \<Rightarrow> None | Suc n' \<Rightarrow> map_option (apfst (Cons t)) (scan_all scope n' s'))
      | (s', r) \<Rightarrow> Some ([], r))"

declare scan_all.simps [simp del]



section \<open>The tokens of a printed value\<close>












lemma Next_token:
  assumes "v \<noteq> []" "\<not> skipped (hd v)"
  shows "skipWhitespace (js pre (v @ post)) = js pre (v @ post)" "\<not> js_len (js pre (v @ post)) \<le> js_pos (js pre (v @ post))"
    "js_data (js pre (v @ post)) ! js_pos (js pre (v @ post)) = hd v"
  using assms skip_while_at [of "[]" skipped "v @ post" pre]
  by (cases v; simp add: skipWhitespace_def js_def)+






















section \<open>Deviations\<close>

text \<open>What is not JSON but scanned without an error: stray commas and colons, missing ones, and numbers such as
  \<^verbatim>\<open>-.e+\<close>. What is JSON but refused: the escape \<^verbatim>\<open>\/\<close> and surrogate pairs. The empty string
  panics on a scope.\<close>

lemma json_accepts_malformed:
  "scan_all None 9 (NewJSONScanner [0x5B, 0x2C, 0x3A, 0x31, 0x20, 0x2D, 0x2E, 0x65, 0x2B, 0x2C, 0x2C, 0x7D]) =
     Some ([(JSONTokenArrayStart, [0x5B]), (JSONTokenNumber, [0x31]), (JSONTokenNumber, [0x2D, 0x2E, 0x65, 0x2B]), (JSONTokenObjectEnd, [0x7D])], Err EOF)"
  by code_simp

lemma json_refuses_slash: "snd (Next None (NewJSONScanner [0x22, 0x5C, 0x2F, 0x22])) = Err ErrSyntax"
  by code_simp

lemma json_empty_string_panics: "\<exists>p. snd (Next (Some alloc) (NewJSONScanner [0x22, 0x22])) = Panicked p"
proof -
  have "Next (Some alloc) (js [] ([0x22, 0x22] @ [])) =
      (case scanString (Some alloc) (js [] (0x22 # [] @ 0x22 # [])) of
         (s2, Ok str) \<Rightarrow> key_or_string s2 str | (s2, Err e) \<Rightarrow> (s2, Err e) | (s2, Panicked p) \<Rightarrow> (s2, Panicked p))"
    using Next_token [of "[0x22, 0x22]" "[]" "[]"] by (simp add: Next_def Let_def skipped_def is_space_def)
  also have "\<exists>p. snd \<dots> = Panicked p"
    by (cases "alloc 0") (auto simp: scanString_body string_value_def has_escape_def copy_string_def simp del: append_Nil)
  finally show ?thesis by (simp add: js_def NewJSONScanner_def)
qed

end
