(* ===== verification/Reader.thy ===== *)
theory Reader
  imports Proto_Spec WebSocket
begin

text \<open>
  The stream reader of \<^verbatim>\<open>codec/codec.go\<close>: bytes, strings, fixed-width integers and varints from an
  \<^verbatim>\<open>io.Reader\<close> (the bytes still to come) into a scope, and \<^verbatim>\<open>CloneString\<close>. A nil scope is
  dereferenced.
\<close>

section \<open>Operations\<close>

fun alloc_bytes :: "byte_scope \<Rightarrow> int \<Rightarrow> panic option" where
  "alloc_bytes None n = Some NilDereference"
| "alloc_bytes (Some alloc) n = alloc n"

definition ReadBytes :: "byte_scope \<Rightarrow> int \<Rightarrow> u8 list \<Rightarrow> u8 list \<times> (codec_error, u8 list) gocall" where
  "ReadBytes scope n r =
     (if n < 0 then (r, Err ErrNegativeLength)
      else if n = 0 then (r, Ok [])
      else case alloc_bytes scope n of
             Some p \<Rightarrow> (r, Panicked p)
           | None \<Rightarrow> on_read (ReadFull (nat n) r) (\<lambda>buf r. (r, Ok buf)))"

definition ReadString :: "byte_scope \<Rightarrow> int \<Rightarrow> u8 list \<Rightarrow> u8 list \<times> (codec_error, u8 list) gocall" where
  "ReadString scope n r =
     on_read (ReadBytes scope n r) (\<lambda>buf r. if length buf = 0 then (r, Ok []) else (r, Ok buf))"

definition ReadUint32 :: "u8 list \<Rightarrow> u8 list \<times> (codec_error, u32) gocall" where
  "ReadUint32 r = on_read (ReadFull 4 r) (\<lambda>b r. (r, Ok (be_get b)))"

definition ReadUint64 :: "u8 list \<Rightarrow> u8 list \<times> (codec_error, u64) gocall" where
  "ReadUint64 r = on_read (ReadFull 8 r) (\<lambda>b r. (r, Ok (be_get b)))"

text \<open>The loop of \<^verbatim>\<open>ReadVarint\<close>, \<^verbatim>\<open>binary.MaxVarintLen64\<close> being 10.\<close>

function read_varint :: "nat \<Rightarrow> nat \<Rightarrow> u64 \<Rightarrow> u8 list \<Rightarrow> u8 list \<times> (codec_error, u64) gocall" where
  "read_varint i s x r =
     (if i < 10 then
        on_read (ReadFull 1 r) (\<lambda>b r.
          if b ! 0 < 0x80 then
            if i = 9 \<and> b ! 0 > 1 then (r, Err ErrVarintOverflow)
            else (r, Ok (x OR push_bit s (ucast (b ! 0))))
          else read_varint (i + 1) (s + 7) (x OR push_bit s (ucast (b ! 0 AND 0x7f))) r)
      else (r, Err ErrVarintOverflow))"
  by auto
termination by (relation "measure (\<lambda>(i, s, x, r). 10 - i)") auto

declare read_varint.simps [simp del]

definition ReadVarint :: "u8 list \<Rightarrow> u8 list \<times> (codec_error, u64) gocall" where
  "ReadVarint r = read_varint 0 0 0 r"

definition CloneString :: "byte_scope \<Rightarrow> u8 list \<Rightarrow> (codec_error, u8 list) gocall" where
  "CloneString scope str =
     (if length str = 0 then Ok []
      else case alloc_bytes scope (int (length str)) of Some p \<Rightarrow> Panicked p | None \<Rightarrow> Ok str)"

section \<open>Varints as numbers\<close>

fun varint_nat :: "u8 list \<Rightarrow> nat" where
  "varint_nat [] = 0"
| "varint_nat (b # bs) = unat (b AND 0x7F) + 128 * varint_nat bs"

lemma low7: "unat ((b :: u8) AND 0x7F) < 128"
proof -
  have "b AND 0x7F = take_bit 7 b" by (simp add: take_bit_eq_mask mask_eq_exp_minus_1)
  then show ?thesis by (simp add: unat_take_bit_mod)
qed

lemma varint_nat_bound: "varint_nat bs < 128 ^ length bs"
proof (induction bs)
  case (Cons b bs)
  then show ?case using low7 [of b] by simp
qed simp

lemma varint_nat_append: "varint_nat (xs @ ys) = varint_nat xs + 128 ^ length xs * varint_nat ys"
  by (induction xs) (auto simp: algebra_simps)

lemma unat_varint_word: "unat (varint_word bs) = varint_nat bs mod 2 ^ 64"
proof (induction bs)
  case (Cons b bs)
  have "(ucast (b AND 0x7F) :: u64) AND push_bit 7 (varint_word bs) = 0"
  proof (rule bit_eqI)
    fix n show "bit ((ucast (b AND 0x7F) :: u64) AND push_bit 7 (varint_word bs)) n = bit 0 n"
      by (auto simp: mask_0x7F bit_and_iff bit_ucast_iff bit_push_bit_iff bit_mask_iff)
  qed
  then have "varint_word (b # bs) = ucast (b AND 0x7F) + push_bit 7 (varint_word bs)"
    by (simp add: disjunctive_add_eq_or)
  then have "unat (varint_word (b # bs)) = (unat (ucast (b AND 0x7F) :: u64) + unat (push_bit 7 (varint_word bs))) mod 2 ^ 64"
    by (simp only: unat_word_ariths) simp
  also have "unat (ucast (b AND 0x7F) :: u64) = unat (b AND 0x7F)" using low7 [of b] by (simp add: unsigned_ucast_eq take_bit_nat_eq_self)
  also have "unat (push_bit 7 (varint_word bs)) = varint_nat bs mod 2 ^ 64 * 2 ^ 7 mod 2 ^ 64"
    by (simp only: unat_push_bit_mod Cons.IH) simp
  finally show ?case by (simp add: mod_simps mult.commute)
qed simp

lemma msb_iff: "(b :: u8) AND 0x80 = 0 \<longleftrightarrow> b < 0x80"
proof -
  have "b AND 0x80 = 0 \<longleftrightarrow> \<not> bit b 7"
  proof
    assume z: "b AND 0x80 = 0"
    have "bit (b AND 0x80) 7 \<longleftrightarrow> bit b 7" by (simp add: bit_and_iff byte_0x80 bit_0x80)
    then show "\<not> bit b 7" by (simp add: z)
  next
    assume "\<not> bit b 7"
    then show "b AND 0x80 = 0" by (intro bit_eqI) (auto simp: bit_and_iff byte_0x80 bit_0x80)
  qed
  also have "bit b 7 \<longleftrightarrow> 128 \<le> uint b" using bit_byte_shift(2) [of "uint b" 0] by (simp add: bit_uint_iff)
  finally show ?thesis by (auto simp: word_less_def)
qed

lemma low_byte: "b < 0x80 \<Longrightarrow> b AND 0x7F = (b :: u8)"
  using byte_small(4) [of b 7] by (simp add: mask_0x7F word_less_def)

lemma read_varint_outcome:
  "i \<le> 10 \<Longrightarrow> read_varint i (7 * i) x r =
    (let k = cont_run r in
       if 10 - i \<le> k then (drop (10 - i) r, Err ErrVarintOverflow)
       else if length r \<le> k then ([], Err EOF)
       else if i + k = 9 \<and> r ! k > 1 then (drop (Suc k) r, Err ErrVarintOverflow)
       else (drop (Suc k) r, Ok (x OR push_bit (7 * i) (varint_word (take (Suc k) r)))))"
proof (induction r arbitrary: i x)
  case Nil
  then show ?case by (subst read_varint.simps) (auto simp: ReadFull_def Let_def)
next
  case (Cons b r)
  have R: "ReadFull 1 (b # r) = (r, Ok [b])" by (simp add: ReadFull_def)
  show ?case
  proof (cases "i = 10")
    case False
    then have i: "i < 10" using Cons.prems by simp
    show ?thesis
    proof (cases "b < 0x80")
      case True
      then show ?thesis using i R by (subst read_varint.simps) (auto simp: Let_def msb_iff low_byte)
    next
      case b: False
      have "push_bit (7 * i) (varint_word (b # bs)) =
          push_bit (7 * i) (ucast (b AND 0x7F)) OR push_bit (7 * Suc i) (varint_word bs)" for bs
        by (simp add: push_bit_or push_bit_push_bit add.commute del: push_bit_numeral)
      moreover have "10 - i = Suc (10 - Suc i)" using i by simp
      moreover have "read_varint i (7 * i) x (b # r) =
          read_varint (Suc i) (7 * Suc i) (x OR push_bit (7 * i) (ucast (b AND 0x7F))) r"
        using i R b by (subst read_varint.simps) (simp add: add.commute)
      ultimately show ?thesis
        using i b Cons.IH [of "Suc i" "x OR push_bit (7 * i) (ucast (b AND 0x7F))"]
        by (simp add: Let_def msb_iff or.assoc del: varint_word.simps)
    qed
  qed (subst read_varint.simps, simp add: Let_def)
qed

text \<open>Reading a varint from a stream gives the exact number its bytes stand for, or an error: an
  overflow if the number does not fit 64 bits or has more than ten bytes, and the end of the
  stream; exactly the varint's bytes are consumed.\<close>

lemma ReadVarint_exact:
  "ReadVarint r =
    (let k = cont_run r; v = take (Suc k) r in
       if 10 \<le> k then (drop 10 r, Err ErrVarintOverflow)
       else if length r \<le> k then ([], Err EOF)
       else if 2 ^ 64 \<le> varint_nat v then (drop (Suc k) r, Err ErrVarintOverflow)
       else (drop (Suc k) r, Ok (of_nat (varint_nat v))))"
proof (cases "cont_run r < 10 \<and> cont_run r < length r")
  case True
  define k where "k = cont_run r"
  define v where "v = take (Suc k) r"
  have k: "k < 10" "k < length r" using True by (simp_all add: k_def)
  have v: "v = take k r @ [r ! k]" using k by (simp add: v_def take_Suc_conv_app_nth)
  have last: "r ! k < 0x80"
  proof -
    have "\<not> (r ! k AND 0x80 \<noteq> 0)" using k(2) unfolding k_def cont_run_def by (rule nth_length_takeWhile)
    then show ?thesis by (simp add: msb_iff)
  qed
  have n: "varint_nat v = varint_nat (take k r) + 128 ^ k * unat (r ! k)"
    using k last by (simp add: v varint_nat_append low_byte)
  have b: "varint_nat (take k r) < 128 ^ k" using varint_nat_bound [of "take k r"] k by simp
  have over: "k = 9 \<and> r ! k > 1 \<longleftrightarrow> 2 ^ 64 \<le> varint_nat v"
  proof (cases "k = 9")
    case True
    have "r ! k > 1 \<longleftrightarrow> 2 \<le> unat (r ! k)" by (auto simp: word_less_nat_alt)
    moreover have "2 \<le> unat (r ! k) \<longleftrightarrow> 2 ^ 64 \<le> varint_nat v" using n b True by auto
    ultimately show ?thesis using True by simp
  next
    case False
    then have "length v \<le> 9" using k by (simp add: v)
    then have "128 ^ length v \<le> (128 :: nat) ^ 9" by (intro power_increasing) auto
    then have "varint_nat v < 2 ^ 64" using varint_nat_bound [of v] by simp
    then show ?thesis using False by simp
  qed
  have val: "varint_word v = of_nat (varint_nat v)" if "varint_nat v < 2 ^ 64"
    using that unat_varint_word [of v] by (intro unat_eqI) (simp add: unat_word_of_nat)
  show ?thesis
    using read_varint_outcome [of 0 0 r] k over val
    by (simp add: ReadVarint_def Let_def k_def [symmetric] v_def [symmetric] not_le)
next
  case False
  then show ?thesis using read_varint_outcome [of 0 0 r] by (auto simp: ReadVarint_def Let_def)
qed

lemma ReadVarint_exact_witness:
  "ReadVarint [0x96, 0x01, 0x05] = ([0x05], Ok 150)"
  by (subst ReadVarint_exact) (simp add: Let_def)

text \<open>What the protobuf encoder writes is read back.\<close>

lemma varint_head:
  fixes v :: u64
  shows "unat ((ucast v OR 0x80 :: u8) AND 0x7F) = unat v mod 128"
proof -
  have "unat ((ucast v OR 0x80 :: u8) AND 0x7F) = unat (ucast ((ucast v OR 0x80 :: u8) AND 0x7F) :: u64)"
    using low7 [of "ucast v OR 0x80"] by (simp add: unsigned_ucast_eq take_bit_nat_eq_self)
  also have "\<dots> = unat v mod 128" by (simp only: varint_byte unat_take_bit_mod) simp
  finally show ?thesis .
qed

lemma appendVarint_nat: "varint_nat (appendVarint v) = unat v \<and> cont_run (appendVarint v @ r) = length (appendVarint v) - 1"
proof (induction v rule: appendVarint.induct)
  case (1 v)
  show ?case
  proof (cases "v \<ge> 0x80")
    case True
    have e: "appendVarint v = (ucast v OR 0x80) # appendVarint (drop_bit 7 v)" using True by (subst appendVarint.simps) simp
    have "unat (drop_bit 7 v) = unat v div 128" by (simp only: unat_drop_bit_div) simp
    moreover have "0 < length (appendVarint (drop_bit 7 v))" using appendVarint_nonempty by simp
    ultimately show ?thesis using 1 [OF True] varint_byte(2) [of v] by (simp add: e varint_head)
  next
    case False
    then have v: "unat v < 128" by (simp add: word_le_nat_alt)
    have e: "appendVarint v = [ucast v]" using False by (subst appendVarint.simps) simp
    have u: "unat (ucast v :: u8) = unat v" using v by (simp add: unsigned_ucast_eq take_bit_nat_eq_self)
    then have s: "(ucast v :: u8) < 0x80" using v by (simp add: word_less_nat_alt)
    show ?thesis using u s low_byte [OF s] msb_iff [of "ucast v"] by (simp add: e)
  qed
qed

lemma length_appendVarint: "unat v < 2 ^ (7 * Suc n) \<Longrightarrow> length (appendVarint v) \<le> Suc n"
proof (induction n arbitrary: v)
  case 0
  then have "\<not> v \<ge> 0x80" by (simp add: word_le_nat_alt)
  then show ?case by (subst appendVarint.simps) simp
next
  case (Suc n)
  have "unat (drop_bit 7 v) = unat v div 2 ^ 7" by (rule unat_drop_bit_div)
  also have "\<dots> < 2 ^ (7 * Suc n)"
    using Suc.prems by (intro less_mult_imp_div_less) (simp add: power_add mult.commute)
  finally show ?case using Suc.IH [of "drop_bit 7 v"] by (subst appendVarint.simps) simp
qed

lemma ReadVarint_enc: "ReadVarint (appendVarint v @ r) = (r, Ok v)"
proof -
  have u: "unat v < 2 ^ 64" using unsigned_less [of v, where ?'a = nat] by simp
  then have "unat v < 2 ^ (7 * Suc 9)" by simp
  from length_appendVarint [OF this] have l: "length (appendVarint v) \<le> 10" by simp
  have p: "0 < length (appendVarint v)" using appendVarint_nonempty by simp
  then have t: "Suc (length (appendVarint v) - Suc 0) = length (appendVarint v)" by simp
  have lt: "length (appendVarint v) - Suc 0 < length (appendVarint v) + length r" "length (appendVarint v) - Suc 0 < 10"
    using l p by linarith+
  have "cont_run (appendVarint v @ r) = length (appendVarint v) - Suc 0" by (simp add: appendVarint_nat)
  then show ?thesis
    using u lt t by (subst ReadVarint_exact) (simp only: Let_def, simp add: appendVarint_nat [of v "[]"] not_le)
qed

text \<open>A stream reader gives back what was written: varints of the protobuf encoder, big-endian
  integers, and bytes and strings of the announced length, each consuming exactly its own bytes.\<close>

lemma reader_round_trip:
  assumes "s \<noteq> [] \<longrightarrow> alloc_bytes scope (int (length s)) = None"
  shows "ReadVarint (appendVarint v @ r) = (r, Ok v) \<and>
    ReadUint32 (be_put 4 a @ r) = (r, Ok a) \<and> ReadUint64 (be_put 8 b @ r) = (r, Ok b) \<and>
    ReadBytes scope (int (length s)) (s @ r) = (r, Ok s) \<and> ReadString scope (int (length s)) (s @ r) = (r, Ok s)"
  using assms by (cases "s = []")
    (simp_all add: ReadVarint_enc ReadUint32_def ReadUint64_def ReadBytes_def ReadString_def be_get_put)

lemma reader_round_trip_witness:
  "ReadString (Some (\<lambda>n. if n \<le> 2 then None else Some MemoryFault)) 2 ([0x68, 0x69] @ [0x7A]) = ([0x7A], Ok [0x68, 0x69])"
  using reader_round_trip [of "[0x68, 0x69]" "Some (\<lambda>n. if n \<le> 2 then None else Some MemoryFault)" 0 "[0x7A]" 0 0] by simp

end
