(* ===== verification/Buffer.thy ===== *)
theory Buffer
  imports Unquote
begin

text \<open>
  \<^verbatim>\<open>ArenaBuffer\<close> of \<^verbatim>\<open>buffer.go\<close>, a growable byte buffer whose memory comes from a scope, or from the
  heap without one, and the reading of a response body into it, \<^verbatim>\<open>client.go\<close>.

  A scope is seen as its allocator of byte slices: it panics or returns a slice with whatever the memory
  holds. The heap's slices are zeroed.
\<close>

section \<open>Operations\<close>

type_synonym slice_scope = "(int \<Rightarrow> panic + u8 list) option"

record arena_buffer =
  ab_scope :: slice_scope
  ab_buf :: "u8 list"
  ab_len :: int

abbreviation ab_cap :: "arena_buffer \<Rightarrow> int" where
  "ab_cap b \<equiv> int (length (ab_buf b))"

definition alloc_slice :: "slice_scope \<Rightarrow> int \<Rightarrow> panic + u8 list" where
  "alloc_slice scope n =
     (case scope of
        Some alloc \<Rightarrow> alloc n
      | None \<Rightarrow> (case makeslice 1 n n of Panic p \<Rightarrow> Inl p | Return _ \<Rightarrow> Inr (replicate (nat n) 0)))"

definition NewArenaBuffer :: "slice_scope \<Rightarrow> int \<Rightarrow> arena_buffer go" where
  "NewArenaBuffer scope initialCap =
     (let initialCap = (if initialCap \<le> 0 then 64 else initialCap) in
      case alloc_slice scope initialCap of
        Inl p \<Rightarrow> Panic p
      | Inr buf \<Rightarrow> Return \<lparr>ab_scope = scope, ab_buf = buf, ab_len = 0\<rparr>)"

text \<open>\<^verbatim>\<open>copy(dst[off:], src)\<close>, \<open>off\<close> within the slice.\<close>

definition copy_at :: "u8 list \<Rightarrow> nat \<Rightarrow> u8 list \<Rightarrow> u8 list" where
  "copy_at dst off src = take off dst @ take (length dst - off) src @ drop (off + length src) dst"

definition grow :: "arena_buffer \<Rightarrow> int \<Rightarrow> arena_buffer go" where
  "grow b extra =
     (let required = go_int (ab_len b + extra) in
      if required \<le> ab_cap b then Return b
      else let newCap = go_int (ab_cap b * 2);
               newCap = (if newCap < required then go_int (required + 64) else newCap)
           in case alloc_slice (ab_scope b) newCap of
                Inl p \<Rightarrow> Panic p
              | Inr newBuf \<Rightarrow>
                  if 0 \<le> ab_len b \<and> ab_len b \<le> ab_cap b
                  then Return (b\<lparr>ab_buf := copy_at newBuf 0 (take (nat (ab_len b)) (ab_buf b))\<rparr>)
                  else Panic SliceOutOfRange)"

text \<open>A growing write: the new state, or the old one and a panic.\<close>

fun after_grow :: "arena_buffer \<Rightarrow> arena_buffer go \<Rightarrow> (arena_buffer \<Rightarrow> arena_buffer \<times> 'a go) \<Rightarrow> arena_buffer \<times> 'a go" where
  "after_grow b (Panic p) f = (b, Panic p)"
| "after_grow b (Return b') f = f b'"

definition Write :: "arena_buffer \<Rightarrow> u8 list \<Rightarrow> arena_buffer \<times> int go" where
  "Write b p =
     after_grow b (grow b (int (length p))) (\<lambda>b.
       if 0 \<le> ab_len b \<and> ab_len b \<le> ab_cap b
       then (b\<lparr>ab_buf := copy_at (ab_buf b) (nat (ab_len b)) p, ab_len := go_int (ab_len b + int (length p))\<rparr>, Return (int (length p)))
       else (b, Panic SliceOutOfRange))"


definition WriteByte :: "arena_buffer \<Rightarrow> u8 \<Rightarrow> arena_buffer \<times> unit go" where
  "WriteByte b c =
     after_grow b (grow b 1) (\<lambda>b.
       if 0 \<le> ab_len b \<and> ab_len b < ab_cap b
       then (b\<lparr>ab_buf := (ab_buf b)[nat (ab_len b) := c], ab_len := go_int (ab_len b + 1)\<rparr>, Return ())
       else (b, Panic IndexOutOfRange))"

text \<open>\<^verbatim>\<open>utf8.EncodeRune\<close>: what is no character is written as U+FFFD.\<close>

definition encode_rune :: "int \<Rightarrow> u8 list" where
  "encode_rune r = (if valid_rune r then utf8_encode r else utf8_encode 0xFFFD)"

definition WriteRune :: "arena_buffer \<Rightarrow> int \<Rightarrow> arena_buffer \<times> int go" where
  "WriteRune b r =
     (if r < 0x80 then
        (case WriteByte b (word_of_int r) of (b', Panic p) \<Rightarrow> (b', Panic p) | (b', Return _) \<Rightarrow> (b', Return 1))
      else after_grow b (grow b 4) (\<lambda>b.
        let bs = encode_rune r in
        if 0 \<le> ab_len b \<and> ab_len b + int (length bs) \<le> ab_cap b
        then (b\<lparr>ab_buf := copy_at (ab_buf b) (nat (ab_len b)) bs, ab_len := go_int (ab_len b + int (length bs))\<rparr>, Return (int (length bs)))
        else (b, Panic IndexOutOfRange)))"

text \<open>\<^verbatim>\<open>strconv.AppendInt\<close> and \<^verbatim>\<open>AppendUint\<close> in base 10.\<close>

fun append_uint :: "nat \<Rightarrow> u8 list" where
  "append_uint v = (if v < 10 then [of_nat (48 + v)] else append_uint (v div 10) @ [of_nat (48 + v mod 10)])"

declare append_uint.simps [simp del]




definition BufferBytes :: "arena_buffer \<Rightarrow> u8 list" where
  "BufferBytes b = take (nat (ab_len b)) (ab_buf b)"

definition BufferString :: "arena_buffer \<Rightarrow> u8 list" where
  "BufferString b = (if ab_len b = 0 then [] else take (nat (ab_len b)) (ab_buf b))"

definition BufferLen :: "arena_buffer \<Rightarrow> int" where
  "BufferLen b = ab_len b"

definition BufferCap :: "arena_buffer \<Rightarrow> int" where
  "BufferCap b = ab_cap b"



section \<open>Invariant and contents\<close>

text \<open>The law of an allocator: slices have the length asked for and fit the address space.\<close>

definition scope_law :: "slice_scope \<Rightarrow> bool" where
  "scope_law scope \<longleftrightarrow> (\<forall>alloc n bs. scope = Some alloc \<longrightarrow> 0 \<le> n \<longrightarrow> alloc n = Inr bs \<longrightarrow> int (length bs) = n \<and> n \<le> maxAlloc)"

lemma alloc_slice_law: "scope_law scope \<Longrightarrow> 0 \<le> n \<Longrightarrow> alloc_slice scope n = Inr bs \<Longrightarrow> int (length bs) = n \<and> n \<le> maxAlloc"
  by (auto simp: alloc_slice_def scope_law_def makeslice_def split: option.splits if_splits)

definition buffer_inv :: "arena_buffer \<Rightarrow> bool" where
  "buffer_inv b \<longleftrightarrow> scope_law (ab_scope b) \<and> 0 \<le> ab_len b \<and> ab_len b \<le> ab_cap b \<and> ab_cap b \<le> maxAlloc"

text \<open>Growing keeps the contents, makes room, and at least doubles the memory.\<close>

lemma grow_Return:
  assumes "buffer_inv b" "0 \<le> extra" "extra \<le> maxAlloc" "grow b extra = Return b'"
  shows "buffer_inv b' \<and> BufferBytes b' = BufferBytes b \<and> ab_len b' = ab_len b \<and> ab_len b + extra \<le> ab_cap b' \<and>
    ab_scope b' = ab_scope b \<and> (b' = b \<or> 2 * ab_cap b \<le> ab_cap b') \<and> ab_cap b' \<le> max (ab_cap b * 2) (ab_len b + extra + 64)"
proof -
  have r: "go_int (ab_len b + extra) = ab_len b + extra" "go_int (ab_cap b * 2) = ab_cap b * 2"
    "go_int (ab_len b + extra + 64) = ab_len b + extra + 64"
    using assms(1-3) by (auto simp: buffer_inv_def maxAlloc_def in_int64_def)
  show ?thesis
  proof (cases "ab_len b + extra \<le> ab_cap b")
    case True
    then show ?thesis using assms r by (auto simp: grow_def Let_def)
  next
    case False
    define newCap where "newCap = (if ab_cap b * 2 < ab_len b + extra then ab_len b + extra + 64 else ab_cap b * 2)"
    obtain newBuf where a: "alloc_slice (ab_scope b) newCap = Inr newBuf"
      and b': "b' = b\<lparr>ab_buf := copy_at newBuf 0 (take (nat (ab_len b)) (ab_buf b))\<rparr>"
      using assms(1,4) False unfolding grow_def r Let_def newCap_def [symmetric]
      by (auto simp: buffer_inv_def split: sum.splits)
    have "0 \<le> newCap" using assms(1,2) by (auto simp: newCap_def buffer_inv_def)
    then have n: "int (length newBuf) = newCap" "newCap \<le> maxAlloc"
      using alloc_slice_law [OF _ _ a] assms(1) by (auto simp: buffer_inv_def)
    have le: "ab_cap b < newCap" "ab_len b + extra \<le> newCap" "newCap \<le> max (ab_cap b * 2) (ab_len b + extra + 64)" "2 * ab_cap b \<le> newCap"
      using assms(1,2) False by (auto simp: newCap_def buffer_inv_def)
    then have "nat (ab_len b) \<le> length newBuf" "nat (ab_len b) \<le> length (ab_buf b)"
      using assms(1) n by (auto simp: buffer_inv_def)
    then have "int (length (ab_buf b')) = newCap" "take (nat (ab_len b)) (ab_buf b') = take (nat (ab_len b)) (ab_buf b)"
      using n(1) by (simp_all add: b' copy_at_def)
    then show ?thesis using assms(1) le n(2) by (auto simp: b' buffer_inv_def BufferBytes_def)
  qed
qed

lemma copy_at_simps:
  "off + length src \<le> length dst \<Longrightarrow> length (copy_at dst off src) = length dst"
  "off + length src \<le> length dst \<Longrightarrow> take (off + length src) (copy_at dst off src) = take off dst @ src"
  by (simp_all add: copy_at_def)

lemma copy_append:
  assumes "buffer_inv b" "ab_len b + int (length p) \<le> ab_cap b"
  shows "buffer_inv (b\<lparr>ab_buf := copy_at (ab_buf b) (nat (ab_len b)) p, ab_len := go_int (ab_len b + int (length p))\<rparr>) \<and>
    BufferBytes (b\<lparr>ab_buf := copy_at (ab_buf b) (nat (ab_len b)) p, ab_len := go_int (ab_len b + int (length p))\<rparr>) = BufferBytes b @ p"
proof -
  have l: "0 \<le> ab_len b" "nat (ab_len b) + length p \<le> length (ab_buf b)" using assms by (auto simp: buffer_inv_def)
  have "go_int (ab_len b + int (length p)) = ab_len b + int (length p)"
    using assms by (auto simp: buffer_inv_def maxAlloc_def in_int64_def)
  moreover have "nat (ab_len b + int (length p)) = nat (ab_len b) + length p" using l by simp
  ultimately show ?thesis using assms l by (auto simp: buffer_inv_def BufferBytes_def copy_at_simps)
qed




lemma buffer_inv_len: "buffer_inv b \<Longrightarrow> 0 \<le> ab_len b \<and> ab_len b \<le> ab_cap b"
  by (simp add: buffer_inv_def)








section \<open>Decimals\<close>

fun dec_val :: "u8 list \<Rightarrow> nat" where
  "dec_val bs = foldl (\<lambda>v b. v * 10 + (unat b - 48)) 0 bs"

lemma append_uint_val: "dec_val (append_uint v) = v \<and> (\<forall>b \<in> set (append_uint v). 48 \<le> b \<and> b \<le> 57)"
proof (induction v rule: append_uint.induct)
  case (1 v)
  have d: "unat (of_nat (48 + x) :: u8) = 48 + x" if "x < 10" for x
    using that by (simp only: unsigned_of_nat) (simp add: take_bit_nat_eq_self)
  show ?case
  proof (cases "v < 10")
    case True
    then show ?thesis using d [of v] by (subst (1 2) append_uint.simps) (simp add: word_le_nat_alt)
  next
    case False
    then show ?thesis using 1 d [of "v mod 10"] by (subst (1 2) append_uint.simps) (simp add: word_le_nat_alt)
  qed
qed



section \<open>Sequences of operations\<close>


definition done_go :: "arena_buffer \<times> 'a go \<Rightarrow> arena_buffer \<times> unit go" where
  "done_go r = (case r of (b, Panic p) \<Rightarrow> (b, Panic p) | (b, Return _) \<Rightarrow> (b, Return ()))"







lemma NewArenaBuffer_inv:
  "scope_law scope \<Longrightarrow> NewArenaBuffer scope n = Return b \<Longrightarrow> buffer_inv b \<and> BufferBytes b = [] \<and> ab_scope b = scope"
  using alloc_slice_law [of scope "if n \<le> 0 then 64 else n"]
  by (auto simp: NewArenaBuffer_def Let_def buffer_inv_def BufferBytes_def split: sum.splits if_splits)

definition demo_buffer :: arena_buffer where
  "demo_buffer = \<lparr>ab_scope = Some (\<lambda>n. if n \<le> 100 then Inr (replicate (nat n) 0xAA) else Inl MemoryFault), ab_buf = [1, 2], ab_len = 0\<rparr>"



text \<open>A negative rune is written as its lowest byte, where the package \<^verbatim>\<open>unicode/utf8\<close> writes U+FFFD.\<close>

lemma WriteRune_negative:
  "BufferBytes (fst (WriteRune demo_buffer (- 1))) = [0xFF] \<and> encode_rune (- 1) = [0xEF, 0xBF, 0xBD]"
  by code_simp

section \<open>Reading a response body\<close>

text \<open>The body is what its successive reads return: some bytes, and no error, the end, or another error;
  after the last entry it is at its end. A read fills at most the 8192 bytes it is given.\<close>

datatype 'e read_error = ReadEOF | ReadFail 'e

type_synonym 'e body = "(u8 list \<times> 'e read_error option) list"

datatype 'e client_error = ErrResponseBodyTooLarge | BodyError 'e

datatype ('e, 'a) call = CallOk 'a | CallErr "'e client_error" | CallPanic panic

definition defaultMaxBodyBytes :: int where
  "defaultMaxBodyBytes = 32 * 1024 * 1024"

fun read_body :: "'e body \<Rightarrow> arena_buffer \<Rightarrow> int \<Rightarrow> int \<Rightarrow> ('e, u8 list) call" where
  "read_body [] buf totalRead maxBytes = CallOk (BufferBytes buf)"
| "read_body ((bs, err) # evs) buf totalRead maxBytes =
     (let totalRead' = (if bs \<noteq> [] then go_int (totalRead + int (length bs)) else totalRead) in
      if bs \<noteq> [] \<and> totalRead' > maxBytes then CallErr ErrResponseBodyTooLarge
      else let (buf', r) = (if bs \<noteq> [] then done_go (Write buf bs) else (buf, Return ())) in
        case r of
          Panic p \<Rightarrow> CallPanic p
        | Return _ \<Rightarrow>
            (case err of
               Some ReadEOF \<Rightarrow> CallOk (BufferBytes buf')
             | Some (ReadFail e) \<Rightarrow> CallErr (BodyError e)
             | None \<Rightarrow> read_body evs buf' totalRead' maxBytes))"

text \<open>None for a missing response or body; \<open>n\<close> is \<^verbatim>\<open>ContentLength\<close>.\<close>

definition ReadResponseBody :: "(int \<times> 'e body) option \<Rightarrow> slice_scope \<Rightarrow> int \<Rightarrow> ('e, u8 list) call" where
  "ReadResponseBody resp scope maxBytes =
     (case resp of
        None \<Rightarrow> CallOk []
      | Some (n, body) \<Rightarrow>
          let maxBytes = (if maxBytes \<le> 0 then defaultMaxBodyBytes else maxBytes);
              initialCap = (if n \<le> 0 \<or> n > 1024 * 1024 then 4096 else n)
          in case NewArenaBuffer scope initialCap of
               Panic p \<Rightarrow> CallPanic p
             | Return buf \<Rightarrow> read_body body buf 0 maxBytes)"

text \<open>The bytes up to the first error, and that error.\<close>

fun body_bytes :: "'e body \<Rightarrow> u8 list" where
  "body_bytes [] = []"
| "body_bytes ((bs, None) # evs) = bs @ body_bytes evs"
| "body_bytes ((bs, Some e) # evs) = bs"

fun body_error :: "'e body \<Rightarrow> 'e read_error" where
  "body_error [] = ReadEOF"
| "body_error ((bs, None) # evs) = body_error evs"
| "body_error ((bs, Some e) # evs) = e"

text \<open>A write that stays within \<open>mx\<close> bytes asks for at most twice as many and 64 more.\<close>

definition scope_holds :: "slice_scope \<Rightarrow> int \<Rightarrow> bool" where
  "scope_holds scope mx \<longleftrightarrow> (\<forall>n. 0 \<le> n \<longrightarrow> n \<le> 2 * mx + 64 \<longrightarrow> (\<exists>bs. alloc_slice scope n = Inr bs))"

lemma Write_ok:
  assumes "buffer_inv b" "scope_holds (ab_scope b) mx" "ab_len b + int (length p) \<le> mx" "int (length p) \<le> maxAlloc"
  shows "\<exists>b'. Write b p = (b', Return (int (length p))) \<and> buffer_inv b' \<and> BufferBytes b' = BufferBytes b @ p \<and>
    ab_len b' = ab_len b + int (length p) \<and> ab_scope b' = ab_scope b"
proof -
  have "\<exists>b'. grow b (int (length p)) = Return b'"
  proof -
    have r: "go_int (ab_len b + int (length p)) = ab_len b + int (length p)" "go_int (ab_cap b * 2) = ab_cap b * 2"
      "go_int (ab_len b + int (length p) + 64) = ab_len b + int (length p) + 64"
      using assms by (auto simp: buffer_inv_def maxAlloc_def in_int64_def)
    define n where "n = (if ab_cap b * 2 < ab_len b + int (length p) then ab_len b + int (length p) + 64 else ab_cap b * 2)"
    have "\<exists>bs. alloc_slice (ab_scope b) n = Inr bs" if "\<not> ab_len b + int (length p) \<le> ab_cap b"
    proof -
      have "0 \<le> n" "n \<le> 2 * mx + 64" using assms that by (auto simp: n_def buffer_inv_def)
      then show ?thesis using assms(2) by (simp add: scope_holds_def)
    qed
    then show ?thesis using buffer_inv_len [OF assms(1)] unfolding grow_def Let_def r n_def [symmetric] by auto
  qed
  then obtain b' where g: "grow b (int (length p)) = Return b'" by blast
  note G = grow_Return [OF assms(1) _ assms(4) g]
  have "go_int (ab_len b' + int (length p)) = ab_len b' + int (length p)"
    using G by (auto simp: buffer_inv_def maxAlloc_def in_int64_def)
  then show ?thesis using G g copy_append [of b' p] buffer_inv_len [of b'] by (auto simp: Write_def)
qed

lemma read_body_exact:
  "buffer_inv b \<Longrightarrow> scope_holds (ab_scope b) mx \<Longrightarrow> \<forall>(bs, e) \<in> set evs. length bs \<le> 8192 \<Longrightarrow>
    ab_len b \<le> mx \<Longrightarrow> mx < 2 ^ 62 \<Longrightarrow>
    read_body evs b (ab_len b) mx =
      (if ab_len b + int (length (body_bytes evs)) > mx then CallErr ErrResponseBodyTooLarge
       else case body_error evs of ReadEOF \<Rightarrow> CallOk (BufferBytes b @ body_bytes evs) | ReadFail e \<Rightarrow> CallErr (BodyError e))"
proof (induction evs arbitrary: b)
  case (Cons ev evs)
  obtain bs e where ev: "ev = (bs, e)" by (cases ev)
  have lb: "length bs \<le> 8192" using Cons.prems(3) ev by auto
  have g: "go_int (ab_len b + int (length bs)) = ab_len b + int (length bs)"
    using Cons.prems lb buffer_inv_len [OF Cons.prems(1)] by (intro go_int_nonneg) auto
  show ?case
  proof (cases "ab_len b + int (length bs) > mx")
    case True
    then have "bs \<noteq> []" using Cons.prems(4) by auto
    then show ?thesis using True g by (cases e) (auto simp: ev Let_def)
  next
    case False
    then obtain b' where w: "Write b bs = (b', Return (int (length bs)))" and b': "buffer_inv b'" "BufferBytes b' = BufferBytes b @ bs"
        "ab_len b' = ab_len b + int (length bs)" "ab_scope b' = ab_scope b"
      using Write_ok [OF Cons.prems(1,2), of bs] lb by (auto simp: maxAlloc_def)
    have step: "read_body (ev # evs) b (ab_len b) mx =
        (case e of Some ReadEOF \<Rightarrow> CallOk (BufferBytes b @ bs) | Some (ReadFail x) \<Rightarrow> CallErr (BodyError x)
         | None \<Rightarrow> (if bs = [] then read_body evs b (ab_len b) mx else read_body evs b' (ab_len b') mx))"
      using False g w b' by (cases "bs = []") (auto simp: ev Let_def done_go_def split: option.split read_error.split)
    show ?thesis
    proof (cases e)
      case None
      have "read_body evs b' (ab_len b') mx = (if ab_len b' + int (length (body_bytes evs)) > mx then CallErr ErrResponseBodyTooLarge
          else case body_error evs of ReadEOF \<Rightarrow> CallOk (BufferBytes b' @ body_bytes evs) | ReadFail e \<Rightarrow> CallErr (BodyError e))"
        using Cons.prems b' False by (intro Cons.IH) auto
      moreover have "read_body evs b (ab_len b) mx = (if ab_len b + int (length (body_bytes evs)) > mx then CallErr ErrResponseBodyTooLarge
          else case body_error evs of ReadEOF \<Rightarrow> CallOk (BufferBytes b @ body_bytes evs) | ReadFail e \<Rightarrow> CallErr (BodyError e))"
        using Cons.prems by (intro Cons.IH) auto
      ultimately show ?thesis unfolding step using b' by (cases "bs = []") (auto simp: ev None split: read_error.split)
    next
      case (Some er)
      then show ?thesis unfolding step using False by (cases er) (auto simp: ev)
    qed
  qed
qed (simp add: buffer_inv_len)

text \<open>Reading a response body gives all its bytes in order, however they are cut into reads, or the
  error that ends it; it is too large exactly if the bytes up to that end are more than the limit, and then
  no part of it is returned.\<close>

lemma ReadResponseBody_exact:
  fixes maxBytes
  defines "mx \<equiv> (if maxBytes \<le> 0 then defaultMaxBodyBytes else maxBytes)"
  assumes "scope_law scope" "scope_holds scope (mx + 1024 * 1024)" "mx < 2 ^ 62" "\<forall>(bs, e) \<in> set body. length bs \<le> 8192"
  shows "ReadResponseBody (Some (n, body)) scope maxBytes =
    (if int (length (body_bytes body)) > mx then CallErr ErrResponseBodyTooLarge
     else case body_error body of ReadEOF \<Rightarrow> CallOk (body_bytes body) | ReadFail e \<Rightarrow> CallErr (BodyError e))"
proof -
  define cap where "cap = (if n \<le> 0 \<or> n > 1024 * 1024 then 4096 else n)"
  have mx: "0 \<le> mx" by (auto simp: mx_def defaultMaxBodyBytes_def)
  have cap: "0 < cap" "cap \<le> 1024 * 1024" by (auto simp: cap_def)
  then have "cap \<le> 2 * (mx + 1024 * 1024) + 64" using mx by simp
  then obtain buf where "alloc_slice scope cap = Inr buf" using assms(3) cap unfolding scope_holds_def by (metis less_imp_le)
  then have N: "NewArenaBuffer scope cap = Return \<lparr>ab_scope = scope, ab_buf = buf, ab_len = 0\<rparr>"
    using cap by (simp add: NewArenaBuffer_def Let_def)
  let ?b = "\<lparr>ab_scope = scope, ab_buf = buf, ab_len = 0\<rparr>"
  have "scope_holds (ab_scope ?b) mx" using assms(3) by (auto simp: scope_holds_def)
  then have "read_body body ?b (ab_len ?b) mx = (if ab_len ?b + int (length (body_bytes body)) > mx then CallErr ErrResponseBodyTooLarge
       else case body_error body of ReadEOF \<Rightarrow> CallOk (BufferBytes ?b @ body_bytes body) | ReadFail e \<Rightarrow> CallErr (BodyError e))"
    using NewArenaBuffer_inv [OF assms(2) N] mx assms(4,5) by (intro read_body_exact) auto
  then show ?thesis
    unfolding ReadResponseBody_def Let_def option.case prod.case mx_def [symmetric] cap_def [symmetric] N go.case
    using NewArenaBuffer_inv [OF assms(2) N] by (simp split: read_error.split)
qed

lemma ReadResponseBody_exact_witness:
  "ReadResponseBody (Some (5, [([1, 2], None), ([], None), ([3], Some ReadEOF), ([4], None)])) None 4 = (CallOk [1, 2, 3] :: (unit, u8 list) call)"
proof -
  have "scope_law None" by (simp add: scope_law_def)
  moreover have "scope_holds None ((if (4::int) \<le> 0 then defaultMaxBodyBytes else 4) + 1024 * 1024)"
    by (simp add: scope_holds_def alloc_slice_def makeslice_def maxAlloc_def)
  ultimately show ?thesis
    using ReadResponseBody_exact [of None 4 "[([1, 2], None), ([], None), ([3], Some ReadEOF), ([4], None)]" 5] by simp
qed

end
