(* ===== verification/Cache.thy ===== *)
theory Cache
  imports Scope_Spec
begin

text \<open>
  The generational cache of \<^verbatim>\<open>cache.go\<close> on the arenas and scopes of the model: two generations, each an
  arena with a scope and a map whose keys and values are slices of the arena's memory, and the copies into
  that memory written out, so that what a slice reads depends on what was stored where.

  A generation has an identity, which its slices carry when they leave the cache. The kernel is a function
  from the chunks an arena has to the environment its next allocation meets.
\<close>

section \<open>Memory\<close>

text \<open>\<^verbatim>\<open>copy(buf, bs)\<close> for a slice of that length, and the bytes of a slice.\<close>

definition store :: "slice \<Rightarrow> u8 list \<Rightarrow> arena \<Rightarrow> arena" where
  "store b bs a =
     (let c = ar_chunks a ! sl_chunk b
      in a\<lparr>ar_chunks := (ar_chunks a)[sl_chunk b := c\<lparr>ch_buf :=
           take (sl_lo b) (ch_buf c) @ bs @ drop (sl_lo b + length bs) (ch_buf c)\<rparr>]\<rparr>)"

definition load :: "arena \<Rightarrow> slice \<Rightarrow> u8 list" where
  "load a b = map (\<lambda>j. arena_byte a (sl_chunk b, sl_lo b + j)) [0 ..< sl_len b]"

section \<open>State\<close>

record cache_entry =
  ce_key :: slice
  ce_val :: slice

record cache_gen =
  cg_id :: nat
  cg_arena :: arena
  cg_scope :: "unit scope"
  cg_entries :: "u8 list \<rightharpoonup> cache_entry"
  cg_used :: int

record cache =
  ca_active :: cache_gen
  ca_old :: cache_gen
  ca_maxGenBytes :: int
  ca_closed :: bool

type_synonym kernel = "chunk list \<Rightarrow> os_env"

definition newCacheGeneration :: "nat \<Rightarrow> os_env \<Rightarrow> int \<Rightarrow> metrics \<Rightarrow> metrics \<times> cache_gen go" where
  "newCacheGeneration i os sz m =
     (case NewArena os sz [] m of
        (m1, Panic p) \<Rightarrow> (m1, Panic p)
      | (m1, Return a) \<Rightarrow>
          (case EnterScope a m1 of
             (m2, s) \<Rightarrow> (m2, Return \<lparr>cg_id = i, cg_arena = a, cg_scope = s, cg_entries = Map.empty, cg_used = 0\<rparr>)))"

text \<open>\<^verbatim>\<open>if g.scope.Active() { g.scope.Exit() }\<close>\<close>

definition exit_gen :: "cache_gen \<Rightarrow> metrics \<Rightarrow> metrics \<times> cache_gen \<times> unit go" where
  "exit_gen g m =
     (if sc_active (cg_scope g) then
        (case Exit (cg_scope g) (cg_arena g, ()) m of
           (m1, s, (a, _), r) \<Rightarrow> (m1, g\<lparr>cg_scope := s, cg_arena := a\<rparr>, r))
      else (m, g, Return ()))"

definition gen_reset :: "cache_gen \<Rightarrow> metrics \<Rightarrow> metrics \<times> cache_gen \<times> unit go" where
  "gen_reset g m =
     (case exit_gen g m of
        (m1, g1, Panic p) \<Rightarrow> (m1, g1, Panic p)
      | (m1, g1, Return _) \<Rightarrow>
          (case EnterScope (Reset (cg_arena g1)) m1 of
             (m2, s) \<Rightarrow> (m2, g1\<lparr>cg_arena := Reset (cg_arena g1), cg_scope := s, cg_entries := Map.empty, cg_used := 0\<rparr>, Return ())))"

definition gen_close :: "os_env \<Rightarrow> cache_gen \<Rightarrow> metrics \<Rightarrow> metrics \<times> cache_gen \<times> unit go" where
  "gen_close os g m =
     (case exit_gen g m of
        (m1, g1, Panic p) \<Rightarrow> (m1, g1, Panic p)
      | (m1, g1, Return _) \<Rightarrow> (case Close os (cg_arena g1) m1 of (m2, a, _) \<Rightarrow> (m2, g1\<lparr>cg_arena := a\<rparr>, Return ())))"

definition NewArenaCache :: "os_env \<Rightarrow> os_env \<Rightarrow> int \<Rightarrow> metrics \<Rightarrow> metrics \<times> cache go" where
  "NewArenaCache os1 os2 maxGenBytes m =
     (let maxGenBytes = (if maxGenBytes \<le> 0 then 8 * 1024 * 1024 else maxGenBytes) in
      case newCacheGeneration 0 os1 maxGenBytes m of
        (m1, Panic p) \<Rightarrow> (m1, Panic p)
      | (m1, Return g0) \<Rightarrow>
          (case newCacheGeneration 1 os2 maxGenBytes m1 of
             (m2, Panic p) \<Rightarrow> (m2, Panic p)
           | (m2, Return g1) \<Rightarrow>
               (m2, Return \<lparr>ca_active = g0, ca_old = g1, ca_maxGenBytes = maxGenBytes, ca_closed = False\<rparr>)))"

section \<open>Operations\<close>

text \<open>A value handed to the cache is on the heap, or in the memory of a generation.\<close>

datatype cache_value = Bytes "u8 list" | Ref nat slice

fun value_len :: "cache_value \<Rightarrow> nat" where
  "value_len (Bytes bs) = length bs"
| "value_len (Ref i b) = sl_len b"

fun read_value :: "cache \<Rightarrow> cache_value \<Rightarrow> u8 list" where
  "read_value c (Bytes bs) = bs"
| "read_value c (Ref i b) = load (cg_arena (if cg_id (ca_active c) = i then ca_active c else ca_old c)) b"

text \<open>\<^verbatim>\<open>AllocSlice[byte]\<close> in the active generation; bytes never go to the heap.\<close>

definition gen_alloc :: "kernel \<Rightarrow> cache_gen \<Rightarrow> nat \<Rightarrow> cache_gen \<times> slice go" where
  "gen_alloc os g n =
     (case AllocSlice (os (ar_chunks (cg_arena g))) (cg_scope g) (cg_arena g) (TUint 8) (int n) of
        (s, a, Return (InArena b, _, _)) \<Rightarrow> (g\<lparr>cg_scope := s, cg_arena := a\<rparr>, Return b)
      | (s, a, Return (GoHeap, _, _)) \<Rightarrow> (g\<lparr>cg_scope := s, cg_arena := a\<rparr>, Panic NilDereference)
      | (s, a, Panic p) \<Rightarrow> (g\<lparr>cg_scope := s, cg_arena := a\<rparr>, Panic p))"

definition gen_store :: "slice \<Rightarrow> u8 list \<Rightarrow> cache_gen \<Rightarrow> cache_gen" where
  "gen_store b bs g = g\<lparr>cg_arena := store b bs (cg_arena g)\<rparr>"

text \<open>The rotation of the generations.\<close>

definition rotate_gens :: "cache \<Rightarrow> metrics \<Rightarrow> metrics \<times> cache \<times> unit go" where
  "rotate_gens c m =
     (case gen_reset (ca_old c) m of
        (m1, g, Panic p) \<Rightarrow> (m1, c\<lparr>ca_old := g\<rparr>, Panic p)
      | (m1, g, Return _) \<Rightarrow> (m1, c\<lparr>ca_active := g, ca_old := ca_active c\<rparr>, Return ()))"

text \<open>The two copies and the new entry; the value is read when it is copied, after the key was stored.\<close>

definition insert_entry :: "kernel \<Rightarrow> cache \<Rightarrow> u8 list \<Rightarrow> cache_value \<Rightarrow> cache \<times> unit go" where
  "insert_entry os c key v =
     (case gen_alloc os (ca_active c) (length key) of
        (g1, Panic p) \<Rightarrow> (c\<lparr>ca_active := g1\<rparr>, Panic p)
      | (g1, Return kBuf) \<Rightarrow>
          (let g2 = gen_store kBuf key g1 in
           case gen_alloc os g2 (value_len v) of
             (g3, Panic p) \<Rightarrow> (c\<lparr>ca_active := g3\<rparr>, Panic p)
           | (g3, Return vBuf) \<Rightarrow>
               (let g4 = gen_store vBuf (read_value (c\<lparr>ca_active := g3\<rparr>) v) g3
                in (c\<lparr>ca_active := g4\<lparr>cg_entries := (cg_entries g4)(key \<mapsto> \<lparr>ce_key = kBuf, ce_val = vBuf\<rparr>),
                                       cg_used := go_int (cg_used g4 + go_int (int (length key) + int (value_len v)))\<rparr>\<rparr>, Return ()))))"

definition rotates :: "cache \<Rightarrow> u8 list \<Rightarrow> nat \<Rightarrow> bool" where
  "rotates c key n \<longleftrightarrow> go_int (cg_used (ca_active c) + go_int (int (length key) + int n)) > ca_maxGenBytes c"

definition CacheSet :: "kernel \<Rightarrow> cache \<Rightarrow> u8 list \<Rightarrow> cache_value \<Rightarrow> metrics \<Rightarrow> metrics \<times> cache \<times> unit go" where
  "CacheSet os c key v m =
     (if ca_closed c then (m, c, Return ())
      else case (if rotates c key (value_len v) then rotate_gens c m else (m, c, Return ())) of
             (m1, c1, Panic p) \<Rightarrow> (m1, c1, Panic p)
           | (m1, c1, Return _) \<Rightarrow> (case insert_entry os c1 key v of (c2, r) \<Rightarrow> (m1, c2, r)))"

definition CacheGet :: "kernel \<Rightarrow> cache \<Rightarrow> u8 list \<Rightarrow> metrics \<Rightarrow> metrics \<times> cache \<times> cache_value option go" where
  "CacheGet os c key m =
     (if ca_closed c then (m, c, Return None)
      else case cg_entries (ca_active c) key of
             Some e \<Rightarrow> (m, c, Return (Some (Ref (cg_id (ca_active c)) (ce_val e))))
           | None \<Rightarrow>
               (case cg_entries (ca_old c) key of
                  None \<Rightarrow> (m, c, Return None)
                | Some e \<Rightarrow>
                    (let v = Ref (cg_id (ca_old c)) (ce_val e) in
                     case CacheSet os c key v m of
                       (m1, c1, Panic p) \<Rightarrow> (m1, c1, Panic p)
                     | (m1, c1, Return _) \<Rightarrow> (m1, c1, Return (Some v)))))"

text \<open>The caller's scope is a byte allocator, None for nil; the result is a copy, or the cache's slice.\<close>

definition CacheGetScope ::
  "kernel \<Rightarrow> cache \<Rightarrow> u8 list \<Rightarrow> (int \<Rightarrow> panic option) option \<Rightarrow> metrics \<Rightarrow> metrics \<times> cache \<times> cache_value option go" where
  "CacheGetScope os c key scope m =
     (case CacheGet os c key m of
        (m1, c1, Panic p) \<Rightarrow> (m1, c1, Panic p)
      | (m1, c1, Return None) \<Rightarrow> (m1, c1, Return None)
      | (m1, c1, Return (Some v)) \<Rightarrow>
          (case scope of
             None \<Rightarrow> (m1, c1, Return (Some v))
           | Some alloc \<Rightarrow>
               (case alloc (int (value_len v)) of
                  Some p \<Rightarrow> (m1, c1, Panic p)
                | None \<Rightarrow> (m1, c1, Return (Some (Bytes (read_value c1 v)))))))"

definition CacheDelete :: "cache \<Rightarrow> u8 list \<Rightarrow> cache" where
  "CacheDelete c key =
     c\<lparr>ca_active := (ca_active c)\<lparr>cg_entries := (cg_entries (ca_active c))(key := None)\<rparr>,
       ca_old := (ca_old c)\<lparr>cg_entries := (cg_entries (ca_old c))(key := None)\<rparr>\<rparr>"

definition CacheLen :: "cache \<Rightarrow> nat" where
  "CacheLen c = card (dom (cg_entries (ca_active c)))"

definition CacheClose :: "os_env \<Rightarrow> os_env \<Rightarrow> cache \<Rightarrow> metrics \<Rightarrow> metrics \<times> cache \<times> unit go" where
  "CacheClose os1 os2 c m =
     (if ca_closed c then (m, c, Return ())
      else let c1 = c\<lparr>ca_closed := True\<rparr> in
        case gen_close os1 (ca_active c1) m of
          (m1, g, Panic p) \<Rightarrow> (m1, c1\<lparr>ca_active := g\<rparr>, Panic p)
        | (m1, g, Return _) \<Rightarrow>
            (case gen_close os2 (ca_old c1) m1 of (m2, g', r) \<Rightarrow> (m2, c1\<lparr>ca_active := g, ca_old := g'\<rparr>, r)))"

section \<open>Memory lemmas\<close>

lemma load_cong: "(\<And>p. p \<in> region b \<Longrightarrow> arena_byte a' p = arena_byte a p) \<Longrightarrow> load a' b = load a b"
  by (auto simp: load_def mem_region_iff)

lemma length_load [simp]: "length (load a b) = sl_len b"
  by (simp add: load_def)

lemma store_byte:
  assumes "in_bounds a b" "length bs = sl_len b" "p \<in> live_bytes a" "arena_inv a"
  shows "arena_byte (store b bs a) p = (if p \<in> region b then bs ! (snd p - sl_lo b) else arena_byte a p)"
proof -
  obtain i j where p: "p = (i, j)" by (cases p)
  have i: "i < length (ar_chunks a)" and j: "j < chunk_len (ar_chunks a ! i)"
    using assms(3,4) arena_inv_chunk [of a i] by (auto simp: p live_bytes_def chunk_ok_def)
  have b: "sl_chunk b < length (ar_chunks a)" "sl_lo b + length bs \<le> chunk_len (ar_chunks a ! sl_chunk b)"
    using assms(1,2) by (auto simp: in_bounds_def sl_hi_def)
  show ?thesis
    using i j b assms(2) by (auto simp: p store_def Let_def arena_byte_def mem_region_iff nth_list_update nth_append min_def)
qed

lemma store_shape:
  assumes "in_bounds a b" "length bs = sl_len b"
  shows "same_layout a (store b bs a)" "same_config a (store b bs a)"
  using assms
  by (auto simp: store_def Let_def same_layout_def same_config_def in_bounds_def sl_hi_def nth_list_update)

lemma same_layout_live: "same_layout a b \<Longrightarrow> live_bytes b = live_bytes a"
  by (auto simp: same_layout_def live_bytes_def)

lemma disjoint_update:
  assumes "sorted_wrt (\<lambda>c d. addr_range c \<inter> addr_range d = {}) cs" "addr_range d = addr_range (cs ! i)"
  shows "sorted_wrt (\<lambda>c d. addr_range c \<inter> addr_range d = {}) (cs[i := d])"
proof -
  have "addr_range (cs[i := d] ! j) = addr_range (cs ! j)" if "j < length cs" for j
    using assms(2) that by (cases "i = j") auto
  then show ?thesis using assms(1) unfolding sorted_wrt_iff_nth_less by auto
qed

lemma store_inv:
  assumes "arena_inv a" "in_bounds a b" "length bs = sl_len b"
  shows "arena_inv (store b bs a)"
proof -
  let ?c = "ar_chunks a ! sl_chunk b"
  let ?d = "?c\<lparr>ch_buf := take (sl_lo b) (ch_buf ?c) @ bs @ drop (sl_lo b + length bs) (ch_buf ?c)\<rparr>"
  have b: "sl_chunk b < length (ar_chunks a)" "sl_lo b + length bs \<le> chunk_len ?c"
    using assms(2,3) by (auto simp: in_bounds_def sl_hi_def)
  have d: "chunk_len ?d = chunk_len ?c" "addr_range ?d = addr_range ?c" using b by (auto simp: addr_range_def)
  have c: "chunk_ok ?d" using arena_inv_chunk [OF assms(1) b(1)] d(1) by (simp add: chunk_ok_def)
  have "store b bs a = a\<lparr>ar_chunks := (ar_chunks a)[sl_chunk b := ?d]\<rparr>" by (simp add: store_def Let_def)
  moreover have "sorted_wrt (\<lambda>c d. addr_range c \<inter> addr_range d = {}) ((ar_chunks a)[sl_chunk b := ?d])"
    using assms(1) d(2) by (intro disjoint_update) (auto simp: arena_inv_def)
  moreover have "\<forall>x \<in> set ((ar_chunks a)[sl_chunk b := ?d]). chunk_ok x"
    using assms(1) c set_update_subset_insert [of "ar_chunks a" "sl_chunk b" ?d] by (auto simp: arena_inv_def)
  ultimately show ?thesis
    using assms(1) b(1) by (auto simp: arena_inv_def nth_list_update split: option.splits)
qed

lemma load_store_same:
  assumes "arena_inv a" "in_bounds a b" "length bs = sl_len b" "region b \<subseteq> live_bytes a"
  shows "load (store b bs a) b = bs"
proof (rule nth_equalityI)
  fix j assume "j < length (load (store b bs a) b)"
  then have j: "j < sl_len b" by simp
  then have "(sl_chunk b, sl_lo b + j) \<in> region b" by (simp add: mem_region_iff)
  moreover from this have "(sl_chunk b, sl_lo b + j) \<in> live_bytes a" using assms(4) by blast
  ultimately show "load (store b bs a) b ! j = bs ! j"
    using j store_byte [OF assms(2,3) _ assms(1)] by (simp add: load_def)
qed (use assms(3) in simp)

lemma load_store_other:
  assumes "arena_inv a" "in_bounds a b" "length bs = sl_len b" "region x \<subseteq> live_bytes a" "region x \<inter> region b = {}"
  shows "load (store b bs a) x = load a x"
proof (rule load_cong)
  fix p assume "p \<in> region x"
  with assms(4,5) have "p \<in> live_bytes a" "p \<notin> region b" by blast+
  then show "arena_byte (store b bs a) p = arena_byte a p"
    using store_byte [OF assms(2,3) _ assms(1)] by simp
qed

section \<open>Generations\<close>

definition kernel_ok :: "kernel \<Rightarrow> bool" where
  "kernel_ok os \<longleftrightarrow> (\<forall>cs. os_ok (os cs) cs)"

text \<open>The key an entry is stored under is the text its key slice holds, and both slices are memory in use.\<close>

definition entry_ok :: "arena \<Rightarrow> u8 list \<Rightarrow> cache_entry \<Rightarrow> bool" where
  "entry_ok a k e \<longleftrightarrow> load a (ce_key e) = k \<and> region (ce_key e) \<subseteq> live_bytes a \<and> region (ce_val e) \<subseteq> live_bytes a"

definition gen_ok :: "cache_gen \<Rightarrow> bool" where
  "gen_ok g \<longleftrightarrow> arena_inv (cg_arena g) \<and> \<not> ar_poisonOnExit (cg_arena g) \<and>
     sc_active (cg_scope g) \<and> \<not> sc_poisonOnExit (cg_scope g) \<and> sc_cleanups (cg_scope g) = [] \<and>
     (\<forall>k e. cg_entries g k = Some e \<longrightarrow> entry_ok (cg_arena g) k e)"

text \<open>What a generation holds: a map from keys to values.\<close>

definition gen_map :: "cache_gen \<Rightarrow> u8 list \<rightharpoonup> u8 list" where
  "gen_map g k = map_option (\<lambda>e. load (cg_arena g) (ce_val e)) (cg_entries g k)"

definition cache_ok :: "cache \<Rightarrow> bool" where
  "cache_ok c \<longleftrightarrow> gen_ok (ca_active c) \<and> gen_ok (ca_old c) \<and> cg_id (ca_active c) \<noteq> cg_id (ca_old c)"

lemma AllocAligned_state:
  assumes "arena_inv a" "os_ok os (ar_chunks a)" "in_int64 n" "in_int64 align" "AllocAligned os a n align = (b, r)"
  shows "arena_inv b \<and> arena_ext a b \<and> same_config a b"
proof -
  have "alloc_outcome a n align (TryAllocAligned os a n align)"
    using TryAllocAligned_ok [OF assms(1), of os n align] assms(2-4) by (simp add: arena_req_ok_def)
  moreover have "same_config a a" by (simp add: same_config_def)
  ultimately show ?thesis
    using assms(1,5) TryAllocAligned_config [of a os n align]
    by (auto simp: AllocAligned_def panic_on_err_def AllocAlignedOrErr_def alloc_outcome_def
        split: if_splits prod.splits sum.splits option.splits)
qed

lemma byte_not_on_heap [simp]: "\<not> on_heap (TUint 8)"
  by (simp add: on_heap_def reflect_TypeOf_zero_def HasPointersReflect_def)

lemma AllocSlice_bytes_state:
  assumes "arena_inv a" "os_ok os (ar_chunks a)" "AllocSlice os s a (TUint 8) n = (s', b, r)"
  shows "arena_inv b \<and> arena_ext a b \<and> same_config a b \<and> sc_active s' = sc_active s \<and>
    sc_poisonOnExit s' = sc_poisonOnExit s \<and> sc_cleanups s' = sc_cleanups s"
proof -
  have c: "same_config a a" by (simp add: same_config_def)
  obtain x t where x: "AllocAligned os a (go_int n) 1 = (x, t)" by force
  have "in_int64 1" by (simp add: in_int64_def)
  from AllocAligned_state [OF assms(1,2) in_int64_go_int this x] c assms(1,3) x show ?thesis
    by (auto simp: AllocSlice_def AllocSliceCap_def slice_in_arena_def alloc_tracked_def
        split: if_splits prod.splits go.splits)
qed

lemma same_config_poison: "same_config a b \<Longrightarrow> ar_poisonOnExit b = ar_poisonOnExit a"
  by (simp add: same_config_def)

lemma load_ext: "arena_ext a b \<Longrightarrow> region x \<subseteq> live_bytes a \<Longrightarrow> load b x = load a x"
  by (rule load_cong) (auto intro: ext_byte)

lemma entry_ok_ext: "arena_ext a b \<Longrightarrow> entry_ok a k e \<Longrightarrow> entry_ok b k e"
  using arena_ext_live [of a b] by (auto simp: entry_ok_def load_ext)

lemma gen_alloc_state:
  assumes "gen_ok g" "kernel_ok os" "gen_alloc os g n = (g', r)"
  shows "gen_ok g' \<and> cg_id g' = cg_id g \<and> cg_entries g' = cg_entries g \<and> cg_used g' = cg_used g \<and>
    arena_ext (cg_arena g) (cg_arena g')"
proof -
  let ?os = "os (ar_chunks (cg_arena g))"
  have o: "os_ok ?os (ar_chunks (cg_arena g))" using assms(2) by (simp add: kernel_ok_def)
  have inv: "arena_inv (cg_arena g)" using assms(1) by (simp add: gen_ok_def)
  obtain s a t where t: "AllocSlice ?os (cg_scope g) (cg_arena g) (TUint 8) (int n) = (s, a, t)" by (metis prod.collapse)
  have g': "g' = g\<lparr>cg_scope := s, cg_arena := a\<rparr>"
    using assms(3) by (auto simp: gen_alloc_def t split: go.splits prod.splits placed.splits)
  note S = AllocSlice_bytes_state [OF inv o t]
  then show ?thesis
    using assms(1) by (auto simp: g' gen_ok_def same_config_poison intro: entry_ok_ext)
qed

lemma gen_alloc_Return:
  assumes "gen_ok g" "kernel_ok os" "gen_alloc os g n = (g', Return b)"
  shows "sl_len b = n \<and> region b \<inter> live_bytes (cg_arena g) = {} \<and> region b \<subseteq> live_bytes (cg_arena g') \<and>
    in_bounds (cg_arena g') b"
proof -
  let ?os = "os (ar_chunks (cg_arena g))"
  have o: "os_ok ?os (ar_chunks (cg_arena g))" using assms(2) by (simp add: kernel_ok_def)
  have inv: "arena_inv (cg_arena g)" using assms(1) by (simp add: gen_ok_def)
  obtain s a l c where t: "AllocSlice ?os (cg_scope g) (cg_arena g) (TUint 8) (int n) = (s, a, Return (InArena b, l, c))"
    and g': "cg_arena g' = a"
    using assms(3) by (auto simp: gen_alloc_def split: go.splits prod.splits placed.splits)
  have w: "wf_type (TUint 8)" by simp
  have sz: "sizeof (TUint 8) = 1" by simp
  from AllocSliceCap_exact [OF inv o w t [unfolded AllocSlice_def]]
  have A: "sl_len b = n" "region b \<inter> live_bytes (cg_arena g) = {}" "region b \<subseteq> live_bytes a"
    by (auto simp: sz)
  obtain u v where "alloc_tracked ?os (cg_scope g) (cg_arena g) (go_int (int n)) 1 = (u, v, Return b)"
    using t by (auto simp: AllocSlice_def AllocSliceCap_def slice_in_arena_def split: if_splits go.splits prod.splits)
  from alloc_tracked_Return(1,2) [OF this inv o in_int64_go_int] have "0 < sl_len b" by (simp add: in_int64_def)
  moreover have "arena_inv a" using gen_alloc_state [OF assms] by (simp add: gen_ok_def g')
  ultimately have "in_bounds a b" using A(3) live_in_bounds by blast
  with A show ?thesis by (simp add: g')
qed

lemma gen_store_ok:
  assumes "gen_ok g" "in_bounds (cg_arena g) b" "length bs = sl_len b" "region b \<subseteq> live_bytes (cg_arena g)"
    "\<And>k e. cg_entries g k = Some e \<Longrightarrow> region (ce_key e) \<inter> region b = {} \<and> region (ce_val e) \<inter> region b = {}"
  shows "gen_ok (gen_store b bs g) \<and> gen_map (gen_store b bs g) = gen_map g"
proof -
  let ?a = "cg_arena g"
  have inv: "arena_inv ?a" using assms(1) by (simp add: gen_ok_def)
  have L: "live_bytes (store b bs ?a) = live_bytes ?a"
    using same_layout_live store_shape(1) assms(2,3) by blast
  have e: "entry_ok ?a k e" if "cg_entries g k = Some e" for k e
    using assms(1) that by (simp add: gen_ok_def)
  have E: "entry_ok (store b bs ?a) k e \<and> load (store b bs ?a) (ce_val e) = load ?a (ce_val e)"
    if k: "cg_entries g k = Some e" for k e
    using e [OF k] assms(5) [OF k] load_store_other [OF inv assms(2,3)] by (auto simp: entry_ok_def L)
  have "gen_map (gen_store b bs g) k = gen_map g k" for k
    using E by (cases "cg_entries g k") (auto simp: gen_map_def gen_store_def)
  then show ?thesis
    using assms(1) E store_inv [OF inv assms(2,3)] same_config_poison [OF store_shape(2) [OF assms(2,3)]]
    by (auto simp: gen_ok_def gen_store_def)
qed

text \<open>An allocation followed by the copy into it: nothing that was stored changes.\<close>

lemma alloc_store:
  assumes "gen_ok g" "kernel_ok os" "gen_alloc os g n = (g1, Return b)" "length bs = n"
  shows "gen_ok (gen_store b bs g1) \<and> gen_map (gen_store b bs g1) = gen_map g \<and>
    cg_id (gen_store b bs g1) = cg_id g \<and> cg_entries (gen_store b bs g1) = cg_entries g \<and>
    cg_used (gen_store b bs g1) = cg_used g \<and>
    load (cg_arena (gen_store b bs g1)) b = bs \<and> region b \<subseteq> live_bytes (cg_arena (gen_store b bs g1)) \<and>
    live_bytes (cg_arena g) \<subseteq> live_bytes (cg_arena (gen_store b bs g1)) \<and>
    (\<forall>x. region x \<subseteq> live_bytes (cg_arena g) \<longrightarrow> load (cg_arena (gen_store b bs g1)) x = load (cg_arena g) x)"
proof -
  note S = gen_alloc_state [OF assms(1-3)]
  note R = gen_alloc_Return [OF assms(1-3)]
  let ?a = "cg_arena g" and ?a1 = "cg_arena g1"
  have inv: "arena_inv ?a1" using S by (simp add: gen_ok_def)
  have ib: "in_bounds ?a1 b" and len: "length bs = sl_len b" and lb: "region b \<subseteq> live_bytes ?a1"
    using R assms(4) by auto
  have fresh: "x \<inter> region b = {}" if "x \<subseteq> live_bytes ?a" for x using that R by blast
  have ext: "live_bytes ?a \<subseteq> live_bytes ?a1" using arena_ext_live S by blast
  have e: "entry_ok ?a k e" if "cg_entries g k = Some e" for k e
    using assms(1) that by (simp add: gen_ok_def)
  have dis: "region (ce_key e) \<inter> region b = {} \<and> region (ce_val e) \<inter> region b = {}"
    if "cg_entries g1 k = Some e" for k e
    using e [of k e] that S fresh by (simp add: entry_ok_def)
  note G = gen_store_ok [OF _ ib len lb dis]
  have L: "live_bytes (store b bs ?a1) = live_bytes ?a1"
    using same_layout_live store_shape(1) ib len by blast
  have "load (store b bs ?a1) x = load ?a x" if "region x \<subseteq> live_bytes ?a" for x
    using load_store_other [OF inv ib len, of x] fresh [OF that] ext that load_ext [of ?a ?a1 x] S by auto
  moreover have "gen_map g1 k = gen_map g k" for k
    using e [of k] S by (cases "cg_entries g k") (auto simp: gen_map_def entry_ok_def load_ext)
  ultimately show ?thesis
    using G S L load_store_same [OF inv ib len lb] lb ext by (auto simp: gen_store_def fun_eq_iff)
qed

text \<open>A value whose bytes do not depend on what happens to the active generation.\<close>

definition value_is :: "cache \<Rightarrow> cache_value \<Rightarrow> u8 list \<Rightarrow> bool" where
  "value_is c v bs \<longleftrightarrow> value_len v = length bs \<and>
     (\<forall>g. cg_id g = cg_id (ca_active c) \<longrightarrow> read_value (c\<lparr>ca_active := g\<rparr>) v = bs)"

lemma value_is_Bytes [simp]: "value_is c (Bytes bs) bs"
  by (simp add: value_is_def)

lemma insert_entry_ok:
  assumes "cache_ok c" "kernel_ok os" "value_is c v bs" "insert_entry os c key v = (c', r)"
  shows "cache_ok c' \<and> ca_old c' = ca_old c \<and> ca_closed c' = ca_closed c \<and> ca_maxGenBytes c' = ca_maxGenBytes c \<and>
    cg_id (ca_active c') = cg_id (ca_active c) \<and>
    gen_map (ca_active c') = (if r = Return () then (gen_map (ca_active c))(key \<mapsto> bs) else gen_map (ca_active c))"
proof -
  let ?g = "ca_active c"
  have g: "gen_ok ?g" and n: "value_len v = length bs" using assms(1,3) by (auto simp: cache_ok_def value_is_def)
  have keep: "gen_map x = gen_map y" if "gen_ok y" "cg_entries x = cg_entries y" "arena_ext (cg_arena y) (cg_arena x)" for x y
  proof
    fix k show "gen_map x k = gen_map y k"
      using that by (cases "cg_entries y k") (auto simp: gen_map_def gen_ok_def entry_ok_def load_ext)
  qed
  obtain g1 r1 where a1: "gen_alloc os ?g (length key) = (g1, r1)" by force
  note S1 = gen_alloc_state [OF g assms(2) a1]
  show ?thesis
  proof (cases r1)
    case (Panic p)
    then show ?thesis using assms(1,4) a1 S1 keep [OF g, of g1] by (auto simp: insert_entry_def cache_ok_def)
  next
    case (Return kb)
    define g2 where "g2 = gen_store kb key g1"
    note S2 = alloc_store [OF g assms(2) a1 [unfolded Return] refl, folded g2_def]
    obtain g3 r3 where a3: "gen_alloc os g2 (value_len v) = (g3, r3)" by force
    note S3 = gen_alloc_state [OF _ assms(2) a3]
    show ?thesis
    proof (cases r3)
      case (Panic p)
      then show ?thesis
        using assms(1,4) a1 a3 Return S2 S3 keep [of g2 g3] by (auto simp: insert_entry_def g2_def [symmetric] cache_ok_def Let_def)
    next
      case r3: (Return vb)
      have rv: "read_value (c\<lparr>ca_active := g3\<rparr>) v = bs" using assms(3) S2 S3 by (simp add: value_is_def)
      define g4 where "g4 = gen_store vb bs g3"
      have "gen_ok g2" using S2 by blast
      note S4 = alloc_store [OF this assms(2) a3 [unfolded r3] n [symmetric], folded g4_def]
      have c': "c' = c\<lparr>ca_active := g4\<lparr>cg_entries := (cg_entries g4)(key \<mapsto> \<lparr>ce_key = kb, ce_val = vb\<rparr>),
          cg_used := go_int (cg_used g4 + go_int (int (length key) + int (value_len v)))\<rparr>\<rparr>" "r = Return ()"
        using assms(4) a1 a3 Return r3 rv by (auto simp: insert_entry_def g2_def [symmetric] g4_def [symmetric] Let_def)
      have "entry_ok (cg_arena g4) key \<lparr>ce_key = kb, ce_val = vb\<rparr>"
        using S2 S4 by (auto simp: entry_ok_def)
      then show ?thesis
        using assms(1) S2 S4 by (auto simp: c' cache_ok_def gen_ok_def gen_map_def fun_eq_iff)
    qed
  qed
qed

lemma gen_reset_ok:
  assumes "gen_ok g" "gen_reset g m = (m', g', r)"
  shows "r = Return () \<and> gen_ok g' \<and> cg_id g' = cg_id g \<and> gen_map g' = Map.empty"
proof -
  have "ar_poisonOnExit (Reset (cg_arena g)) = ar_poisonOnExit (cg_arena g)" by (simp add: Reset_def Let_def)
  then show ?thesis
    using assms Reset_inv [of "cg_arena g"]
    by (auto simp: gen_reset_def exit_gen_def Exit_def Let_def EnterScope_def gen_ok_def gen_map_def)
qed

lemma rotate_ok:
  assumes "cache_ok c" "rotate_gens c m = (m', c', r)"
  shows "r = Return () \<and> cache_ok c' \<and> gen_map (ca_active c') = Map.empty \<and> ca_old c' = ca_active c \<and>
    ca_closed c' = ca_closed c \<and> ca_maxGenBytes c' = ca_maxGenBytes c"
proof -
  obtain m1 g r1 where g: "gen_reset (ca_old c) m = (m1, g, r1)" by (metis prod.collapse)
  show ?thesis using gen_reset_ok [OF _ g] assms g by (auto simp: rotate_gens_def cache_ok_def)
qed

section \<open>The cache is a pair of maps\<close>

text \<open>The abstract cache: the newer and the older map, and what storing means.\<close>

type_synonym maps = "(u8 list \<rightharpoonup> u8 list) \<times> (u8 list \<rightharpoonup> u8 list)"

definition abs_cache :: "cache \<Rightarrow> maps" where
  "abs_cache c = (gen_map (ca_active c), gen_map (ca_old c))"

definition spec_rotate :: "bool \<Rightarrow> maps \<Rightarrow> maps" where
  "spec_rotate full s = (if full then (Map.empty, fst s) else s)"

definition spec_set :: "bool \<Rightarrow> u8 list \<Rightarrow> u8 list \<Rightarrow> maps \<Rightarrow> maps" where
  "spec_set full key val s = (case spec_rotate full s of (new, old) \<Rightarrow> (new(key \<mapsto> val), old))"

lemma CacheSet_ok:
  assumes "cache_ok c" "kernel_ok os" "\<not> ca_closed c" "CacheSet os c key (Bytes val) m = (m', c', r)"
  shows "cache_ok c' \<and> \<not> ca_closed c' \<and>
    abs_cache c' = (if r = Return () then spec_set else (\<lambda>full k v. spec_rotate full)) (rotates c key (length val)) key val (abs_cache c)"
proof -
  obtain m1 c1 r1 where c1: "(if rotates c key (length val) then rotate_gens c m else (m, c, Return ())) = (m1, c1, r1)"
    by (metis prod.collapse)
  have C: "r1 = Return () \<and> cache_ok c1 \<and> \<not> ca_closed c1 \<and> abs_cache c1 = spec_rotate (rotates c key (length val)) (abs_cache c)"
    using rotate_ok [OF assms(1)] c1 assms(1,3) by (auto simp: abs_cache_def spec_rotate_def split: if_splits)
  obtain c2 r2 where c2: "insert_entry os c1 key (Bytes val) = (c2, r2)" by force
  have "c' = c2" "r = r2" using assms(3,4) c1 c2 C by (auto simp: CacheSet_def split: if_splits)
  with C insert_entry_ok [OF _ assms(2) value_is_Bytes c2] show ?thesis
    by (auto simp: abs_cache_def spec_set_def split: prod.splits)
qed

text \<open>C26. On a live cache \<^verbatim>\<open>Set\<close> stores copies of key and value that no later copy overwrites: seen
  as two maps, the newer one gets the entry, after the older was dropped and the newer took its place when the
  bytes exceed the limit. When an allocation panics nothing is stored, and the cache is as sound as
  before.\<close>

theorem CacheSet_refines:
  assumes "cache_ok c" "kernel_ok os" "\<not> ca_closed c" "CacheSet os c key (Bytes val) m = (m', c', r)"
  shows "cache_ok c' \<and> \<not> ca_closed c' \<and>
    abs_cache c' = (if r = Return () then spec_set else (\<lambda>full k v. spec_rotate full)) (rotates c key (length val)) key val (abs_cache c)"
  using assms by (rule CacheSet_ok)

section \<open>A small cache\<close>

definition demo_gen :: "nat \<Rightarrow> u64 \<Rightarrow> cache_gen" where
  "demo_gen i b =
     (let a = demo_arena\<lparr>ar_chunks := [\<lparr>ch_buf = replicate 16 0, ch_base = b, ch_off = 0, ch_release = Munmap\<rparr>]\<rparr>
      in \<lparr>cg_id = i, cg_arena = a, cg_scope = snd (EnterScope a metrics0), cg_entries = Map.empty, cg_used = 0\<rparr>)"

definition demo_cache :: cache where
  "demo_cache = \<lparr>ca_active = demo_gen 0 65536, ca_old = demo_gen 1 131072, ca_maxGenBytes = 8, ca_closed = False\<rparr>"

abbreviation no_mem :: kernel where "no_mem \<equiv> \<lambda>_. no_mem_os"

lemma demo_cache_ok: "cache_ok demo_cache"
  by (simp add: cache_ok_def demo_cache_def demo_gen_def gen_ok_def EnterScope_def arena_inv_def chunk_ok_def demo_arena_def)

lemma no_mem_ok: "kernel_ok no_mem"
  by (simp add: kernel_ok_def no_mem_os_ok)

lemma CacheSet_refines_witness:
  "gen_map (ca_active (fst (snd (CacheSet no_mem demo_cache [97] (Bytes [49]) metrics0)))) [97] = Some [49]"
proof -
  have r: "snd (snd (CacheSet no_mem demo_cache [97] (Bytes [49]) metrics0)) = Return ()" by code_simp
  have o: "\<not> ca_closed demo_cache" by (simp add: demo_cache_def)
  have full: "\<not> rotates demo_cache [97] (length [49::u8])" by code_simp
  have e: "CacheSet no_mem demo_cache [97] (Bytes [49]) metrics0 =
    (fst (CacheSet no_mem demo_cache [97] (Bytes [49]) metrics0),
     fst (snd (CacheSet no_mem demo_cache [97] (Bytes [49]) metrics0)), Return ())"
    using r by (metis prod.collapse)
  from CacheSet_refines [OF demo_cache_ok no_mem_ok o e] full show ?thesis
    by (simp add: abs_cache_def spec_set_def spec_rotate_def)
qed

text \<open>The cache after a \<^verbatim>\<open>Set\<close>, its generations exchanged.\<close>

definition aged_cache :: cache where
  "aged_cache =
     (let c = fst (insert_entry no_mem demo_cache [97] (Bytes [49]))
      in c\<lparr>ca_active := ca_old c, ca_old := ca_active c\<rparr>)"

lemma aged_cache_ok: "cache_ok aged_cache"
  using insert_entry_ok [OF demo_cache_ok no_mem_ok value_is_Bytes prod.collapse [symmetric], of "[97]" "[49]"] demo_cache_ok
  by (auto simp: aged_cache_def Let_def cache_ok_def)

lemma CacheGet_ok:
  assumes "cache_ok c" "kernel_ok os" "\<not> ca_closed c" "CacheGet os c key m = (m', c', Return r)"
    "\<And>v. snd (abs_cache c) key = Some v \<Longrightarrow> \<not> rotates c key (length v)"
  shows "cache_ok c' \<and> map_option (read_value c') r =
      (case fst (abs_cache c) key of Some v \<Rightarrow> Some v | None \<Rightarrow> snd (abs_cache c) key) \<and>
    abs_cache c' = (if fst (abs_cache c) key = None \<and> r \<noteq> None
      then spec_set False key (the (snd (abs_cache c) key)) (abs_cache c) else abs_cache c)"
proof (cases "cg_entries (ca_active c) key")
  case (Some e)
  then show ?thesis using assms(1,3,4) by (auto simp: CacheGet_def abs_cache_def gen_map_def)
next
  case None
  note act = this
  show ?thesis
  proof (cases "cg_entries (ca_old c) key")
    case None
    then show ?thesis using assms(1,3,4) act by (auto simp: CacheGet_def abs_cache_def gen_map_def)
  next
    case (Some e)
    let ?v = "Ref (cg_id (ca_old c)) (ce_val e)" and ?bs = "load (cg_arena (ca_old c)) (ce_val e)"
    have ids: "cg_id (ca_active c) \<noteq> cg_id (ca_old c)" using assms(1) by (simp add: cache_ok_def)
    then have v: "value_is c ?v ?bs" by (auto simp: value_is_def)
    have "\<not> rotates c key (value_len ?v)" using assms(5) Some by (simp add: abs_cache_def gen_map_def)
    then obtain r1 where ins: "insert_entry os c key ?v = (c', r1)" and r: "r = Some ?v" "r1 = Return ()"
      using assms(3,4) act Some by (auto simp: CacheGet_def CacheSet_def Let_def split: prod.splits go.splits)
    from insert_entry_ok [OF assms(1,2) v ins] r ids show ?thesis
      using act Some by (auto simp: abs_cache_def gen_map_def spec_set_def spec_rotate_def)
  qed
qed

text \<open>C27. \<^verbatim>\<open>Get\<close> answers with bytes that read as the stored value: from the newer map without
  changing anything, from the older map after copying the entry into the newer one, provided that copy does not
  rotate the generations; and a key in neither map is not found.\<close>

theorem CacheGet_reads:
  assumes "cache_ok c" "kernel_ok os" "\<not> ca_closed c" "CacheGet os c key m = (m', c', Return r)"
    "\<And>v. snd (abs_cache c) key = Some v \<Longrightarrow> \<not> rotates c key (length v)"
  shows "cache_ok c' \<and> map_option (read_value c') r =
      (case fst (abs_cache c) key of Some v \<Rightarrow> Some v | None \<Rightarrow> snd (abs_cache c) key) \<and>
    abs_cache c' = (if fst (abs_cache c) key = None \<and> r \<noteq> None
      then spec_set False key (the (snd (abs_cache c) key)) (abs_cache c) else abs_cache c)"
  using assms by (rule CacheGet_ok)

lemma CacheGet_reads_witness:
  "map_option (read_value (fst (snd (CacheGet no_mem aged_cache [97] metrics0)))) (Some (Ref 0 (Slice 0 1 1 15))) = Some [49]"
proof -
  have r: "snd (snd (CacheGet no_mem aged_cache [97] metrics0)) = Return (Some (Ref 0 (Slice 0 1 1 15)))" by code_simp
  have o: "\<not> ca_closed aged_cache" by code_simp
  have m: "gen_map (ca_active aged_cache) [97] = None" "gen_map (ca_old aged_cache) [97] = Some [49]" by code_simp+
  have full: "\<not> rotates aged_cache [97] (length [49::u8])" by code_simp
  have e: "CacheGet no_mem aged_cache [97] metrics0 =
    (fst (CacheGet no_mem aged_cache [97] metrics0),
     fst (snd (CacheGet no_mem aged_cache [97] metrics0)), Return (Some (Ref 0 (Slice 0 1 1 15))))"
    using r by (metis prod.collapse)
  from CacheGet_reads [OF aged_cache_ok no_mem_ok o e] m full show ?thesis
    by (simp add: abs_cache_def)
qed

text \<open>The proviso is needed: promoting an entry from the older generation may rotate, which resets the
  generation the entry lives in and copies over its memory. The caller of \<^verbatim>\<open>Get\<close> for the key \<open>b\<close> below
  receives ZWZW, although XYZW was stored.\<close>

definition full_cache :: cache where
  "full_cache =
     (let put = (\<lambda>k v c. fst (snd (CacheSet no_mem c k (Bytes v) metrics0)))
      in put [99] [1, 2, 3, 4, 5] (put [98] [88, 89, 90, 87] (put [97] [49] demo_cache)))"

lemma CacheGet_rotation_corrupts:
  "gen_map (ca_old full_cache) [98] = Some [88, 89, 90, 87] \<and>
   (case CacheGet no_mem full_cache [98] metrics0 of
      (m, c, Return (Some v)) \<Rightarrow> read_value c v = [90, 87, 90, 87] | _ \<Rightarrow> False)"
  by code_simp

text \<open>An empty value cannot be stored.\<close>

lemma CacheSet_empty_panics:
  "snd (snd (CacheSet no_mem demo_cache [97] (Bytes []) metrics0)) = Panic (PanicMsg ''alloc size must be > 0'')"
  by code_simp

end
