(* ===== verification/Lending.thy ===== *)
theory Lending
  imports Prelude "HOL-Library.Multiset"
begin

text \<open>
  What the session of buffers and the sharded pool of arenas have in common: a store that lends things out
  and takes them back, used by clients that return what they hold, once. Every thing has a key, its identity.
\<close>

section \<open>Clients of a lender\<close>

text \<open>
  A state is the store, the things lent out and the next unused key. The environment of a call is what it
  meets outside the store: an oracle's choice, the operating system. A step is a borrow that succeeds or
  panics, a change a client makes to a thing it holds, the return of a thing, or something that happens to the
  store alone.
\<close>

inductive lend_step ::
  "('e \<Rightarrow> bool) \<Rightarrow> ('e \<Rightarrow> nat \<Rightarrow> 's \<Rightarrow> 's \<times> 'b go) \<Rightarrow> ('e \<Rightarrow> 'b \<Rightarrow> 's \<Rightarrow> 's) \<Rightarrow> ('b \<Rightarrow> 'b \<Rightarrow> bool) \<Rightarrow> ('s \<Rightarrow> 's \<Rightarrow> bool) \<Rightarrow>
   's \<times> 'b list \<times> nat \<Rightarrow> 's \<times> 'b list \<times> nat \<Rightarrow> bool"
  for env_ok borrow release change other where
  lend: "env_ok e \<Longrightarrow> borrow e n s = (s', Return b) \<Longrightarrow> lend_step env_ok borrow release change other (s, held, n) (s', b # held, Suc n)"
| refuse: "env_ok e \<Longrightarrow> borrow e n s = (s', Panic p) \<Longrightarrow> lend_step env_ok borrow release change other (s, held, n) (s', held, Suc n)"
| use_thing: "change b b' \<Longrightarrow> lend_step env_ok borrow release change other (s, xs @ b # ys, n) (s, xs @ b' # ys, n)"
| give_back: "env_ok e \<Longrightarrow> lend_step env_ok borrow release change other (s, xs @ b # ys, n) (release e b s, xs @ ys, n)"
| elsewhere: "other s s' \<Longrightarrow> lend_step env_ok borrow release change other (s, held, n) (s', held, n)"

inductive_cases lend_stepE: "lend_step env_ok borrow release change other x y"

text \<open>Every key below the bound occurs at most once, no other occurs.\<close>

definition once_below :: "nat multiset \<Rightarrow> nat \<Rightarrow> bool" where
  "once_below K n \<longleftrightarrow> (\<forall>k. count K k \<le> (if k < n then 1 else 0))"

lemma once_belowD: "once_below K n \<Longrightarrow> count K k \<le> (if k < n then 1 else 0)"
  by (simp add: once_below_def)

lemma once_below_mono:
  assumes "once_below K n" "J \<subseteq># K" "n \<le> m"
  shows "once_below J m"
  unfolding once_below_def
proof
  fix k show "count J k \<le> (if k < m then 1 else 0)"
    using once_belowD [OF assms(1), of k] mset_subset_eq_count [OF assms(2), of k] assms(3) by (simp split: if_splits)
qed

lemma once_below_fresh:
  assumes "once_below K n"
  shows "once_below (add_mset n K) (Suc n)"
  unfolding once_below_def
proof
  fix k show "count (add_mset n K) k \<le> (if k < Suc n then 1 else 0)"
    using once_belowD [OF assms, of k] by (simp split: if_splits)
qed

lemma once_below_empty [simp]: "once_below {#} n"
  by (simp add: once_below_def)

lemma once_below_add: "once_below (add_mset k K) n \<Longrightarrow> k \<notin># K \<and> k < n"
  by (auto simp: once_below_def count_eq_zero_iff [symmetric] dest!: spec [of _ k] split: if_splits)

lemma once_below_distinct: "once_below (mset ks) n \<Longrightarrow> distinct ks"
proof (induction ks)
  case (Cons k ks)
  have "once_below (mset ks) n" using Cons.prems by (rule once_below_mono) auto
  then show ?case using Cons.IH once_below_add [of k "mset ks" n] Cons.prems by auto
qed simp

section \<open>The contract\<close>

locale lender =
  fixes env_ok :: "'e \<Rightarrow> bool"
    and borrow :: "'e \<Rightarrow> nat \<Rightarrow> 's \<Rightarrow> 's \<times> 'b go"
    and release :: "'e \<Rightarrow> 'b \<Rightarrow> 's \<Rightarrow> 's"
    and change :: "'b \<Rightarrow> 'b \<Rightarrow> bool"
    and other :: "'s \<Rightarrow> 's \<Rightarrow> bool"
    and keys :: "'s \<Rightarrow> nat multiset"
    and key :: "'b \<Rightarrow> nat"
    and pool_ok :: "'s \<Rightarrow> bool"
    and sound :: "'b \<Rightarrow> bool"
  assumes borrow_law: "pool_ok s \<Longrightarrow> env_ok e \<Longrightarrow> borrow e n s = (s', Return b) \<Longrightarrow>
      pool_ok s' \<and> sound b \<and> (key b = n \<and> keys s' \<subseteq># keys s \<or> add_mset (key b) (keys s') \<subseteq># keys s)"
    and refuse_law: "pool_ok s \<Longrightarrow> env_ok e \<Longrightarrow> borrow e n s = (s', Panic p) \<Longrightarrow> pool_ok s' \<and> keys s' \<subseteq># keys s"
    and release_law: "pool_ok s \<Longrightarrow> env_ok e \<Longrightarrow> sound b \<Longrightarrow>
      pool_ok (release e b s) \<and> keys (release e b s) \<subseteq># add_mset (key b) (keys s)"
    and change_law: "sound b \<Longrightarrow> change b b' \<Longrightarrow> sound b' \<and> key b' = key b"
    and other_law: "pool_ok s \<Longrightarrow> other s s' \<Longrightarrow> pool_ok s' \<and> keys s' \<subseteq># keys s"
begin

definition lent_ok :: "'s \<times> 'b list \<times> nat \<Rightarrow> bool" where
  "lent_ok x = (case x of (s, held, n) \<Rightarrow>
     pool_ok s \<and> (\<forall>b \<in> set held. sound b) \<and> once_below (keys s + mset (map key held)) n)"

lemma borrow_lent_ok:
  assumes "lent_ok (s, held, n)" "env_ok e" "borrow e n s = (s', Return b)"
  shows "lent_ok (s', b # held, Suc n)"
proof -
  let ?K = "keys s + mset (map key held)"
  have ok: "pool_ok s" "once_below ?K n" using assms(1) by (auto simp: lent_ok_def)
  from borrow_law [OF ok(1) assms(2,3)]
  have "once_below (keys s' + mset (map key (b # held))) (Suc n)"
  proof (elim conjE disjE)
    assume "key b = n" "keys s' \<subseteq># keys s"
    then have "keys s' + mset (map key (b # held)) \<subseteq># add_mset n ?K" by simp
    then show ?thesis using once_below_mono [OF once_below_fresh [OF ok(2)]] by blast
  next
    assume "add_mset (key b) (keys s') \<subseteq># keys s"
    then have "add_mset (key b) (keys s') + mset (map key held) \<subseteq># ?K" by (rule subset_mset.add_right_mono)
    then show ?thesis using once_below_mono [OF ok(2)] by simp
  qed
  with borrow_law [OF ok(1) assms(2,3)] assms(1) show ?thesis by (auto simp: lent_ok_def)
qed

lemma release_lent_ok:
  assumes "lent_ok (s, xs @ b # ys, n)" "env_ok e"
  shows "lent_ok (release e b s, xs @ ys, n)"
proof -
  have "keys (release e b s) \<subseteq># add_mset (key b) (keys s)" and p: "pool_ok (release e b s)"
    using release_law assms by (auto simp: lent_ok_def)
  then have "keys (release e b s) + mset (map key (xs @ ys)) \<subseteq># add_mset (key b) (keys s) + mset (map key (xs @ ys))"
    by (intro subset_mset.add_right_mono)
  moreover have "once_below (add_mset (key b) (keys s) + mset (map key (xs @ ys))) n"
    using assms by (simp add: lent_ok_def)
  ultimately have "once_below (keys (release e b s) + mset (map key (xs @ ys))) n"
    using once_below_mono by blast
  with p assms show ?thesis by (auto simp: lent_ok_def)
qed

lemma shrink_lent_ok:
  assumes "lent_ok (s, held, n)" "pool_ok s'" "keys s' \<subseteq># keys s" "n \<le> m"
  shows "lent_ok (s', held, m)"
proof -
  have "keys s' + mset (map key held) \<subseteq># keys s + mset (map key held)" using assms(3) by (rule subset_mset.add_right_mono)
  then show ?thesis using assms(1,2,4) once_below_mono by (auto simp: lent_ok_def)
qed

lemma change_lent_ok: "lent_ok (s, xs @ b # ys, n) \<Longrightarrow> change b b' \<Longrightarrow> lent_ok (s, xs @ b' # ys, n)"
  using change_law [of b b'] by (auto simp: lent_ok_def)

lemma step_lent_ok: "lend_step env_ok borrow release change other x y \<Longrightarrow> lent_ok x \<Longrightarrow> lent_ok y"
proof (induction rule: lend_step.induct)
  case (refuse e n s s' p held)
  then show ?case using refuse_law shrink_lent_ok [of s held n s' "Suc n"] by (auto simp: lent_ok_def)
next
  case (elsewhere s s' held n)
  then show ?case using other_law shrink_lent_ok [of s held n s' n] by (auto simp: lent_ok_def)
qed (auto intro: borrow_lent_ok release_lent_ok change_lent_ok)

lemma run_lent_ok: "(lend_step env_ok borrow release change other)\<^sup>*\<^sup>* x y \<Longrightarrow> lent_ok x \<Longrightarrow> lent_ok y"
  by (induction rule: rtranclp_induct) (auto intro: step_lent_ok)

text \<open>What clients may rely on: no thing is lent twice or lent and in the store at once, and what a
  borrow returns is sound and nobody else's.\<close>

lemma lent_once:
  assumes "lent_ok (s, held, n)"
  shows "distinct (map key held) \<and> (\<forall>b \<in> set held. key b \<notin># keys s)"
proof -
  have o: "once_below (keys s + mset (map key held)) n" using assms by (simp add: lent_ok_def)
  have "key b \<notin># keys s" if b: "b \<in> set held" for b
  proof -
    obtain xs ys where "held = xs @ b # ys" using split_list b by metis
    with o show ?thesis using once_below_add [of "key b" "keys s + mset (map key (xs @ ys))" n] by auto
  qed
  moreover have "distinct (map key held)"
    using once_below_distinct [OF once_below_mono [OF o, of "mset (map key held)" n]] by simp
  ultimately show ?thesis by blast
qed

lemma lent_new:
  assumes "lent_ok (s, held, n)" "env_ok e" "borrow e n s = (s', Return b)"
  shows "sound b \<and> key b \<notin> key ` set held"
  using lent_once [OF borrow_lent_ok [OF assms]] borrow_lent_ok [OF assms] by (auto simp: lent_ok_def)

end

end
