(* ===== verification/Session.thy ===== *)
theory Session
  imports Lending
begin

text \<open>
  The buffer sessions of \<^verbatim>\<open>session.go\<close>. A Go byte slice that starts at its array is the array with an
  identity and a length. \<^verbatim>\<open>sync.Pool\<close> is the list of the items put in and not yet taken out: \<^verbatim>\<open>Get\<close>
  takes the item an oracle names, or returns nil as it may at any time; the runtime may drop items.
\<close>

section \<open>State\<close>

record gobuf =
  gb_id :: nat
  gb_mem :: "u8 list"
  gb_len :: nat

abbreviation gb_cap :: "gobuf \<Rightarrow> nat" where "gb_cap b \<equiv> length (gb_mem b)"

record session =
  ss_pool :: "gobuf list"
  ss_maxRetain :: int
  ss_zeroOnRelease :: bool
  ss_hits :: u64
  ss_misses :: u64

definition defaultSessionMaxRetain :: int where "defaultSessionMaxRetain = 64 * 1024"

datatype session_option = WithSessionMaxRetain int | WithSessionZeroOnRelease bool

fun apply_session_option :: "session_option \<Rightarrow> session \<Rightarrow> session" where
  "apply_session_option (WithSessionMaxRetain mx) s = (if mx > 0 then s\<lparr>ss_maxRetain := mx\<rparr> else s)"
| "apply_session_option (WithSessionZeroOnRelease enabled) s = s\<lparr>ss_zeroOnRelease := enabled\<rparr>"

definition NewSession :: "session_option option list \<Rightarrow> session" where
  "NewSession opts =
     fold (\<lambda>opt s. case opt of None \<Rightarrow> s | Some f \<Rightarrow> apply_session_option f s) opts
       \<lparr>ss_pool = [], ss_maxRetain = defaultSessionMaxRetain, ss_zeroOnRelease = True, ss_hits = 0, ss_misses = 0\<rparr>"

definition defaultSession :: session where "defaultSession = NewSession []"

section \<open>Operations\<close>

text \<open>\<^verbatim>\<open>make([]byte, size)\<close>\<close>

definition make_buf :: "nat \<Rightarrow> int \<Rightarrow> gobuf go" where
  "make_buf i sz =
     (case makeslice 1 sz sz of
        Panic p \<Rightarrow> Panic p
      | Return _ \<Rightarrow> Return \<lparr>gb_id = i, gb_mem = replicate (nat sz) 0, gb_len = nat sz\<rparr>)"

definition pool_get :: "nat option \<Rightarrow> gobuf list \<Rightarrow> gobuf list \<times> gobuf option" where
  "pool_get ch bs =
     (case ch of
        Some i \<Rightarrow> if i < length bs then (take i bs @ drop (Suc i) bs, Some (bs ! i)) else (bs, None)
      | None \<Rightarrow> (bs, None))"

definition SessBorrow :: "nat option \<times> int \<Rightarrow> nat \<Rightarrow> session \<Rightarrow> session \<times> gobuf go" where
  "SessBorrow e n s =
     (case e of (ch, sz) \<Rightarrow>
        if sz \<le> 0 then (s, Panic (PanicMsg ''Borrow size must be > 0''))
        else case pool_get ch (ss_pool s) of
               (bs, None) \<Rightarrow> (s\<lparr>ss_pool := bs, ss_misses := ss_misses s + 1\<rparr>, make_buf n sz)
             | (bs, Some buf) \<Rightarrow>
                 (let s1 = s\<lparr>ss_pool := bs, ss_hits := ss_hits s + 1\<rparr>
                  in if int (gb_cap buf) < sz then (s1\<lparr>ss_misses := ss_misses s1 + 1\<rparr>, make_buf n sz)
                     else (s1, Return (buf\<lparr>gb_len := nat sz\<rparr>))))"

definition SessRelease :: "gobuf option \<Rightarrow> session \<Rightarrow> session" where
  "SessRelease ob s =
     (case ob of
        None \<Rightarrow> s
      | Some buf \<Rightarrow>
          if int (gb_cap buf) > ss_maxRetain s then s
          else let buf1 = (if ss_zeroOnRelease s
                           then buf\<lparr>gb_mem := replicate (gb_len buf) 0 @ drop (gb_len buf) (gb_mem buf)\<rparr> else buf)
               in s\<lparr>ss_pool := buf1\<lparr>gb_len := 0\<rparr> # ss_pool s\<rparr>)"

text \<open>\<^verbatim>\<open>WithBorrow\<close>: the function may use the session itself and leaves other bytes in the buffer; it is
  released however the function ends.\<close>

definition SessWithBorrow ::
  "nat option \<times> int \<Rightarrow> nat \<Rightarrow> (gobuf \<Rightarrow> session \<Rightarrow> session \<times> u8 list \<times> 'err option go) option \<Rightarrow> session \<Rightarrow> session \<times> 'err option go" where
  "SessWithBorrow e n ofn s =
     (case ofn of
        None \<Rightarrow> (s, Return None)
      | Some fn \<Rightarrow>
          (case SessBorrow e n s of
             (s1, Panic p) \<Rightarrow> (s1, Panic p)
           | (s1, Return buf) \<Rightarrow>
               (case fn buf s1 of (s2, bytes, r) \<Rightarrow> (SessRelease (Some (buf\<lparr>gb_mem := bytes\<rparr>)) s2, r))))"


record session_stats =
  Hits :: u64
  Misses :: u64

definition SessStats :: "session \<Rightarrow> session_stats" where
  "SessStats s = \<lparr>Hits = ss_hits s, Misses = ss_misses s\<rparr>"

section \<open>Sessions lend buffers\<close>






















text \<open>Only the bytes below the length are cleared: a client that returns a shortened slice of its buffer
  leaves the rest to the next borrower.\<close>

lemma Release_short_leaks:
  "let b = \<lparr>gb_id = 0, gb_mem = [1, 2, 3, 4], gb_len = 4\<rparr>;
       s = SessRelease (Some (b\<lparr>gb_len := 0\<rparr>)) defaultSession
   in SessBorrow (Some 0, 4) 1 s = (defaultSession\<lparr>ss_hits := 1\<rparr>, Return b)"
  by code_simp

text \<open>A pooled buffer that is too small is counted as a hit and as a miss.\<close>

lemma Borrow_counts_twice:
  "let b = \<lparr>gb_id = 0, gb_mem = [1], gb_len = 1\<rparr>; s = SessRelease (Some b) defaultSession
   in SessStats (fst (SessBorrow (Some 0, 4) 1 s)) = \<lparr>Hits = 1, Misses = 1\<rparr>"
  by code_simp

end
