(* ===== verification/Sharded.thy ===== *)
theory Sharded
  imports Lending Arena_Props Scope_Spec "HOL-Library.Monad_Syntax"
begin

text \<open>
  The sharded arena pool of \<^verbatim>\<open>arena_sharded.go\<close>: a power of two many stacks of arenas, chosen in turn by an
  atomic counter and a mask. An arena is a pair of its identity and its state; every call is one step, except
  that \<^verbatim>\<open>Release\<close> is also split at the point where \<^verbatim>\<open>Close\<close> may run between its test and its lock.
\<close>

section \<open>State\<close>

record shard =
  sh_arenas :: "(nat \<times> arena) list"
  sh_max :: int

record sharded_pool =
  sp_shards :: "shard list"
  sp_mask :: u64
  sp_slabSize :: int
  sp_counter :: u64
  sp_closed :: bool

text \<open>\<^verbatim>\<open>for shardsCount < n { shardsCount <<= 1 }\<close>, which may run forever.\<close>

partial_function (option) shards_count :: "int \<Rightarrow> int \<Rightarrow> int option" where
  "shards_count n k = (if k < n then shards_count n (go_int (k * 2)) else Some k)"

declare shards_count.simps [code]


section \<open>Operations\<close>

type_synonym sharded = "metrics \<times> sharded_pool"

definition new_arena :: "os_env \<Rightarrow> nat \<Rightarrow> sharded \<Rightarrow> sharded \<times> (nat \<times> arena) go" where
  "new_arena os i s =
     (case NewArena os (sp_slabSize (snd s)) [] (fst s) of
        (m, Panic p) \<Rightarrow> ((m, snd s), Panic p)
      | (m, Return a) \<Rightarrow> ((m, snd s), Return (i, a)))"

text \<open>\<^verbatim>\<open>idx := atomic.AddUint64(&p.counter, 1) & p.mask\<close>\<close>

definition next_idx :: "sharded_pool \<Rightarrow> sharded_pool \<times> nat" where
  "next_idx p = (p\<lparr>sp_counter := sp_counter p + 1\<rparr>, unat ((sp_counter p + 1) AND sp_mask p))"

definition ShardedBorrow :: "os_env \<Rightarrow> nat \<Rightarrow> sharded \<Rightarrow> sharded \<times> (nat \<times> arena) go" where
  "ShardedBorrow os i s =
     (if sp_closed (snd s) then new_arena os i s
      else case next_idx (snd s) of (p, idx) \<Rightarrow>
        if idx \<ge> length (sp_shards p) then ((fst s, p), Panic IndexOutOfRange)
        else let sh = sp_shards p ! idx in
          if sh_arenas sh \<noteq> [] then
            (let (j, a) = last (sh_arenas sh)
             in ((fst s, p\<lparr>sp_shards := (sp_shards p)[idx := sh\<lparr>sh_arenas := butlast (sh_arenas sh)\<rparr>]\<rparr>), Return (j, Reset a)))
          else new_arena os i (fst s, p))"

text \<open>The locked part of \<^verbatim>\<open>Release\<close>, and the closing of an arena that finds no room. The arena is returned in
  the state the caller's pointer sees.\<close>

definition close_arena :: "os_env \<Rightarrow> nat \<times> arena \<Rightarrow> sharded \<Rightarrow> sharded \<times> (nat \<times> arena)" where
  "close_arena os ia s = (case Close os (snd ia) (fst s) of (m, a, _) \<Rightarrow> ((m, snd s), (fst ia, a)))"

definition release_put :: "os_env \<Rightarrow> nat \<times> arena \<Rightarrow> sharded \<Rightarrow> sharded \<times> (nat \<times> arena) go" where
  "release_put os ia s =
     (case next_idx (snd s) of (p, idx) \<Rightarrow>
        if idx \<ge> length (sp_shards p) then ((fst s, p), Panic IndexOutOfRange)
        else let sh = sp_shards p ! idx in
          if int (length (sh_arenas sh)) < sh_max sh
          then ((fst s, p\<lparr>sp_shards := (sp_shards p)[idx := sh\<lparr>sh_arenas := sh_arenas sh @ [ia]\<rparr>]\<rparr>), Return ia)
          else (case close_arena os ia (fst s, p) of (s', ia') \<Rightarrow> (s', Return ia')))"

definition ShardedRelease :: "os_env \<Rightarrow> (nat \<times> arena) option \<Rightarrow> sharded \<Rightarrow> sharded \<times> (nat \<times> arena) option go" where
  "ShardedRelease os oia s =
     (case oia of
        None \<Rightarrow> (s, Return None)
      | Some ia \<Rightarrow>
          if sp_closed (snd s) then (case close_arena os ia s of (s', ia') \<Rightarrow> (s', Return (Some ia')))
          else (case release_put os (fst ia, Reset (snd ia)) s of
                  (s', Return ia') \<Rightarrow> (s', Return (Some ia'))
                | (s', Panic p) \<Rightarrow> (s', Panic p)))"

text \<open>\<^verbatim>\<open>WithScope\<close>: the scope is exited, then the arena released, however the body ends; the exit is not
  guarded, and a panic in it takes the place of the result.\<close>

definition ShardedWithScope ::
  "os_env \<Rightarrow> os_env \<Rightarrow> nat \<Rightarrow> (unit scope \<Rightarrow> arena \<Rightarrow> sharded \<Rightarrow> sharded \<times> unit scope \<times> arena \<times> 'err option go) \<Rightarrow> sharded
   \<Rightarrow> sharded \<times> 'err option go" where
  "ShardedWithScope os os' i fn s =
     (case ShardedBorrow os i s of
        (s1, Panic p) \<Rightarrow> (s1, Panic p)
      | (s1, Return (j, a)) \<Rightarrow>
          (case EnterScope a (fst s1) of (m1, sc) \<Rightarrow>
            (case fn sc a (m1, snd s1) of (s2, sc2, a2, r) \<Rightarrow>
              (case Exit sc2 (a2, ()) (fst s2) of (m3, sc3, (a3, _), x) \<Rightarrow>
                (case ShardedRelease os' (Some (j, a3)) (m3, snd s2) of
                   (s4, Panic p) \<Rightarrow> (s4, Panic p)
                 | (s4, Return _) \<Rightarrow> (s4, case x of Panic p \<Rightarrow> Panic p | Return _ \<Rightarrow> r)))))) "

definition close_shard :: "os_env \<Rightarrow> shard \<Rightarrow> metrics \<Rightarrow> metrics" where
  "close_shard os sh m = fold (\<lambda>ia m. fst (Close os (snd ia) m)) (sh_arenas sh) m"

definition ShardedClose :: "os_env \<Rightarrow> sharded \<Rightarrow> sharded" where
  "ShardedClose os s =
     (if sp_closed (snd s) then s
      else (fold (close_shard os) (sp_shards (snd s)) (fst s),
            (snd s)\<lparr>sp_closed := True, sp_shards := map (\<lambda>sh. sh\<lparr>sh_arenas := []\<rparr>) (sp_shards (snd s))\<rparr>))"

section \<open>The number of shards\<close>

lemma shards_count_power2:
  assumes "n \<le> 2 ^ j" "j < 63"
  shows "i \<le> j \<Longrightarrow> \<exists>k \<ge> i. shards_count n (2 ^ i) = Some (2 ^ k) \<and> n \<le> 2 ^ k \<and> (k = i \<or> 2 ^ (k - 1) < n)"
proof (induction "j - i" arbitrary: i)
  case 0
  then have "i = j" by simp
  with assms(1) have "shards_count n (2 ^ i) = Some (2 ^ i)" by (subst shards_count.simps) simp
  with \<open>i = j\<close> assms(1) show ?case by (intro exI [of _ i]) simp
next
  case (Suc d)
  show ?case
  proof (cases "(2::int) ^ i < n")
    case False
    then have "shards_count n (2 ^ i) = Some (2 ^ i)" by (subst shards_count.simps) simp
    then show ?thesis using False by (intro exI [of _ i]) simp
  next
    case True
    have "Suc i \<le> j" "d = j - Suc i" using Suc.hyps(2) by auto
    from Suc.hyps(1) [OF this(2,1)] obtain k where
      k: "Suc i \<le> k" "shards_count n (2 ^ Suc i) = Some (2 ^ k)" "n \<le> 2 ^ k" "k = Suc i \<or> 2 ^ (k - 1) < n"
      by blast
    have "(2::int) ^ Suc i < 2 ^ 63" using \<open>Suc i \<le> j\<close> assms(2) by (intro power_strict_increasing) auto
    then have "go_int (2 ^ i * 2) = 2 ^ Suc i" by (subst go_int_nonneg) (auto simp: mult.commute)
    with True k(2) have "shards_count n (2 ^ i) = Some (2 ^ k)" by (subst shards_count.simps) simp
    then show ?thesis using k(1,3,4) True by (intro exI [of _ k]) auto
  qed
qed

text \<open>The loop that rounds the number of shards up returns, with the smallest power of two that is
  not below, for every processor count below \<open>2^61\<close>; so the mask selects exactly the shards there are: every
  counter value, also after it wraps, gives an index in bounds.\<close>

lemma shards_count_returns:
  assumes "1 \<le> n" "n \<le> 2 ^ 62"
  shows "\<exists>k. shards_count n 1 = Some (2 ^ k) \<and> n \<le> 2 ^ k \<and> 2 ^ k < 2 * n \<and>
    (\<forall>c::u64. unat (c AND word_of_int (go_int (2 ^ k - 1))) < 2 ^ k)"
proof -
  obtain k where k: "shards_count n 1 = Some (2 ^ k)" "n \<le> 2 ^ k" "k = 0 \<or> 2 ^ (k - 1) < n"
    using shards_count_power2 [OF assms(2), of 0] by auto
  have lt: "2 ^ k < 2 * n"
    using k(3) assms(1) by (cases k) auto
  then have "(2::int) ^ k < 2 ^ 63" using assms(2) by simp
  then have k63: "k < 63" by (rule power_less_imp_less_exp [rotated]) simp
  have "unat (c AND word_of_int (go_int (2 ^ k - 1))) < 2 ^ k" for c :: u64
  proof -
    have "go_int (2 ^ k - 1) = mask k" using \<open>(2::int) ^ k < 2 ^ 63\<close> by (simp add: mask_eq_exp_minus_1 go_int_nonneg)
    then have "c AND word_of_int (go_int (2 ^ k - 1)) = take_bit k c" by (simp add: take_bit_eq_mask of_int_mask_eq)
    then show ?thesis by (simp add: unsigned_take_bit_eq)
  qed
  with k lt show ?thesis by blast
qed

lemma shards_count_returns_witness:
  "\<exists>k. shards_count 20 1 = Some (2 ^ k) \<and> (20::int) \<le> 2 ^ k \<and> (2::int) ^ k < 2 * 20"
  using shards_count_returns [of 20] by auto

section \<open>The pool lends arenas\<close>




























definition demo_pool :: sharded_pool where
  "demo_pool = \<lparr>sp_shards = replicate 4 \<lparr>sh_arenas = [], sh_max = 1\<rparr>, sp_mask = 3, sp_slabSize = 16,
     sp_counter = 0, sp_closed = False\<rparr>"




section \<open>Closing, and what it misses\<close>

text \<open>\<^verbatim>\<open>Release\<close> reads the closed flag before it takes the lock. When \<^verbatim>\<open>Close\<close> runs in between, the
  arena is put into the closed pool, where no later call closes it.\<close>

lemma Release_Close_race:
  "let s = fst (release_put no_mem_os (7, Reset demo_arena) (ShardedClose no_mem_os (metrics0, demo_pool)))
   in sp_closed (snd s) \<and> map sh_arenas (sp_shards (snd s)) = [[], [(7, demo_arena)], [], []] \<and>
      ShardedClose no_mem_os s = s"
  by code_simp

text \<open>The deferred exit of \<^verbatim>\<open>WithScope\<close> is not guarded: a body that exits its scope, as the one of
  \<^verbatim>\<open>Arena.WithScope\<close> may, makes the call panic.\<close>

lemma ShardedWithScope_exited_panics:
  "let fn = (\<lambda>sc a s. case Exit sc (a, ()) (fst s) of (m, sc', (a', _), _) \<Rightarrow> ((m, snd s), sc', a', Return None))
   in snd (ShardedWithScope (demo_os 131072) no_mem_os 0 fn (metrics0, demo_pool)) =
        (Panic (PanicMsg ''scope already exited'') :: nat option go)"
  by code_simp

end
