(* ===== verification/AutoTune.thy ===== *)
theory AutoTune
  imports Scope_Spec "HOL-Library.Log_Nat"
begin

text \<open>
  The auto-tuner of \<^verbatim>\<open>autotune.go\<close>. The source computes with \<^verbatim>\<open>float64\<close>; all its values are natural
  numbers over a fixed power of two, so a float is here such a numerator, rounded to 53 significant bits, ties to
  even, after every operation (no fused multiply-add, as on amd64). Neither overflow to infinity nor
  subnormal numbers can occur. A conversion to \<^verbatim>\<open>int\<close> truncates and gives the least integer out of
  range, also as on amd64.
\<close>

section \<open>Floating point\<close>

definition rnd53 :: "nat \<Rightarrow> nat" where
  "rnd53 n =
     (if n < 2 ^ 53 then n
      else let s = floorlog 2 n - 53; q = n div 2 ^ s; r = n mod 2 ^ s
           in (if 2 * r < 2 ^ s \<or> (2 * r = 2 ^ s \<and> even q) then q else q + 1) * 2 ^ s)"

definition int_of_float :: "nat \<Rightarrow> int" where
  "int_of_float n = (if n < 2 ^ 63 then int n else - (2 ^ 63))"

text \<open>The floats 0.7 and 0.3 over \<open>2^53\<close> and \<open>2^54\<close>; 1.25 is exact.\<close>

definition f07 :: nat where "f07 = 6305039478318694"
definition f03 :: nat where "f03 = 5404319552844595"

text \<open>\<^verbatim>\<open>int(float64(old)*0.7 + float64(new)*0.3)\<close> and \<^verbatim>\<open>int(float64(est) * headroomFactor)\<close>\<close>

definition ema :: "nat \<Rightarrow> nat \<Rightarrow> int" where
  "ema a b = int_of_float (rnd53 (2 * rnd53 (rnd53 a * f07) + rnd53 (rnd53 b * f03)) div 2 ^ 54)"

definition headroom :: "nat \<Rightarrow> int" where
  "headroom e = int_of_float (rnd53 (rnd53 e * 5) div 4)"

section \<open>State and operations\<close>

definition defaultMinSlab :: int where "defaultMinSlab = 4 * 1024"
definition defaultMaxSlab :: int where "defaultMaxSlab = 64 * 1024 * 1024"

record site_stats =
  st_estimatedBytes :: int
  st_samples :: int

record auto_tuner =
  tu_sites :: "string \<rightharpoonup> site_stats"
  tu_minSlab :: int
  tu_maxSlab :: int

definition NewAutoTuner :: "int \<Rightarrow> int \<Rightarrow> auto_tuner" where
  "NewAutoTuner minSlab maxSlab =
     (let minSlab = (if minSlab \<le> 0 then defaultMinSlab else minSlab);
          maxSlab = (if maxSlab < minSlab then defaultMaxSlab else maxSlab)
      in \<lparr>tu_sites = Map.empty, tu_minSlab = minSlab, tu_maxSlab = maxSlab\<rparr>)"

definition Calibrate :: "string \<Rightarrow> int \<Rightarrow> auto_tuner \<Rightarrow> auto_tuner" where
  "Calibrate key usedBytes t =
     (if usedBytes \<le> 0 then t
      else case tu_sites t key of
             None \<Rightarrow> t\<lparr>tu_sites := (tu_sites t)(key \<mapsto> \<lparr>st_estimatedBytes = usedBytes, st_samples = 1\<rparr>)\<rparr>
           | Some stat \<Rightarrow>
               t\<lparr>tu_sites := (tu_sites t)(key \<mapsto>
                 \<lparr>st_estimatedBytes = ema (nat (st_estimatedBytes stat)) (nat usedBytes),
                  st_samples = go_int (st_samples stat + 1)\<rparr>)\<rparr>)"

definition RecommendedSize :: "string \<Rightarrow> auto_tuner \<Rightarrow> int" where
  "RecommendedSize key t =
     (case tu_sites t key of
        None \<Rightarrow> tu_minSlab t
      | Some stat \<Rightarrow>
          (let target = headroom (nat (st_estimatedBytes stat));
               target = (if target < tu_minSlab t then tu_minSlab t else target);
               target = (if target > tu_maxSlab t then tu_maxSlab t else target)
           in go_int (target + 4095) AND NOT 4095))"

definition hex_digit :: "nat \<Rightarrow> char" where
  "hex_digit d = ''0123456789abcdef'' ! d"

function format_hex :: "nat \<Rightarrow> string" where
  "format_hex n = (if n < 16 then [hex_digit n] else format_hex (n div 16) @ [hex_digit (n mod 16)])"
  by pat_completeness auto
termination by (relation "measure id") auto

declare format_hex.simps [simp del]

text \<open>\<open>pc\<close> is what \<^verbatim>\<open>runtime.Caller\<close> answers.\<close>

definition CallerSiteKey :: "u64 option \<Rightarrow> string" where
  "CallerSiteKey pc = (case pc of None \<Rightarrow> ''unknown_site'' | Some p \<Rightarrow> ''pc:'' @ format_hex (unat p))"

definition NewAutoTunedArena :: "os_env \<Rightarrow> string \<Rightarrow> auto_tuner \<Rightarrow> metrics \<Rightarrow> metrics \<times> arena go" where
  "NewAutoTunedArena os key t m = NewArena os (RecommendedSize key t) [] m"

text \<open>\<^verbatim>\<open>WithAutoTunedScope\<close>: the site is calibrated only when the body returns; the exit and the close are
  deferred, and a panic in the exit takes the place of the result.\<close>

definition WithAutoTunedScope ::
  "os_env \<Rightarrow> u64 option \<Rightarrow> string \<Rightarrow> (unit scope \<Rightarrow> arena \<Rightarrow> metrics \<Rightarrow> metrics \<times> unit scope \<times> arena \<times> 'err option go) \<Rightarrow>
   auto_tuner \<Rightarrow> metrics \<Rightarrow> metrics \<times> auto_tuner \<times> arena option \<times> 'err option go" where
  "WithAutoTunedScope os pc key0 fn t m =
     (let key = (if key0 = '''' then CallerSiteKey pc else key0) in
      case NewArena os (RecommendedSize key t) [] m of
        (m1, Panic p) \<Rightarrow> (m1, t, None, Panic p)
      | (m1, Return a) \<Rightarrow>
          (case EnterScope a m1 of (m2, s) \<Rightarrow>
            (case fn s a m2 of (m3, s1, a1, r) \<Rightarrow>
              (let t1 = (case r of Return _ \<Rightarrow> Calibrate key (ScopeUsedBytes s1) t | Panic _ \<Rightarrow> t) in
               case Exit s1 (a1, ()) m3 of (m4, s2, (a2, _), x) \<Rightarrow>
                 (case Close os a2 m4 of (m5, a3, _) \<Rightarrow>
                   (m5, t1, Some a3, case x of Panic p \<Rightarrow> Panic p | Return _ \<Rightarrow> r))))))"

section \<open>Rounding\<close>

lemma rnd53_small [simp]: "n < 2 ^ 53 \<Longrightarrow> rnd53 n = n"
  by (simp add: rnd53_def)

text \<open>The relative error of a rounding is at most \<open>2^(-53)\<close>.\<close>

lemma rnd53_error:
  "rnd53 n * 2 ^ 53 \<le> n * (2 ^ 53 + 1)" "n * (2 ^ 53 - 1) \<le> rnd53 n * 2 ^ 53"
proof -
  have "rnd53 n * 2 ^ 53 \<le> n * (2 ^ 53 + 1) \<and> n * (2 ^ 53 - 1) \<le> rnd53 n * 2 ^ 53"
  proof (cases "n < 2 ^ 53")
    case True
    then show ?thesis by simp
  next
    case False
    define s where "s = floorlog 2 n - 53"
    define q where "q = n div 2 ^ s"
    define r where "r = n mod 2 ^ s"
    have b: "2 ^ (floorlog 2 n - 1) \<le> n" "n < 2 ^ floorlog 2 n"
      using False floorlog_bounds [of n 2] by auto
    have "(2::nat) ^ 53 < 2 ^ floorlog 2 n" using b(2) False by linarith
    then have f: "53 < floorlog 2 n" by (rule power_less_imp_less_exp [rotated]) simp
    then have s: "floorlog 2 n - 1 = (s - 1) + 53" "0 < s" by (auto simp: s_def)
    obtain s' where s': "s = Suc s'" using s(2) by (cases s) auto
    have lb: "2 ^ s' * 2 ^ 53 \<le> n" using b(1) s(1) by (simp add: s' power_add)
    have n: "n = q * 2 ^ s + r" "r < 2 ^ s" using div_mult_mod_eq [of n "2 ^ s"] by (simp_all add: q_def r_def)
    have e: "rnd53 n = (if 2 * r < 2 ^ s \<or> (2 * r = 2 ^ s \<and> even q) then q else q + 1) * 2 ^ s"
      using False by (simp add: rnd53_def Let_def s_def q_def r_def)
    have p: "(2::nat) ^ s = 2 * 2 ^ s'" by (simp add: s')
    consider (down) "rnd53 n = q * 2 ^ s" "r \<le> 2 ^ s'" | (up) "rnd53 n = q * 2 ^ s + 2 ^ s" "2 ^ s' \<le> r"
      using e p by (auto split: if_splits)
    then have "rnd53 n \<le> n + 2 ^ s' \<and> n \<le> rnd53 n + 2 ^ s'"
      using n p by cases auto
    then have "rnd53 n * 2 ^ 53 \<le> (n + 2 ^ s') * 2 ^ 53 \<and> n * 2 ^ 53 \<le> (rnd53 n + 2 ^ s') * 2 ^ 53"
      using mult_le_mono1 by blast
    with lb show ?thesis by (simp add: algebra_simps)
  qed
  then show "rnd53 n * 2 ^ 53 \<le> n * (2 ^ 53 + 1)" "n * (2 ^ 53 - 1) \<le> rnd53 n * 2 ^ 53" by auto
qed

text \<open>One step of the moving average stays between the two values, but may fall one below.\<close>

lemma ema_bounds:
  assumes "lo \<le> a + 1" "lo \<le> b" "0 < lo" "a \<le> hi" "b \<le> hi" "hi < 2 ^ 49"
  shows "int lo - 1 \<le> ema a b \<and> ema a b \<le> int hi"
proof -
  define X where "X = rnd53 (a * f07)"
  define Y where "Y = rnd53 (b * f03)"
  define Z where "Z = rnd53 (2 * X + Y)"
  have small: "rnd53 a = a" "rnd53 b = b" using assms(4-6) by auto
  have X: "X * 9007199254740992 \<le> a * f07 * 9007199254740993" "a * f07 * 9007199254740991 \<le> X * 9007199254740992"
    using rnd53_error [of "a * f07"] by (simp_all add: X_def)
  have Y: "Y * 9007199254740992 \<le> b * f03 * 9007199254740993" "b * f03 * 9007199254740991 \<le> Y * 9007199254740992"
    using rnd53_error [of "b * f03"] by (simp_all add: Y_def)
  have Z: "Z * 9007199254740992 \<le> X * 18014398509481986 + Y * 9007199254740993" "X * 18014398509481982 + Y * 9007199254740991 \<le> Z * 9007199254740992"
    using rnd53_error [of "2 * X + Y"] by (simp_all add: Z_def algebra_simps)
  have hi: "hi < 562949953421312" using assms(6) by simp
  have "X * 9007199254740992 \<le> hi * 56790746890224679889212080023142"
    using X(1) assms(4) unfolding f07_def by linarith
  moreover have "Y * 9007199254740992 \<le> hi * 48677783048764012620353104982835"
    using Y(1) assms(5) unfolding f03_def by linarith
  ultimately have "X * 18014398509481984 + Y * 9007199254740992 \<le> hi * 162259276829213372398777265029119"
    by linarith
  with Z(1) have "Z * 81129638414606681695789005144064 \<le> hi * 1461501637330903161592600076536328107022947975167"
    by linarith
  with hi have "Z < hi * 18014398509481984 + 18014398509481984" by linarith
  then have "Z < (hi + 1) * 18014398509481984" by simp
  then have up: "Z div 2 ^ 54 \<le> hi" by (simp add: less_mult_imp_div_less less_Suc_eq_le [symmetric])
  obtain l where l: "lo = l + 1" "l \<le> a" "l + 1 \<le> b" "l < 562949953421312"
    using assms(1-3,5) hi by (cases lo) auto
  have "l * 56790746890224667279133123385754 \<le> X * 9007199254740992"
    using X(2) l(2) unfolding f07_def by linarith
  moreover have "l * 48677783048764001811713999293645 + 48677783048764001811713999293645 \<le> Y * 9007199254740992"
    using Y(2) l(3) unfolding f03_def by linarith
  ultimately have "l * 162259276829213336369980246065153 + 48677783048764001811713999293645 \<le> X * 18014398509481984 + Y * 9007199254740992"
    by linarith
  with Z(2) have "l * 1461501637330902512555492759682910569507925786623 + 438450491199270761879611669365539538991427302195 \<le> Z * 81129638414606681695789005144064"
    by linarith
  with l(4) have "l * 18014398509481984 \<le> Z" by linarith
  then have "(lo - 1) * 18014398509481984 \<le> Z" by (simp add: l(1))
  then have "(lo - 1) * 18014398509481984 div 18014398509481984 \<le> Z div 18014398509481984" by (rule div_le_mono)
  then have dn: "lo - 1 \<le> Z div 2 ^ 54" by simp
  have "ema a b = int (Z div 2 ^ 54)"
    using up hi by (simp add: ema_def small X_def [symmetric] Y_def [symmetric] Z_def [symmetric] int_of_float_def)
  with up dn assms(3) show ?thesis by simp
qed

lemma headroom_bounds:
  assumes "e < 2 ^ 49"
  shows "int (e + e div 4) \<le> headroom e \<and> headroom e < 2 ^ 50"
proof -
  have "e * 5 < 2 ^ 53" "e < 2 ^ 53" using assms by simp_all
  then have "headroom e = int_of_float (e * 5 div 4)" by (simp add: headroom_def)
  moreover have "e * 5 div 4 = e + e div 4" by presburger
  moreover have "e div 4 \<le> e" by simp
  then have "e + e div 4 < 2 ^ 50" using assms by simp
  ultimately show ?thesis by (simp add: int_of_float_def)
qed

section \<open>Recommendations\<close>

text \<open>The clamping and the rounding up to a page.\<close>

lemma RecommendedSize_Some:
  assumes "tu_sites t key = Some st" "0 < tu_minSlab t" "0 < tu_maxSlab t" "tu_maxSlab t < 2 ^ 62"
  shows "RecommendedSize key t = (min (tu_maxSlab t) (max (tu_minSlab t) (headroom (nat (st_estimatedBytes st)))) + 4095) div 4096 * 4096"
proof -
  let ?T = "min (tu_maxSlab t) (max (tu_minSlab t) (headroom (nat (st_estimatedBytes st))))"
  have "0 \<le> ?T" "?T < 2 ^ 62" using assms(2-4) by auto
  then have g: "go_int (?T + 4095) = ?T + 4095" by (intro go_int_nonneg) auto
  have "RecommendedSize key t = go_int (?T + 4095) AND NOT 4095"
    using assms(1,2) by (auto simp: RecommendedSize_def Let_def min_def max_def)
  moreover have "x AND NOT 4095 = x div 4096 * 4096" for x :: int
    using int_and_not_mask [of x 12] by simp
  ultimately show ?thesis using g by simp
qed

lemma page_up:
  fixes x :: int
  shows "4096 dvd (x + 4095) div 4096 * 4096 \<and> x \<le> (x + 4095) div 4096 * 4096 \<and> (x + 4095) div 4096 * 4096 < x + 4096"
  using div_mult_mod_eq [of "x + 4095" 4096] pos_mod_sign [of 4096 "x + 4095"] pos_mod_bound [of 4096 "x + 4095"] by auto

definition calibrate_all :: "string \<Rightarrow> int list \<Rightarrow> auto_tuner \<Rightarrow> auto_tuner" where
  "calibrate_all key us t = fold (Calibrate key) us t"

text \<open>The estimate of a site after any calibrations lies between what was observed, one below at the
  least.\<close>

definition site_in :: "string \<Rightarrow> int \<Rightarrow> int \<Rightarrow> auto_tuner \<Rightarrow> bool" where
  "site_in key lo hi t \<longleftrightarrow> (\<exists>st. tu_sites t key = Some st \<and> lo - 1 \<le> st_estimatedBytes st \<and> st_estimatedBytes st \<le> hi)"

lemma Calibrate_site:
  assumes "tu_sites t key = None \<or> site_in key lo hi t" "0 < lo" "lo \<le> u" "u \<le> hi" "hi < 2 ^ 49"
  shows "site_in key lo hi (Calibrate key u t) \<and> tu_minSlab (Calibrate key u t) = tu_minSlab t \<and>
    tu_maxSlab (Calibrate key u t) = tu_maxSlab t"
proof (cases "tu_sites t key")
  case None
  then show ?thesis using assms by (auto simp: Calibrate_def site_in_def)
next
  case (Some st)
  then have e: "lo - 1 \<le> st_estimatedBytes st" "st_estimatedBytes st \<le> hi" using assms(1) by (auto simp: site_in_def)
  have "int (nat lo) - 1 \<le> ema (nat (st_estimatedBytes st)) (nat u) \<and> ema (nat (st_estimatedBytes st)) (nat u) \<le> int (nat hi)"
    using e assms(2-5) by (intro ema_bounds) auto
  then show ?thesis using assms Some by (auto simp: Calibrate_def site_in_def)
qed

lemma calibrate_all_site:
  assumes "\<forall>u \<in> set us. lo \<le> u \<and> u \<le> hi" "0 < lo" "hi < 2 ^ 49" "tu_sites t key = None \<and> us \<noteq> [] \<or> site_in key lo hi t"
  shows "site_in key lo hi (calibrate_all key us t) \<and> tu_minSlab (calibrate_all key us t) = tu_minSlab t \<and>
    tu_maxSlab (calibrate_all key us t) = tu_maxSlab t"
  using assms
proof (induction us arbitrary: t)
  case (Cons u us)
  have "site_in key lo hi (Calibrate key u t) \<and> tu_minSlab (Calibrate key u t) = tu_minSlab t \<and>
    tu_maxSlab (Calibrate key u t) = tu_maxSlab t"
    using Cons.prems by (intro Calibrate_site) auto
  with Cons.IH [of "Calibrate key u t"] Cons.prems show ?case by (auto simp: calibrate_all_def)
qed (auto simp: calibrate_all_def)

text \<open>However often a site was calibrated, with usages between \<open>lo\<close> and \<open>hi\<close>, the recommended
  size is a whole number of pages between the limits (the upper rounded up to a page), and holds the least usage
  seen, up to the upper limit: the moving average in floating point, which truncates, does not drift
  away.\<close>

lemma RecommendedSize_covers:
  assumes "NewAutoTuner mn mx = t" "tu_maxSlab t < 2 ^ 62" "us \<noteq> []" "\<forall>u \<in> set us. lo \<le> u \<and> u \<le> hi" "5 \<le> lo" "hi < 2 ^ 49"
    "RecommendedSize key (calibrate_all key us t) = r"
  shows "4096 dvd r \<and> min (tu_minSlab t) (tu_maxSlab t) \<le> r \<and> r < tu_maxSlab t + 4096 \<and> min lo (tu_maxSlab t) \<le> r"
proof -
  let ?t = "calibrate_all key us t"
  have n: "tu_sites t key = None" "0 < tu_minSlab t" "0 < tu_maxSlab t"
    using assms(1) by (auto simp: NewAutoTuner_def Let_def defaultMinSlab_def defaultMaxSlab_def)
  have "site_in key lo hi ?t \<and> tu_minSlab ?t = tu_minSlab t \<and> tu_maxSlab ?t = tu_maxSlab t"
    using calibrate_all_site [OF assms(4) _ assms(6)] n(1) assms(3,5) by auto
  then obtain st where st: "tu_sites ?t key = Some st" "lo - 1 \<le> st_estimatedBytes st" "st_estimatedBytes st \<le> hi"
    and lim: "tu_minSlab ?t = tu_minSlab t" "tu_maxSlab ?t = tu_maxSlab t"
    by (auto simp: site_in_def)
  let ?e = "nat (st_estimatedBytes st)"
  have "?e < 2 ^ 49" using st(2,3) assms(5,6) by simp
  from headroom_bounds [OF this] have "int ?e + int (?e div 4) \<le> headroom ?e" by simp
  moreover have "1 \<le> ?e div 4" using st(2) assms(5) by (simp add: div_greater_zero_iff Suc_le_eq)
  ultimately have h: "lo \<le> headroom ?e" using st(2) assms(5) by linarith
  define x where "x = min (tu_maxSlab t) (max (tu_minSlab t) (headroom ?e))"
  have r: "r = (x + 4095) div 4096 * 4096"
    using RecommendedSize_Some [OF st(1)] n assms(2,7) lim by (simp add: x_def)
  have x: "min (tu_minSlab t) (tu_maxSlab t) \<le> x" "x \<le> tu_maxSlab t" "min lo (tu_maxSlab t) \<le> x"
    using h unfolding x_def by linarith+
  have "4096 dvd r" "x \<le> r" "r < x + 4096" using page_up [of x] unfolding r by blast+
  with x show ?thesis by linarith
qed

lemma RecommendedSize_covers_witness:
  "min 1000 (tu_maxSlab (NewAutoTuner 512 65536)) \<le> RecommendedSize ''k'' (calibrate_all ''k'' [1000, 5000] (NewAutoTuner 512 65536))"
proof -
  have 1: "tu_maxSlab (NewAutoTuner 512 65536) < 2 ^ 62" by (simp add: NewAutoTuner_def)
  have 2: "[1000, 5000] \<noteq> ([] :: int list)" "\<forall>u \<in> set [1000, 5000]. (1000::int) \<le> u \<and> u \<le> 5000"
    "(5::int) \<le> 1000" "(5000::int) < 2 ^ 49" by simp_all
  show ?thesis using RecommendedSize_covers [OF refl 1 2 refl, of "''k''"] by (elim conjE)
qed

text \<open>The estimate may fall below a usage that never changes, by one.\<close>

lemma rnd53_at:
  assumes "2 ^ (52 + s) \<le> n" "n < 2 ^ (53 + s)" "0 < s"
  shows "rnd53 n = (if 2 * (n mod 2 ^ s) < 2 ^ s \<or> (2 * (n mod 2 ^ s) = 2 ^ s \<and> even (n div 2 ^ s))
    then n div 2 ^ s else n div 2 ^ s + 1) * 2 ^ s"
proof -
  have "floorlog 2 n = 53 + s"
    using floorlog_leI [OF assms(2)] floorlog_ge_SucI [OF assms(1)] by (simp add: eval_nat_numeral le_antisym)
  moreover have "(2::nat) ^ 53 \<le> 2 ^ (52 + s)" using assms(3) by (intro power_increasing) auto
  then have "\<not> n < 2 ^ 53" using assms(1) by linarith
  ultimately show ?thesis by (simp only: rnd53_def Let_def if_False diff_add_inverse)
qed

lemma ema_drifts: "ema 3 3 = 2"
proof -
  have "rnd53 18915118434956082 = 18915118434956080" using rnd53_at [of 2 18915118434956082] by simp
  moreover have "rnd53 16212958658533785 = 16212958658533784" using rnd53_at [of 1 16212958658533785] by simp
  moreover have "rnd53 54043195528445944 = 54043195528445944" using rnd53_at [of 3 54043195528445944] by simp
  ultimately show ?thesis by (simp add: ema_def f07_def f03_def int_of_float_def)
qed

text \<open>With a lower limit above 64 MiB and no upper one, the upper limit ends below the lower.\<close>

lemma NewAutoTuner_limits_cross:
  "tu_maxSlab (NewAutoTuner (128 * 1024 * 1024) 0) < tu_minSlab (NewAutoTuner (128 * 1024 * 1024) 0)"
  by code_simp

end
