(* ===== verification/Search.thy ===== *)
theory Search
  imports Prelude
begin

text \<open>
  Depth-first search as the analyses of \<^verbatim>\<open>internal/analysis\<close> write it: a recursive closure over a shared
  set of visited nodes and the path to the current node, which looks at every node once and stops at the first
  one that gives a verdict. The fuel bounds the depth; as many units as there are nodes are enough.
\<close>

section \<open>The search\<close>

record ('n, 's) search_state =
  se_visited :: "'n list"
  se_path :: "'n list"
  se_data :: 's

text \<open>\<^verbatim>\<open>for _, m := range ns { if dfs(m) { return true } }\<close>\<close>

primrec search_all ::
  "('n \<Rightarrow> ('n, 's) search_state \<Rightarrow> (('n, 's) search_state \<times> 'r option) option) \<Rightarrow> 'n list \<Rightarrow>
   ('n, 's) search_state \<Rightarrow> (('n, 's) search_state \<times> 'r option) option" where
  "search_all f [] st = Some (st, None)"
| "search_all f (n # ns) st =
     (case f n st of
        None \<Rightarrow> None
      | Some (st', Some r) \<Rightarrow> Some (st', Some r)
      | Some (st', None) \<Rightarrow> search_all f ns st')"

text \<open>One node: nothing if it was visited; otherwise it is marked, put on the path and checked; without a verdict
  its successors follow, and it leaves the path.\<close>

primrec dfs ::
  "('n \<Rightarrow> 'n list) \<Rightarrow> ('n \<Rightarrow> 's \<Rightarrow> 's \<times> 'r option) \<Rightarrow> nat \<Rightarrow> 'n \<Rightarrow> ('n, 's) search_state \<Rightarrow>
   (('n, 's) search_state \<times> 'r option) option" where
  "dfs succs check 0 n st = (if n \<in> set (se_visited st) then Some (st, None) else None)"
| "dfs succs check (Suc fuel) n st =
     (if n \<in> set (se_visited st) then Some (st, None)
      else case check n (se_data st) of
             (s, Some r) \<Rightarrow> Some (\<lparr>se_visited = n # se_visited st, se_path = se_path st @ [n], se_data = s\<rparr>, Some r)
           | (s, None) \<Rightarrow>
               (case search_all (dfs succs check fuel) (succs n)
                       \<lparr>se_visited = n # se_visited st, se_path = se_path st @ [n], se_data = s\<rparr> of
                  Some (st', None) \<Rightarrow> Some (st'\<lparr>se_path := butlast (se_path st')\<rparr>, None)
                | x \<Rightarrow> x))"

definition start :: "'s \<Rightarrow> ('n, 's) search_state" where
  "start s = \<lparr>se_visited = [], se_path = [], se_data = s\<rparr>"

section \<open>Reachability\<close>

inductive reach :: "('n \<Rightarrow> 'n list) \<Rightarrow> 'n \<Rightarrow> 'n \<Rightarrow> bool" for succs where
  here: "reach succs n n"
| there: "reach succs n m \<Longrightarrow> k \<in> set (succs m) \<Longrightarrow> reach succs n k"

inductive_cases reachE: "reach succs n m"

lemma reach_closed:
  assumes "reach succs n m" "n \<in> V" "\<And>x y. x \<in> V \<Longrightarrow> y \<in> set (succs x) \<Longrightarrow> y \<in> V"
  shows "m \<in> V"
  using assms by (induction rule: reach.induct) auto

lemma reach_trans: "reach succs m k \<Longrightarrow> reach succs n m \<Longrightarrow> reach succs n k"
  by (induction rule: reach.induct) (auto intro: reach.there)

lemma reach_step: "m \<in> set (succs n) \<Longrightarrow> reach succs m k \<Longrightarrow> reach succs n k"
  using reach_trans [of succs m k n] reach.there [OF reach.here, of m succs n] by blast

text \<open>A path is a list of nodes each of which is a successor of the one before.\<close>

fun path_of :: "('n \<Rightarrow> 'n list) \<Rightarrow> 'n list \<Rightarrow> bool" where
  "path_of succs [] = True"
| "path_of succs [n] = True"
| "path_of succs (n # m # ns) = (m \<in> set (succs n) \<and> path_of succs (m # ns))"

lemma path_of_snoc:
  "path_of succs (ns @ [n]) \<Longrightarrow> m \<in> set (succs n) \<Longrightarrow> path_of succs (ns @ [n, m])"
  by (induction succs ns rule: path_of.induct) auto

lemma path_of_reach: "path_of succs (n # ns) \<Longrightarrow> m \<in> set (n # ns) \<Longrightarrow> reach succs n m"
proof (induction ns arbitrary: n)
  case (Cons k ns)
  then show ?case by (cases "m = n") (auto intro: reach.here reach_step)
qed (auto intro: reach.here)

section \<open>Correctness\<close>

text \<open>The data may change during the search, but what is found does not depend on it, as long as it is sound;
  every check relates the data before and after by a preorder.\<close>

locale searching =
  fixes succs :: "'n \<Rightarrow> 'n list"
    and check :: "'n \<Rightarrow> 's \<Rightarrow> 's \<times> 'r option"
    and verdict :: "'n \<Rightarrow> 'r option"
    and good :: "'n \<Rightarrow> bool"
    and sound :: "'n list \<Rightarrow> 's \<Rightarrow> bool"
  assumes check_law: "good n \<Longrightarrow> sound ns s \<Longrightarrow> snd (check n s) = verdict n \<and> sound (n # ns) (fst (check n s))"
    and good_law: "good n \<Longrightarrow> m \<in> set (succs n) \<Longrightarrow> good m"
begin

text \<open>What a finished part of the search has done, from the nodes it was asked to look at.\<close>

definition searched :: "'n list \<Rightarrow> ('n, 's) search_state \<Rightarrow> ('n, 's) search_state \<Rightarrow> bool" where
  "searched ns st st' \<longleftrightarrow> sound (se_visited st') (se_data st') \<and> se_path st' = se_path st \<and>
     set (se_visited st) \<union> set ns \<subseteq> set (se_visited st') \<and>
     (\<forall>m \<in> set (se_visited st') - set (se_visited st). verdict m = None \<and> set (succs m) \<subseteq> set (se_visited st'))"

definition found :: "'n list \<Rightarrow> ('n, 's) search_state \<Rightarrow> ('n, 's) search_state \<Rightarrow> 'r \<Rightarrow> bool" where
  "found ns st st' r \<longleftrightarrow> sound (se_visited st') (se_data st') \<and>
     (\<exists>xs m. se_path st' = se_path st @ xs @ [m] \<and> verdict m = Some r \<and>
        hd (xs @ [m]) \<in> set ns \<and> path_of succs (xs @ [m]))"

lemma searched_Cons:
  assumes "searched [n] st st1" "searched ns st1 st2"
  shows "searched (n # ns) st st2"
proof -
  have sub: "set (se_visited st1) \<subseteq> set (se_visited st2)" using assms(2) by (simp add: searched_def)
  have "verdict m = None \<and> set (succs m) \<subseteq> set (se_visited st2)"
    if "m \<in> set (se_visited st2)" "m \<notin> set (se_visited st)" for m
  proof (cases "m \<in> set (se_visited st1)")
    case True
    with assms(1) that(2) have "verdict m = None \<and> set (succs m) \<subseteq> set (se_visited st1)" by (simp add: searched_def)
    with sub show ?thesis by blast
  next
    case False
    with assms(2) that(1) show ?thesis by (simp add: searched_def)
  qed
  with assms sub show ?thesis by (simp add: searched_def) blast
qed

lemma found_Cons: "se_path st1 = se_path st \<Longrightarrow> found ns st1 st2 r \<Longrightarrow> found (n # ns) st st2 r"
  unfolding found_def by auto

lemma search_all_ok:
  assumes "\<And>n st st' r. n \<in> set ns \<Longrightarrow> sound (se_visited st) (se_data st) \<Longrightarrow> f n st = Some (st', r) \<Longrightarrow>
      (case r of None \<Rightarrow> searched [n] st st' | Some r \<Rightarrow> found [n] st st' r)"
    "sound (se_visited st) (se_data st)" "search_all f ns st = Some (st', r)"
  shows "case r of None \<Rightarrow> searched ns st st' | Some r \<Rightarrow> found ns st st' r"
  using assms
proof (induction ns arbitrary: st)
  case Nil
  then show ?case by (auto simp: searched_def)
next
  case (Cons n ns)
  obtain st1 r1 where f: "f n st = Some (st1, r1)" using Cons.prems(3) by (auto split: option.splits)
  have step: "case r1 of None \<Rightarrow> searched [n] st st1 | Some r \<Rightarrow> found [n] st st1 r"
    using Cons.prems(1,2) f by auto
  show ?case
  proof (cases r1)
    case (Some x)
    then show ?thesis using step Cons.prems(3) f by (auto simp: found_def)
  next
    case None
    then have s1: "searched [n] st st1" and rest: "search_all f ns st1 = Some (st', r)"
      using step Cons.prems(3) f by auto
    have "sound (se_visited st1) (se_data st1)" and p: "se_path st1 = se_path st" using s1 by (simp_all add: searched_def)
    have "case r of None \<Rightarrow> searched ns st1 st' | Some r \<Rightarrow> found ns st1 st' r"
    proof (rule Cons.IH [OF _ \<open>sound (se_visited st1) (se_data st1)\<close> rest])
      fix m sa sb x assume "m \<in> set ns" "sound (se_visited sa) (se_data sa)" "f m sa = Some (sb, x)"
      then show "case x of None \<Rightarrow> searched [m] sa sb | Some r \<Rightarrow> found [m] sa sb r" by (intro Cons.prems(1)) simp_all
    qed
    then show ?thesis using searched_Cons [OF s1] found_Cons [OF p] by (cases r) auto
  qed
qed

lemma dfs_ok:
  "good n \<Longrightarrow> sound (se_visited st) (se_data st) \<Longrightarrow> dfs succs check fuel n st = Some (st', r) \<Longrightarrow>
   (case r of None \<Rightarrow> searched [n] st st' | Some r \<Rightarrow> found [n] st st' r)"
proof (induction fuel arbitrary: n st st' r)
  case 0
  then show ?case by (auto simp: searched_def split: if_splits)
next
  case (Suc fuel)
  show ?case
  proof (cases "n \<in> set (se_visited st)")
    case True
    then show ?thesis using Suc.prems by (auto simp: searched_def)
  next
    case False
    obtain s v where c: "check n (se_data st) = (s, v)" by force
    have s: "v = verdict n" "sound (n # se_visited st) s" using check_law [OF Suc.prems(1,2)] c by auto
    define st1 where "st1 = \<lparr>se_visited = n # se_visited st, se_path = se_path st @ [n], se_data = s\<rparr>"
    show ?thesis
    proof (cases v)
      case (Some x)
      then have "st' = st1" "r = Some x" using Suc.prems(3) False c by (auto simp: st1_def)
      then show ?thesis using Some s by (auto simp: found_def st1_def intro!: exI [of _ "[]"])
    next
      case None
      obtain st2 r2 where all: "search_all (dfs succs check fuel) (succs n) st1 = Some (st2, r2)"
        using Suc.prems(3) False c None by (auto simp: st1_def split: option.splits)
      have "sound (se_visited st1) (se_data st1)" using s by (simp add: st1_def)
      from search_all_ok [OF Suc.IH [OF good_law [OF Suc.prems(1)]] this all]
      have R: "case r2 of None \<Rightarrow> searched (succs n) st1 st2 | Some r \<Rightarrow> found (succs n) st1 st2 r" .
      show ?thesis
      proof (cases r2)
        case r2: None
        then have st': "st' = st2\<lparr>se_path := butlast (se_path st2)\<rparr>" "r = None"
          using Suc.prems(3) False c None all by (auto simp: st1_def)
        have q: "searched (succs n) st1 st2" using R r2 by simp
        have "verdict n = None" using s(1) None by simp
        with q st' show ?thesis by (auto simp: searched_def st1_def)
      next
        case (Some x)
        then have st': "st' = st2" "r = Some x" using Suc.prems(3) False c None all by (auto simp: st1_def)
        obtain xs m where f: "se_path st2 = se_path st1 @ xs @ [m]" "verdict m = Some x"
          "hd (xs @ [m]) \<in> set (succs n)" "path_of succs (xs @ [m])" "sound (se_visited st2) (se_data st2)"
          using R Some by (auto simp: found_def)
        have "path_of succs ((n # xs) @ [m])" using f(3,4) by (cases xs) auto
        then show ?thesis using f st' by (auto simp: found_def st1_def intro!: exI [of _ "n # xs"])
      qed
    qed
  qed
qed

text \<open>Enough fuel: as many units as there are unvisited nodes.\<close>

lemma search_all_total:
  assumes "\<And>n st. n \<in> set ns \<Longrightarrow> P st \<Longrightarrow> \<exists>st' r. f n st = Some (st', r) \<and> P st'" "P st"
  shows "\<exists>st' r. search_all f ns st = Some (st', r) \<and> P st'"
  using assms
proof (induction ns arbitrary: st)
  case (Cons n ns)
  obtain st1 r1 where f: "f n st = Some (st1, r1)" "P st1" using Cons.prems by fastforce
  show ?case
  proof (cases r1)
    case None
    then show ?thesis using Cons.IH [of st1] Cons.prems(1) f by auto
  qed (use f in auto)
qed auto

lemma dfs_total:
  assumes "finite N" "\<And>x y. x \<in> N \<Longrightarrow> y \<in> set (succs x) \<Longrightarrow> y \<in> N"
  shows "n \<in> N \<Longrightarrow> card (N - set (se_visited st)) \<le> fuel \<Longrightarrow>
    \<exists>st' r. dfs succs check fuel n st = Some (st', r) \<and> set (se_visited st) \<subseteq> set (se_visited st')"
proof (induction fuel arbitrary: n st)
  case 0
  then have "n \<in> set (se_visited st)" using assms(1) by auto
  then show ?case by auto
next
  case (Suc fuel)
  show ?case
  proof (cases "n \<in> set (se_visited st)")
    case False
    obtain s v where c: "check n (se_data st) = (s, v)" by force
    show ?thesis
    proof (cases v)
      case None
      define st1 where "st1 = \<lparr>se_visited = n # se_visited st, se_path = se_path st @ [n], se_data = s\<rparr>"
      define P where "P = (\<lambda>st' :: ('n, 's) search_state. set (se_visited st1) \<subseteq> set (se_visited st'))"
      have step: "\<exists>st'' r. dfs succs check fuel m st' = Some (st'', r) \<and> P st''" if "m \<in> set (succs n)" "P st'" for m st'
      proof -
        have "N - set (se_visited st') \<subseteq> N - insert n (set (se_visited st))" using that(2) by (auto simp: P_def st1_def)
        moreover have "N - insert n (set (se_visited st)) \<subset> N - set (se_visited st)" using Suc.prems(1) False by auto
        ultimately have "card (N - set (se_visited st')) < card (N - set (se_visited st))"
          using assms(1) by (meson finite_Diff psubset_card_mono subset_psubset_trans)
        then have "card (N - set (se_visited st')) \<le> fuel" using Suc.prems(2) by simp
        from Suc.IH [OF assms(2) [OF Suc.prems(1) that(1)] this] that(2) show ?thesis by (auto simp: P_def)
      qed
      have "P st1" by (simp add: P_def)
      from search_all_total [where f = "dfs succs check fuel" and ns = "succs n" and P = P, OF step this] obtain st2 r2 where
        "search_all (dfs succs check fuel) (succs n) st1 = Some (st2, r2)" "P st2" by blast
      then show ?thesis using False c None by (cases r2) (auto simp: P_def st1_def)
    qed (use False c in auto)
  qed auto
qed

text \<open>The whole search: it ends, finds a verdict exactly when a reachable node has one, and then leaves the path
  from the start to that node.\<close>

lemma dfs_correct:
  assumes "finite N" "\<forall>x \<in> N. set (succs x) \<subseteq> N" "n \<in> N" "card N \<le> fuel" "good n" "sound [] s"
  shows "\<exists>st r. dfs succs check fuel n (start s) = Some (st, r) \<and> sound (se_visited st) (se_data st) \<and>
    (case r of
       None \<Rightarrow> (\<forall>m. reach succs n m \<longrightarrow> verdict m = None) \<and> {m. reach succs n m} \<subseteq> set (se_visited st) \<and> se_path st = []
     | Some v \<Rightarrow> (\<exists>xs m. se_path st = xs @ [m] \<and> verdict m = Some v \<and> hd (xs @ [m]) = n \<and> path_of succs (xs @ [m])))"
proof -
  obtain st r where d: "dfs succs check fuel n (start s) = Some (st, r)"
    using dfs_total [where N = N and n = n and st = "start s" and fuel = fuel] assms(1-4) by (fastforce simp: start_def subset_iff)
  have s: "sound (se_visited (start s)) (se_data (start s))" using assms(6) by (simp add: start_def)
  show ?thesis
  proof (cases r)
    case None
    then have q: "searched [n] (start s) st" using dfs_ok [OF assms(5) s d] by simp
    then have V: "n \<in> set (se_visited st)"
      "\<And>m. m \<in> set (se_visited st) \<Longrightarrow> verdict m = None \<and> set (succs m) \<subseteq> set (se_visited st)"
      by (auto simp: searched_def start_def)
    have "m \<in> set (se_visited st)" if "reach succs n m" for m
      by (rule reach_closed [OF that V(1)]) (use V(2) in blast)
    with V(2) q None d show ?thesis by (auto simp: searched_def start_def)
  next
    case (Some v)
    then have "found [n] (start s) st v" using dfs_ok [OF assms(5) s d] by simp
    with Some d show ?thesis by (auto simp: found_def start_def)
  qed
qed

end

end
