(* ===== verification/Ssa.thy ===== *)
theory Ssa
  imports Prelude
begin

text \<open>
  The input of the analyses of \<^verbatim>\<open>internal/analysis\<close>: what they read of a program in the static single
  assignment form of \<^verbatim>\<open>golang.org/x/tools/go/ssa\<close>. That package is not part of the repository; a value of
  these types is what it hands over, with one constructor for every kind of instruction the sources
  distinguish and \<open>IOther\<close> for the rest.

  A value and an instruction are known by an identity, the pointer of the source. A type is known by its
  underlying type; the element types of pointers, slices and channels, through which a type may contain itself,
  are numbers to be looked up in a table.
\<close>

type_synonym vid = nat
type_synonym fid = string

section \<open>Types\<close>

datatype ssa_type =
    BasicType string
  | PointerType nat
  | SliceType nat
  | MapType
  | ChanType
  | InterfaceType
  | SignatureType
  | StructType "ssa_type list"
  | ArrayType nat ssa_type
  | TupleType

text \<open>\<^verbatim>\<open>HasPointers\<close> of \<^verbatim>\<open>lifetime/types.go\<close>\<close>

fun type_HasPointers :: "ssa_type \<Rightarrow> bool" where
  "type_HasPointers (StructType fs) = list_ex type_HasPointers fs"
| "type_HasPointers (ArrayType n t) = type_HasPointers t"
| "type_HasPointers (PointerType e) = True"
| "type_HasPointers SignatureType = True"
| "type_HasPointers MapType = True"
| "type_HasPointers ChanType = True"
| "type_HasPointers (SliceType e) = True"
| "type_HasPointers InterfaceType = True"
| "type_HasPointers (BasicType s) = False"
| "type_HasPointers TupleType = False"

section \<open>Instructions\<close>

text \<open>A call: the function value, the arguments and the function called, when that is known.\<close>

datatype ssa_call = SsaCall (call_value: vid) (call_args: "vid list") (static_callee: "fid option")

datatype opcode =
    IAlloc
  | IMakeSlice "vid list"
  | IMakeMap "vid list"
  | IMakeChan vid
  | IStore (st_addr: vid) (st_val: vid)
  | IField vid
  | IFieldAddr vid
  | IIndexAddr vid vid
  | ISlice vid "vid list"
  | IChangeInterface vid
  | IConvert vid
  | ITypeAssert vid
  | IPhi "vid list"
  | ISelect "(vid \<times> vid list) list"
  | IMakeClosure vid "vid list"
  | IMakeInterface vid
  | ISend vid vid
  | IReturn "vid list"
  | IGo ssa_call
  | IDefer ssa_call
  | ICall ssa_call
  | IUnOp char vid
  | IOther "vid list"

text \<open>\<^verbatim>\<open>Instruction.Operands\<close>, the operands that are present.\<close>

fun operands :: "opcode \<Rightarrow> vid list" where
  "operands IAlloc = []"
| "operands (IMakeSlice vs) = vs"
| "operands (IMakeMap vs) = vs"
| "operands (IMakeChan v) = [v]"
| "operands (IStore a v) = [a, v]"
| "operands (IField x) = [x]"
| "operands (IFieldAddr x) = [x]"
| "operands (IIndexAddr x i) = [x, i]"
| "operands (ISlice x vs) = x # vs"
| "operands (IChangeInterface x) = [x]"
| "operands (IConvert x) = [x]"
| "operands (ITypeAssert x) = [x]"
| "operands (IPhi vs) = vs"
| "operands (ISelect ss) = concat (map (\<lambda>(c, s). c # s) ss)"
| "operands (IMakeClosure f bs) = f # bs"
| "operands (IMakeInterface x) = [x]"
| "operands (ISend c x) = [c, x]"
| "operands (IReturn vs) = vs"
| "operands (IGo c) = call_value c # call_args c"
| "operands (IDefer c) = call_value c # call_args c"
| "operands (ICall c) = call_value c # call_args c"
| "operands (IUnOp tok x) = [x]"
| "operands (IOther vs) = vs"

text \<open>An instruction is a value too when it has a result.\<close>

record instr =
  in_id :: nat
  in_val :: "vid option"
  in_pos :: int
  in_op :: opcode

section \<open>Programs\<close>

datatype value_kind = GlobalValue | BuiltinValue | OtherValue

record ssa_value =
  va_name :: string
  va_kind :: value_kind
  va_type :: ssa_type
  va_typeString :: string
  va_parent :: "fid option"
  va_pos :: int

record ssa_block =
  bl_index :: nat
  bl_instrs :: "instr list"

record ssa_func =
  fn_name :: string
  fn_hasPkg :: bool
  fn_pos :: int
  fn_params :: "vid list"
  fn_results :: nat
  fn_blocks :: "ssa_block list"

text \<open>A function with the functions declared inside it.\<close>

datatype fn_tree = FnTree fid "fn_tree list"

record ssa_program =
  pr_packages :: "fn_tree list list"
  pr_func :: "fid \<Rightarrow> ssa_func"
  pr_value :: "vid \<Rightarrow> ssa_value"
  pr_elem :: "nat \<Rightarrow> ssa_type"

definition fn_instrs :: "ssa_func \<Rightarrow> instr list" where
  "fn_instrs fn = concat (map bl_instrs (fn_blocks fn))"

fun is_alloc :: "opcode \<Rightarrow> bool" where
  "is_alloc IAlloc = True"
| "is_alloc (IMakeSlice vs) = True"
| "is_alloc (IMakeMap vs) = True"
| "is_alloc (IMakeChan v) = True"
| "is_alloc _ = False"

end
