(* ===== verification/Ownership.thy ===== *)
theory Ownership
  imports Ssa
begin

text \<open>
  The ownership tracker of \<^verbatim>\<open>lifetime/ownership.go\<close>: every value points to the root it aliases, roots point
  to themselves, and \<^verbatim>\<open>GetRoot\<close> compresses the path it follows. The recursion may run forever on a cyclic
  map, so its value is an option.
\<close>

section \<open>Operations\<close>

type_synonym aliases = "vid \<rightharpoonup> vid option"

record tracker =
  tr_aliases :: aliases
  tr_owners :: "vid \<rightharpoonup> string"

definition NewOwnershipTracker :: tracker where
  "NewOwnershipTracker = \<lparr>tr_aliases = Map.empty, tr_owners = Map.empty\<rparr>"

definition RegisterAlloc :: "vid \<Rightarrow> string \<Rightarrow> tracker \<Rightarrow> tracker" where
  "RegisterAlloc alloc ownerScope t =
     t\<lparr>tr_aliases := (tr_aliases t)(alloc \<mapsto> Some alloc), tr_owners := (tr_owners t)(alloc \<mapsto> ownerScope)\<rparr>"

partial_function (option) get_root :: "aliases \<Rightarrow> vid option \<Rightarrow> (aliases \<times> vid option) option" where
  "get_root al v =
     (case v of
        None \<Rightarrow> Some (al, None)
      | Some x \<Rightarrow>
          (case al x of
             None \<Rightarrow> Some (al, None)
           | Some root \<Rightarrow>
               if root = Some x then Some (al, root)
               else Option.bind (get_root al root) (\<lambda>(al', resolved). Some (al'(x \<mapsto> resolved), resolved))))"

declare get_root.simps [code]

definition GetRoot :: "vid \<Rightarrow> tracker \<Rightarrow> (tracker \<times> vid option) option" where
  "GetRoot v t = map_option (\<lambda>(al, r). (t\<lparr>tr_aliases := al\<rparr>, r)) (get_root (tr_aliases t) (Some v))"

definition AddAlias :: "vid \<Rightarrow> vid \<Rightarrow> tracker \<Rightarrow> tracker option" where
  "AddAlias v src t =
     map_option (\<lambda>(t1, root). case root of None \<Rightarrow> t1 | Some r \<Rightarrow> t1\<lparr>tr_aliases := (tr_aliases t1)(v \<mapsto> Some r)\<rparr>) (GetRoot src t)"

definition GetOwner :: "vid \<Rightarrow> tracker \<Rightarrow> (tracker \<times> string) option" where
  "GetOwner v t =
     map_option (\<lambda>(t1, root). (t1, case root of None \<Rightarrow> '''' | Some r \<Rightarrow> case_option '''' id (tr_owners t1 r))) (GetRoot v t)"

section \<open>Roots\<close>

text \<open>\<open>rooted al x r\<close>: the path from \<open>x\<close> ends at \<open>r\<close>.\<close>

inductive rooted :: "aliases \<Rightarrow> vid \<Rightarrow> vid \<Rightarrow> bool" for al where
  root: "al r = Some (Some r) \<Longrightarrow> rooted al r r"
| up: "al x = Some (Some w) \<Longrightarrow> w \<noteq> x \<Longrightarrow> rooted al w r \<Longrightarrow> rooted al x r"

inductive_cases rootedE: "rooted al x r"

definition aliases_ok :: "aliases \<Rightarrow> bool" where
  "aliases_ok al \<longleftrightarrow> (\<forall>x \<in> dom al. \<exists>r. rooted al x r)"

lemma rooted_self: "rooted al x r \<Longrightarrow> al r = Some (Some r)"
  by (induction rule: rooted.induct) auto

lemma rooted_dom: "rooted al x r \<Longrightarrow> x \<in> dom al"
  by (auto elim: rootedE)

lemma rooted_unique: "rooted al x r \<Longrightarrow> rooted al x s \<Longrightarrow> r = s"
  by (induction rule: rooted.induct) (auto elim: rootedE)

lemma aliases_ok_cong:
  "aliases_ok al \<Longrightarrow> dom al' = dom al \<Longrightarrow> (\<And>y s. rooted al y s \<Longrightarrow> rooted al' y s) \<Longrightarrow> aliases_ok al'"
  unfolding aliases_ok_def by metis

lemma rooted_redirected:
  assumes "r = v \<or> al r = Some (Some r)"
  shows "rooted (al(v \<mapsto> Some r)) v r"
proof (cases "r = v")
  case False
  with assms have "rooted (al(v \<mapsto> Some r)) r r" by (intro rooted.root) simp
  then show ?thesis using False by (intro rooted.up [of _ v r]) auto
qed (auto intro: rooted.root)

text \<open>Redirecting a value to a root: every path still ends, where it did or at that root.\<close>

lemma rooted_redirect:
  assumes "r = v \<or> al r = Some (Some r)"
  shows "rooted al y s \<Longrightarrow> rooted (al(v \<mapsto> Some r)) y s \<or> rooted (al(v \<mapsto> Some r)) y r"
proof (induction rule: rooted.induct)
  case (root s)
  show ?case
  proof (cases "s = v")
    case False
    with root have "rooted (al(v \<mapsto> Some r)) s s" by (intro rooted.root) simp
    then show ?thesis ..
  qed (use rooted_redirected [where al = al, OF assms] in \<open>simp del: fun_upd_apply\<close>)
next
  case (up y w s)
  show ?case
  proof (cases "y = v")
    case False
    then have "(al(v \<mapsto> Some r)) y = Some (Some w)" using up(1) by simp
    from rooted.up [where al = "al(v \<mapsto> Some r)", OF this up(2)] up.IH show ?thesis by blast
  qed (use rooted_redirected [where al = al, OF assms] in \<open>simp del: fun_upd_apply\<close>)
qed

text \<open>Pointing a value straight at its root changes no root.\<close>

lemma rooted_compress:
  assumes "rooted al x r"
  shows "rooted (al(x \<mapsto> Some r)) y s \<longleftrightarrow> rooted al y s"
proof
  let ?al = "al(x \<mapsto> Some r)"
  have r: "al r = Some (Some r)" using rooted_self [OF assms] .
  have xr: "rooted ?al x r" using rooted_redirected r by blast
  show "rooted ?al y s" if "rooted al y s"
    using that
  proof (induction rule: rooted.induct)
    case (root s)
    then have "rooted al s s" by (rule rooted.root)
    with root show ?case using rooted_unique [OF assms, of s] by (cases "s = x") (auto intro: rooted.root)
  next
    case (up y w s)
    then have ys: "rooted al y s" by (blast intro: rooted.up)
    show ?case
    proof (cases "y = x")
      case True
      then show ?thesis using rooted_unique [OF assms, of s] ys xr by (simp del: fun_upd_apply)
    next
      case False
      then have "?al y = Some (Some w)" using up(1) by simp
      from rooted.up [where al = ?al, OF this up(2) up.IH] show ?thesis .
    qed
  qed
  show "rooted al y s" if "rooted ?al y s"
    using that
  proof (induction rule: rooted.induct)
    case (root s)
    then show ?case using assms by (cases "s = x") (auto intro: rooted.root)
  next
    case (up y w s)
    then show ?case
      using assms rooted_unique [OF rooted.root [where al = al, OF r], of s] by (cases "y = x") (auto intro: rooted.up)
  qed
qed

lemma get_root_rooted:
  "rooted al x r \<Longrightarrow> \<exists>al'. get_root al (Some x) = Some (al', Some r) \<and> dom al' = dom al \<and> (\<forall>y s. rooted al' y s \<longleftrightarrow> rooted al y s)"
proof (induction rule: rooted.induct)
  case (root r)
  then show ?case by (subst get_root.simps) simp
next
  case (up x w r)
  then obtain al' where al': "get_root al (Some w) = Some (al', Some r)" "dom al' = dom al"
    "\<And>y s. rooted al' y s \<longleftrightarrow> rooted al y s" by blast
  have x: "rooted al x r" using up by (blast intro: rooted.up)
  then have "rooted al' x r" using al'(3) by blast
  from rooted_compress [OF this] al'(3) have "\<forall>y s. rooted (al'(x \<mapsto> Some r)) y s \<longleftrightarrow> rooted al y s" by blast
  moreover have "get_root al (Some x) = Some (al'(x \<mapsto> Some r), Some r)"
    using up(1,2) al'(1) by (subst get_root.simps) simp
  moreover have "dom (al'(x \<mapsto> Some r)) = dom al" using al'(2) rooted_dom [OF x] by auto
  ultimately show ?case by blast
qed

lemma get_root_untracked: "x \<notin> dom al \<Longrightarrow> get_root al (Some x) = Some (al, None)"
  by (subst get_root.simps) (simp add: domIff)

definition tracker_ok :: "tracker \<Rightarrow> bool" where
  "tracker_ok t \<longleftrightarrow> aliases_ok (tr_aliases t)"

text \<open>The root of a value as the tracker has it, None when the value is not tracked.\<close>

definition root_is :: "tracker \<Rightarrow> vid \<Rightarrow> vid option \<Rightarrow> bool" where
  "root_is t v r \<longleftrightarrow> (case r of None \<Rightarrow> v \<notin> dom (tr_aliases t) | Some r \<Rightarrow> rooted (tr_aliases t) v r)"

lemma root_is_unique: "root_is t v r \<Longrightarrow> root_is t v s \<Longrightarrow> r = s"
  by (auto simp: root_is_def dest: rooted_unique rooted_dom split: option.splits)

lemma root_is_ex: "tracker_ok t \<Longrightarrow> \<exists>r. root_is t v r"
  by (cases "v \<in> dom (tr_aliases t)")
    (auto simp: tracker_ok_def aliases_ok_def root_is_def intro: exI [of _ None] exI [of _ "Some _"] split: option.splits)

lemma GetRoot_ok:
  assumes "tracker_ok t"
  shows "\<exists>t' r. GetRoot v t = Some (t', r) \<and> root_is t v r \<and> tracker_ok t' \<and> (\<forall>x s. root_is t' x s \<longleftrightarrow> root_is t x s)"
proof (cases "v \<in> dom (tr_aliases t)")
  case True
  then obtain r where r: "rooted (tr_aliases t) v r" using assms by (auto simp: tracker_ok_def aliases_ok_def)
  from get_root_rooted [OF r] obtain al' where
    al': "get_root (tr_aliases t) (Some v) = Some (al', Some r)" "dom al' = dom (tr_aliases t)"
    "\<And>y s. rooted al' y s \<longleftrightarrow> rooted (tr_aliases t) y s" by blast
  let ?t = "t\<lparr>tr_aliases := al'\<rparr>"
  have "GetRoot v t = Some (?t, Some r)" using al'(1) by (simp add: GetRoot_def)
  moreover have "tracker_ok ?t" using assms al' by (auto simp: tracker_ok_def intro: aliases_ok_cong)
  moreover have "root_is ?t x s \<longleftrightarrow> root_is t x s" for x s using al'(2,3) by (simp add: root_is_def split: option.splits)
  moreover have "root_is t v (Some r)" using r by (simp add: root_is_def)
  ultimately show ?thesis by blast
next
  case False
  then have "GetRoot v t = Some (t, None)" by (simp add: GetRoot_def get_root_untracked)
  with assms False show ?thesis by (simp add: root_is_def)
qed

lemma AddAlias_ok:
  assumes "tracker_ok t"
  shows "\<exists>t'. AddAlias v src t = Some t' \<and> tracker_ok t' \<and>
    (\<forall>r. root_is t src r \<longrightarrow>
       (r = None \<longrightarrow> (\<forall>x s. root_is t' x s \<longleftrightarrow> root_is t x s)) \<and>
       (r \<noteq> None \<longrightarrow> root_is t' v r \<and> (\<forall>x s. x \<noteq> v \<longrightarrow> root_is t x s \<longrightarrow> root_is t' x s \<or> root_is t' x r)))"
proof -
  obtain t1 q where g: "GetRoot src t = Some (t1, q)" "root_is t src q" "tracker_ok t1"
    "\<And>x s. root_is t1 x s \<longleftrightarrow> root_is t x s" using GetRoot_ok [OF assms, of src] by blast
  show ?thesis
  proof (cases q)
    case None
    then have "AddAlias v src t = Some t1" using g(1) by (simp add: AddAlias_def)
    with g None root_is_unique [OF g(2)] show ?thesis by blast
  next
    case (Some r)
    let ?al = "(tr_aliases t1)(v \<mapsto> Some r)" and ?t = "t1\<lparr>tr_aliases := (tr_aliases t1)(v \<mapsto> Some r)\<rparr>"
    have a: "AddAlias v src t = Some ?t" using g(1) Some by (simp add: AddAlias_def)
    have "rooted (tr_aliases t1) src r" using g(2) g(4) [of src "Some r"] Some by (simp add: root_is_def)
    then have r: "r = v \<or> tr_aliases t1 r = Some (Some r)" using rooted_self by blast
    have "\<exists>s. rooted ?al x s" if "x \<in> dom ?al" for x
    proof (cases "x = v")
      case False
      with that g(3) obtain s where "rooted (tr_aliases t1) x s" by (auto simp: tracker_ok_def aliases_ok_def)
      from rooted_redirect [where al = "tr_aliases t1", OF r this] show ?thesis by blast
    qed (use rooted_redirected [where al = "tr_aliases t1", OF r] in blast)
    then have "tracker_ok ?t" by (simp add: tracker_ok_def aliases_ok_def)
    moreover have "root_is ?t v (Some r)" using rooted_redirected [where al = "tr_aliases t1", OF r] by (simp add: root_is_def)
    moreover have "root_is ?t x s \<or> root_is ?t x (Some r)" if "x \<noteq> v" "root_is t x s" for x s
      using that(1) g(4) [of x s] that(2) rooted_redirect [where al = "tr_aliases t1", OF r, of x] by (auto simp: root_is_def split: option.splits)
    ultimately show ?thesis using a root_is_unique [OF g(2)] Some by fastforce
  qed
qed

lemma RegisterAlloc_ok:
  assumes "tracker_ok t"
  shows "tracker_ok (RegisterAlloc a own t) \<and> root_is (RegisterAlloc a own t) a (Some a)"
proof -
  let ?al = "(tr_aliases t)(a \<mapsto> Some a)"
  have "\<exists>q. rooted ?al x q" if "x \<in> dom ?al" for x
  proof (cases "x = a")
    case True
    then show ?thesis using rooted_redirected [of a a] by blast
  next
    case False
    with that assms obtain s where "rooted (tr_aliases t) x s" by (auto simp: tracker_ok_def aliases_ok_def)
    from rooted_redirect [of a a, OF _ this] show ?thesis by blast
  qed
  with rooted_redirected [of a a "tr_aliases t"] show ?thesis
    by (simp add: tracker_ok_def aliases_ok_def RegisterAlloc_def root_is_def)
qed

section \<open>Runs of the tracker\<close>

definition root_in :: "tracker \<Rightarrow> vid \<Rightarrow> vid option option" where
  "root_in t v = map_option snd (GetRoot v t)"

lemma root_in_iff: "tracker_ok t \<Longrightarrow> root_in t v = Some r \<longleftrightarrow> root_is t v r"
  using GetRoot_ok [of t v] root_is_unique [of t v] by (auto simp: root_in_def)

lemma root_is_self: "root_is t s (Some s) \<longleftrightarrow> tr_aliases t s = Some (Some s)"
  by (auto simp: root_is_def dest: rooted_self intro: rooted.root)

lemma AddAlias_roots:
  assumes "tracker_ok t" "AddAlias v src t = Some t'" "root_is t' s (Some s)"
  shows "root_is t s (Some s)"
proof -
  obtain t1 q where g: "GetRoot src t = Some (t1, q)" "root_is t src q" "\<And>x s. root_is t1 x s \<longleftrightarrow> root_is t x s"
    using GetRoot_ok [OF assms(1), of src] by blast
  have "root_is t1 s (Some s)"
  proof (cases q)
    case None
    then show ?thesis using g(1) assms(2,3) by (simp add: AddAlias_def)
  next
    case (Some r)
    have "root_is t1 src (Some r)" using g(2,3) Some by simp
    then have "tr_aliases t1 r = Some (Some r)" by (simp add: root_is_def rooted_self)
    then show ?thesis using g(1) Some assms(2,3) by (auto simp: AddAlias_def root_is_self split: if_splits)
  qed
  then show ?thesis using g(3) by simp
qed

datatype own_op = OwnRegister vid string | OwnAlias vid vid | OwnQuery vid

fun own_step :: "own_op \<Rightarrow> tracker \<Rightarrow> tracker option" where
  "own_step (OwnRegister a own) t = Some (RegisterAlloc a own t)"
| "own_step (OwnAlias v src) t = AddAlias v src t"
| "own_step (OwnQuery v) t = map_option fst (GetRoot v t)"

fun own_run :: "own_op list \<Rightarrow> tracker \<Rightarrow> tracker option" where
  "own_run [] t = Some t"
| "own_run (p # ops) t = Option.bind (own_step p t) (own_run ops)"

fun registered :: "own_op list \<Rightarrow> vid set" where
  "registered [] = {}"
| "registered (OwnRegister a own # ops) = insert a (registered ops)"
| "registered (_ # ops) = registered ops"

text \<open>Every root is one of the given allocations.\<close>

definition roots_among :: "vid set \<Rightarrow> tracker \<Rightarrow> bool" where
  "roots_among R t \<longleftrightarrow> (\<forall>s. root_is t s (Some s) \<longrightarrow> s \<in> R)"

lemma roots_among_root: "roots_among R t \<Longrightarrow> root_is t v (Some r) \<Longrightarrow> r \<in> R"
  using rooted_self [of "tr_aliases t" v r] root_is_self [of t r] by (auto simp: roots_among_def root_is_def)

lemma own_step_ok:
  assumes "tracker_ok t" "roots_among R t"
  shows "\<exists>t'. own_step p t = Some t' \<and> tracker_ok t' \<and> roots_among (R \<union> registered [p]) t'"
proof (cases p)
  case (OwnRegister a own)
  then show ?thesis using RegisterAlloc_ok [OF assms(1)] assms(2) by (auto simp: roots_among_def root_is_self RegisterAlloc_def)
next
  case (OwnAlias v src)
  then show ?thesis using AddAlias_ok [OF assms(1), of v src] AddAlias_roots [OF assms(1)] assms(2) by (fastforce simp: roots_among_def)
next
  case (OwnQuery v)
  then show ?thesis using GetRoot_ok [OF assms(1), of v] assms(2) by (auto simp: roots_among_def)
qed

lemma own_run_ok:
  "tracker_ok t \<Longrightarrow> roots_among R t \<Longrightarrow> \<exists>t'. own_run ops t = Some t' \<and> tracker_ok t' \<and> roots_among (R \<union> registered ops) t'"
proof (induction ops arbitrary: t R)
  case (Cons p ops)
  obtain t1 where t1: "own_step p t = Some t1" "tracker_ok t1" "roots_among (R \<union> registered [p]) t1"
    using own_step_ok [OF Cons.prems] by blast
  have "R \<union> registered [p] \<union> registered ops = R \<union> registered (p # ops)" by (cases p) auto
  with Cons.IH [OF t1(2,3)] t1(1) show ?case by simp
qed simp

lemma NewOwnershipTracker_ok: "tracker_ok NewOwnershipTracker \<and> roots_among {} NewOwnershipTracker"
  by (simp add: tracker_ok_def aliases_ok_def roots_among_def root_is_self NewOwnershipTracker_def)

text \<open>Whatever was registered, aliased and asked before, \<^verbatim>\<open>GetRoot\<close> and \<^verbatim>\<open>AddAlias\<close> return: the alias
  map never gets a cycle. A root is a registered allocation and its own root, asking changes no root, and an
  alias has the root of what it aliases.\<close>

lemma Ownership_roots:
  "\<exists>t. own_run ops NewOwnershipTracker = Some t \<and>
     (\<forall>v. \<exists>t' r. GetRoot v t = Some (t', r) \<and> (\<forall>x. root_in t' x = root_in t x) \<and>
        (r = None \<or> (the r \<in> registered ops \<and> root_in t (the r) = Some r))) \<and>
     (\<forall>v src. \<exists>t'. AddAlias v src t = Some t' \<and> (root_in t src = Some None \<or> root_in t' v = root_in t src))"
proof -
  obtain t where t: "own_run ops NewOwnershipTracker = Some t" "tracker_ok t" "roots_among (registered ops) t"
    using own_run_ok [of NewOwnershipTracker "{}" ops] NewOwnershipTracker_ok by auto
  have "\<exists>t' r. GetRoot v t = Some (t', r) \<and> (\<forall>x. root_in t' x = root_in t x) \<and>
        (r = None \<or> (the r \<in> registered ops \<and> root_in t (the r) = Some r))" for v
  proof -
    obtain t' r where g: "GetRoot v t = Some (t', r)" "root_is t v r" "tracker_ok t'" "\<And>x s. root_is t' x s \<longleftrightarrow> root_is t x s"
      using GetRoot_ok [OF t(2), of v] by blast
    have "root_in t' x = root_in t x" for x
      using root_is_ex [OF t(2), of x] g(3,4) t(2) root_in_iff by metis
    moreover have "s \<in> registered ops \<and> root_is t s (Some s)" if "r = Some s" for s
      using that g(2) roots_among_root [OF t(3), of v s] rooted_self [of "tr_aliases t" v s] root_is_self [of t s]
      by (simp add: root_is_def)
    ultimately show ?thesis using g(1) root_in_iff [OF t(2)] by (cases r) auto
  qed
  moreover have "\<exists>t'. AddAlias v src t = Some t' \<and> (root_in t src = Some None \<or> root_in t' v = root_in t src)" for v src
  proof -
    obtain r where r: "root_is t src r" using root_is_ex [OF t(2)] by blast
    with AddAlias_ok [OF t(2), of v src] show ?thesis
      using root_in_iff [OF t(2), of src r] root_in_iff [of _ v r] by (cases r) auto
  qed
  ultimately show ?thesis using t(1) by blast
qed

text \<open>Yet a query is not without effect on later answers: whether a path was compressed before its middle is
  redirected decides where its start belongs.\<close>

lemma query_changes_history:
  "let before = [OwnRegister 1 ''f'', OwnRegister 2 ''f'', OwnRegister 3 ''f'', OwnAlias 4 1, OwnAlias 1 2];
       answer = (\<lambda>ops. Option.bind (own_run ops NewOwnershipTracker) (\<lambda>t. root_in t 4))
   in answer (before @ [OwnAlias 1 3]) = Some (Some 3) \<and> answer (before @ [OwnQuery 4, OwnAlias 1 3]) = Some (Some 2)"
  by code_simp

end
