(* ===== verification/Summary.thy ===== *)
theory Summary
  imports Search Ssa
begin

text \<open>
  Function summaries, \<^verbatim>\<open>internal/analysis/summary\<close>: for every parameter of every function, whether it
  escapes, is returned or is stored, by a search through the uses of the parameter and a fixpoint over the calls.
  The members of packages come in the order they are given; the source takes them from a map, in any order.
\<close>

section \<open>Summaries\<close>

record param_summary =
  ps_Index :: nat
  ps_Name :: string
  ps_Escapes :: bool
  ps_Returned :: bool
  ps_Stored :: bool

record return_summary =
  rs_Index :: nat
  rs_DerivedFromParam :: int
  rs_Escapes :: bool

record function_summary =
  fs_Function :: fid
  fs_HasBody :: bool
  fs_IsExternal :: bool
  fs_Params :: "param_summary list"
  fs_Returns :: "return_summary list"

type_synonym summaries = "fid \<rightharpoonup> function_summary"

fun collectFuncs :: "fn_tree \<Rightarrow> fid list" where
  "collectFuncs (FnTree f anons) = f # concat (map collectFuncs anons)"

definition all_funcs :: "ssa_program \<Rightarrow> fid list" where
  "all_funcs P = concat (map (\<lambda>pkg. concat (map collectFuncs pkg)) (pr_packages P))"

definition basic_summary :: "ssa_program \<Rightarrow> fid \<Rightarrow> function_summary" where
  "basic_summary P f =
     (let fn = pr_func P f; hasBody = (fn_blocks fn \<noteq> []) in
      \<lparr>fs_Function = f, fs_HasBody = hasBody, fs_IsExternal = (\<not> hasBody \<or> \<not> fn_hasPkg fn),
       fs_Params = map (\<lambda>i. \<lparr>ps_Index = i, ps_Name = va_name (pr_value P (fn_params fn ! i)),
           ps_Escapes = False, ps_Returned = False, ps_Stored = False\<rparr>) [0 ..< length (fn_params fn)],
       fs_Returns = map (\<lambda>j. \<lparr>rs_Index = j, rs_DerivedFromParam = - 1, rs_Escapes = False\<rparr>) [0 ..< fn_results fn]\<rparr>)"

section \<open>The flow of a value\<close>

record flow =
  fl_escapes :: bool
  fl_returned :: bool
  fl_stored :: bool

definition no_flow :: flow where
  "no_flow = \<lparr>fl_escapes = False, fl_returned = False, fl_stored = False\<rparr>"

definition or_flow :: "flow \<Rightarrow> flow \<Rightarrow> flow" where
  "or_flow x y = \<lparr>fl_escapes = (fl_escapes x \<or> fl_escapes y), fl_returned = (fl_returned x \<or> fl_returned y),
     fl_stored = (fl_stored x \<or> fl_stored y)\<rparr>"

definition uses_of :: "ssa_program \<Rightarrow> vid \<Rightarrow> instr list" where
  "uses_of P v =
     (case va_parent (pr_value P v) of
        None \<Rightarrow> []
      | Some f \<Rightarrow> filter (\<lambda>i. v \<in> set (operands (in_op i))) (fn_instrs (pr_func P f)))"

text \<open>What a call does to the argument: by the summary of the function called, if that is known.\<close>

definition call_flow :: "summaries \<Rightarrow> vid \<Rightarrow> ssa_call \<Rightarrow> flow" where
  "call_flow sums v c =
     (case static_callee c of
        None \<Rightarrow> no_flow\<lparr>fl_escapes := True\<rparr>
      | Some g \<Rightarrow>
          (case sums g of
             None \<Rightarrow> no_flow\<lparr>fl_escapes := True\<rparr>
           | Some cs \<Rightarrow>
               foldr (\<lambda>(arg, ps) fl. if arg = v
                   then or_flow \<lparr>fl_escapes = ps_Escapes ps, fl_returned = False, fl_stored = ps_Stored ps\<rparr> fl else fl)
                 (zip (call_args c) (fs_Params cs)) no_flow))"

definition use_flow :: "summaries \<Rightarrow> vid \<Rightarrow> instr \<Rightarrow> flow" where
  "use_flow sums v i =
     (case in_op i of
        IReturn vs \<Rightarrow> \<lparr>fl_escapes = True, fl_returned = True, fl_stored = False\<rparr>
      | IStore a x \<Rightarrow> if x = v then \<lparr>fl_escapes = True, fl_returned = False, fl_stored = True\<rparr> else no_flow
      | ISend c x \<Rightarrow> if x = v then no_flow\<lparr>fl_escapes := True\<rparr> else no_flow
      | IGo c \<Rightarrow> no_flow\<lparr>fl_escapes := True\<rparr>
      | ICall c \<Rightarrow> call_flow sums v c
      | _ \<Rightarrow> no_flow)"

text \<open>The values the search goes on with: addresses of fields and of elements.\<close>

definition use_derived :: "instr \<Rightarrow> vid list" where
  "use_derived i =
     (case in_op i of
        IFieldAddr x \<Rightarrow> case_option [] (\<lambda>v. [v]) (in_val i)
      | IIndexAddr x j \<Rightarrow> case_option [] (\<lambda>v. [v]) (in_val i)
      | _ \<Rightarrow> [])"

definition flow_succs :: "ssa_program \<Rightarrow> vid \<Rightarrow> vid list" where
  "flow_succs P v = concat (map use_derived (uses_of P v))"

definition flow_direct :: "ssa_program \<Rightarrow> summaries \<Rightarrow> vid \<Rightarrow> flow" where
  "flow_direct P sums v =
     (if va_parent (pr_value P v) = None then \<lparr>fl_escapes = True, fl_returned = False, fl_stored = True\<rparr>
      else foldr (\<lambda>i. or_flow (use_flow sums v i)) (uses_of P v) no_flow)"

text \<open>\<^verbatim>\<open>analyzeValueFlow\<close> adds up what every value it reaches contributes; each is visited once.\<close>

definition flow_check :: "ssa_program \<Rightarrow> summaries \<Rightarrow> vid \<Rightarrow> flow \<Rightarrow> flow \<times> unit option" where
  "flow_check P sums v fl = (or_flow fl (flow_direct P sums v), None)"

definition flow_fuel :: "ssa_program \<Rightarrow> vid \<Rightarrow> nat" where
  "flow_fuel P v = (case va_parent (pr_value P v) of None \<Rightarrow> 1 | Some f \<Rightarrow> Suc (length (fn_instrs (pr_func P f))))"

definition analyzeValueFlow :: "ssa_program \<Rightarrow> summaries \<Rightarrow> vid \<Rightarrow> flow option" where
  "analyzeValueFlow P sums v =
     map_option (\<lambda>(st, _). se_data st) (dfs (flow_succs P) (flow_check P sums) (flow_fuel P v) v (start no_flow))"

section \<open>The fixpoint\<close>

text \<open>The parameters in the order of the loops, with their function and index.\<close>

definition all_params :: "ssa_program \<Rightarrow> fid list \<Rightarrow> (fid \<times> nat \<times> vid) list" where
  "all_params P fs = concat (map (\<lambda>f. map (\<lambda>(i, p). (f, i, p)) (enumerate 0 (fn_params (pr_func P f)))) fs)"

definition update_param :: "flow \<Rightarrow> param_summary \<Rightarrow> param_summary" where
  "update_param fl ps = ps\<lparr>ps_Escapes := (ps_Escapes ps \<or> fl_escapes fl), ps_Returned := (ps_Returned ps \<or> fl_returned fl),
     ps_Stored := (ps_Stored ps \<or> fl_stored fl)\<rparr>"

definition pass_param :: "ssa_program \<Rightarrow> fid \<times> nat \<times> vid \<Rightarrow> summaries \<times> bool \<Rightarrow> (summaries \<times> bool) option" where
  "pass_param P fip st =
     (case fip of (f, i, p) \<Rightarrow> case st of (sums, changed) \<Rightarrow>
      (case sums f of
         None \<Rightarrow> Some (sums, changed)
       | Some s \<Rightarrow>
           if \<not> fs_HasBody s then Some (sums, changed)
           else map_option (\<lambda>fl.
             let ps = fs_Params s ! i; ps' = update_param fl ps
             in (sums(f \<mapsto> s\<lparr>fs_Params := (fs_Params s)[i := ps']\<rparr>), changed \<or> ps' \<noteq> ps)) (analyzeValueFlow P sums p)))"

fun fold_option :: "('a \<Rightarrow> 's \<Rightarrow> 's option) \<Rightarrow> 'a list \<Rightarrow> 's \<Rightarrow> 's option" where
  "fold_option f [] s = Some s"
| "fold_option f (x # xs) s = Option.bind (f x s) (fold_option f xs)"

definition summary_pass :: "ssa_program \<Rightarrow> fid list \<Rightarrow> summaries \<Rightarrow> (summaries \<times> bool) option" where
  "summary_pass P fs sums = fold_option (pass_param P) (all_params P fs) (sums, False)"

partial_function (option) summary_loop :: "ssa_program \<Rightarrow> fid list \<Rightarrow> summaries \<Rightarrow> summaries option" where
  "summary_loop P fs sums =
     Option.bind (summary_pass P fs sums) (\<lambda>(sums', changed). if changed then summary_loop P fs sums' else Some sums')"

declare summary_loop.simps [code]

definition initial_summaries :: "ssa_program \<Rightarrow> summaries" where
  "initial_summaries P = fold (\<lambda>f sums. sums(f \<mapsto> basic_summary P f)) (all_funcs P) Map.empty"

definition AnalyzeSummaries :: "ssa_program \<Rightarrow> summaries option" where
  "AnalyzeSummaries P = summary_loop P (all_funcs P) (initial_summaries P)"

section \<open>The flow is what is reachable\<close>

text \<open>What the analysis relies on: the parameters of a function and the values its instructions define belong to
  that function.\<close>

definition program_ok :: "ssa_program \<Rightarrow> bool" where
  "program_ok P \<longleftrightarrow>
     (\<forall>f v. va_parent (pr_value P v) = Some f \<longrightarrow>
        (\<forall>i \<in> set (fn_instrs (pr_func P f)). \<forall>w. in_val i = Some w \<longrightarrow> va_parent (pr_value P w) = Some f))"

lemma or_flow_simps [simp]:
  "fl_escapes (or_flow x y) = (fl_escapes x \<or> fl_escapes y)"
  "fl_returned (or_flow x y) = (fl_returned x \<or> fl_returned y)"
  "fl_stored (or_flow x y) = (fl_stored x \<or> fl_stored y)"
  "\<not> fl_escapes no_flow" "\<not> fl_returned no_flow" "\<not> fl_stored no_flow"
  by (simp_all add: or_flow_def no_flow_def)

text \<open>The three flags, read by a selector.\<close>

definition flow_sel :: "(flow \<Rightarrow> bool) \<Rightarrow> bool" where
  "flow_sel s \<longleftrightarrow> s \<in> {fl_escapes, fl_returned, fl_stored}"

lemma flow_sel_or: "flow_sel s \<Longrightarrow> s (or_flow x y) \<longleftrightarrow> s x \<or> s y"
  by (auto simp: flow_sel_def)

lemma flow_sel_no: "flow_sel s \<Longrightarrow> \<not> s no_flow"
  by (auto simp: flow_sel_def)

lemma flow_eqI: "(\<And>s. flow_sel s \<Longrightarrow> s x = s y) \<Longrightarrow> x = (y::flow)"
  by (rule flow.equality) (auto simp: flow_sel_def)

definition reaches_flow :: "ssa_program \<Rightarrow> summaries \<Rightarrow> (flow \<Rightarrow> bool) \<Rightarrow> vid \<Rightarrow> bool" where
  "reaches_flow P sums s v \<longleftrightarrow> (\<exists>m. reach (flow_succs P) v m \<and> s (flow_direct P sums m))"

text \<open>The data of the search for the flow of \<open>v\<close>: what the visited values contribute, all of them reachable.\<close>

definition flow_data :: "ssa_program \<Rightarrow> summaries \<Rightarrow> vid \<Rightarrow> vid list \<Rightarrow> flow \<Rightarrow> bool" where
  "flow_data P sums v ns fl \<longleftrightarrow> (\<forall>m \<in> set ns. reach (flow_succs P) v m) \<and>
     (\<forall>s. flow_sel s \<longrightarrow> s fl = (\<exists>m \<in> set ns. s (flow_direct P sums m)))"

interpretation value_flow: searching "flow_succs P" "flow_check P sums" "\<lambda>_. None" "reach (flow_succs P) v" "flow_data P sums v"
  for P sums v
proof unfold_locales
  fix n ns fl assume "reach (flow_succs P) v n" "flow_data P sums v ns fl"
  then show "snd (flow_check P sums n fl) = None \<and> flow_data P sums v (n # ns) (fst (flow_check P sums n fl))"
    by (auto simp: flow_check_def flow_data_def flow_sel_or)
qed (auto intro: reach.there)

lemma use_derived_val: "w \<in> set (use_derived i) \<Longrightarrow> in_val i = Some w"
  by (auto simp: use_derived_def split: opcode.splits option.splits)

lemma length_use_derived: "length (use_derived i) \<le> 1"
  by (auto simp: use_derived_def split: opcode.split option.split)

lemma length_concat_le: "(\<And>x. length (f x) \<le> 1) \<Longrightarrow> length (concat (map f xs)) \<le> length xs"
proof (induction xs)
  case (Cons x xs)
  from Cons.prems [of x] Cons.IH [OF Cons.prems] show ?case by simp
qed simp

lemma flow_nodes:
  assumes "program_ok P"
  shows "\<exists>N. finite N \<and> v \<in> N \<and> card N \<le> flow_fuel P v \<and> (\<forall>x \<in> N. set (flow_succs P x) \<subseteq> N)"
proof (cases "va_parent (pr_value P v)")
  case None
  then show ?thesis by (intro exI [of _ "{v}"]) (simp add: flow_fuel_def flow_succs_def uses_of_def)
next
  case (Some f)
  let ?is = "fn_instrs (pr_func P f)"
  let ?D = "set (concat (map use_derived ?is))"
  have "card ?D \<le> length (concat (map use_derived ?is))" by (rule card_length)
  also have "\<dots> \<le> length ?is" using length_use_derived by (rule length_concat_le)
  finally have c: "card ?D \<le> length ?is" .
  have own: "va_parent (pr_value P w) = Some f" if "w \<in> insert v ?D" for w
  proof (cases "w = v")
    case False
    with that have "w \<in> ?D" by simp
    then obtain i where i: "i \<in> set ?is" "w \<in> set (use_derived i)" unfolding set_concat set_map by blast
    then have "in_val i = Some w" by (intro use_derived_val)
    with i(1) assms Some show ?thesis unfolding program_ok_def by blast
  qed (use Some in simp)
  have "set (flow_succs P x) \<subseteq> insert v ?D" if "x \<in> insert v ?D" for x
    using own [OF that] by (auto simp: flow_succs_def uses_of_def)
  moreover have "card (insert v ?D) \<le> flow_fuel P v"
    using c card_insert_le_m1 [of "flow_fuel P v" ?D v] Some by (simp add: flow_fuel_def card_insert_if)
  ultimately show ?thesis by (intro exI [of _ "insert v ?D"]) simp
qed

lemma analyzeValueFlow_reaches:
  assumes "program_ok P"
  shows "\<exists>fl. analyzeValueFlow P sums v = Some fl \<and> (\<forall>s. flow_sel s \<longrightarrow> s fl = reaches_flow P sums s v)"
proof -
  obtain N where N: "finite N" "v \<in> N" "card N \<le> flow_fuel P v" "\<forall>x \<in> N. set (flow_succs P x) \<subseteq> N"
    using flow_nodes [OF assms, of v] by blast
  have "flow_data P sums v [] no_flow" by (simp add: flow_data_def flow_sel_no)
  from value_flow.dfs_correct [OF N(1,4,2,3) reach.here this] obtain st r where
    d: "dfs (flow_succs P) (flow_check P sums) (flow_fuel P v) v (start no_flow) = Some (st, r)"
    and q: "flow_data P sums v (se_visited st) (se_data st)"
    and c: "case r of None \<Rightarrow> (\<forall>m. reach (flow_succs P) v m \<longrightarrow> None = (None :: unit option)) \<and>
        {m. reach (flow_succs P) v m} \<subseteq> set (se_visited st) \<and> se_path st = []
      | Some u \<Rightarrow> \<exists>xs m. se_path st = xs @ [m] \<and> None = Some u \<and> hd (xs @ [m]) = v \<and> path_of (flow_succs P) (xs @ [m])"
    by blast
  then have r: "{m. reach (flow_succs P) v m} \<subseteq> set (se_visited st)" by (cases r) auto
  have V: "set (se_visited st) = {m. reach (flow_succs P) v m}" using q r by (auto simp: flow_data_def)
  have "s (se_data st) = reaches_flow P sums s v" if "flow_sel s" for s
  proof -
    have "s (se_data st) = (\<exists>m \<in> set (se_visited st). s (flow_direct P sums m))" using q that by (simp add: flow_data_def)
    then show ?thesis unfolding V reaches_flow_def by blast
  qed
  with d show ?thesis by (simp add: analyzeValueFlow_def)
qed

section \<open>The order of summaries\<close>

definition ps_le :: "param_summary \<Rightarrow> param_summary \<Rightarrow> bool" where
  "ps_le p q \<longleftrightarrow> (\<exists>fl. q = update_param fl p)"

definition fs_le :: "function_summary \<Rightarrow> function_summary \<Rightarrow> bool" where
  "fs_le s t \<longleftrightarrow> (\<exists>qs. t = s\<lparr>fs_Params := qs\<rparr> \<and> list_all2 ps_le (fs_Params s) qs)"

definition sum_le :: "summaries \<Rightarrow> summaries \<Rightarrow> bool" where
  "sum_le a b \<longleftrightarrow> (\<forall>f. rel_option fs_le (a f) (b f))"

lemma update_param_simps [simp]:
  "ps_Escapes (update_param fl p) = (ps_Escapes p \<or> fl_escapes fl)"
  "ps_Returned (update_param fl p) = (ps_Returned p \<or> fl_returned fl)"
  "ps_Stored (update_param fl p) = (ps_Stored p \<or> fl_stored fl)"
  "ps_Index (update_param fl p) = ps_Index p" "ps_Name (update_param fl p) = ps_Name p"
  by (simp_all add: update_param_def)

lemma param_eq_iff:
  "p = q \<longleftrightarrow> ps_Index p = ps_Index q \<and> ps_Name p = ps_Name q \<and> ps_Escapes p = ps_Escapes q \<and>
     ps_Returned p = ps_Returned q \<and> ps_Stored p = ps_Stored (q :: param_summary)"
  by (cases p; cases q) simp

lemma ps_le_iff:
  "ps_le p q \<longleftrightarrow> ps_Index p = ps_Index q \<and> ps_Name p = ps_Name q \<and> (ps_Escapes p \<longrightarrow> ps_Escapes q) \<and>
     (ps_Returned p \<longrightarrow> ps_Returned q) \<and> (ps_Stored p \<longrightarrow> ps_Stored q)"
proof
  assume r: "ps_Index p = ps_Index q \<and> ps_Name p = ps_Name q \<and> (ps_Escapes p \<longrightarrow> ps_Escapes q) \<and>
     (ps_Returned p \<longrightarrow> ps_Returned q) \<and> (ps_Stored p \<longrightarrow> ps_Stored q)"
  have "q = update_param \<lparr>fl_escapes = ps_Escapes q, fl_returned = ps_Returned q, fl_stored = ps_Stored q\<rparr> p"
    using r by (auto simp: param_eq_iff [of q])
  then show "ps_le p q" unfolding ps_le_def by blast
qed (auto simp: ps_le_def)

lemma ps_le_refl [simp]: "ps_le p p" and ps_le_trans: "ps_le p q \<Longrightarrow> ps_le q r \<Longrightarrow> ps_le p r"
  and ps_le_antisym: "ps_le p q \<Longrightarrow> ps_le q p \<Longrightarrow> p = q"
  by (auto simp: ps_le_iff param_eq_iff)

lemma fs_le_iff:
  "fs_le s t \<longleftrightarrow> fs_Function t = fs_Function s \<and> fs_HasBody t = fs_HasBody s \<and> fs_IsExternal t = fs_IsExternal s \<and>
     fs_Returns t = fs_Returns s \<and> list_all2 ps_le (fs_Params s) (fs_Params t)"
  by (cases s; cases t) (auto simp: fs_le_def)

lemma fs_le_refl [simp]: "fs_le s s"
  by (simp add: fs_le_iff list_all2_refl)

lemma fs_le_trans: "fs_le s t \<Longrightarrow> fs_le t u \<Longrightarrow> fs_le s u"
  using list_all2_trans [of ps_le ps_le ps_le] ps_le_trans by (fastforce simp: fs_le_iff)

lemma fs_le_antisym: "fs_le s t \<Longrightarrow> fs_le t s \<Longrightarrow> s = t"
  using list_all2_antisym [of ps_le ps_le "fs_Params s" "fs_Params t"] ps_le_antisym
  by (cases s; cases t) (auto simp: fs_le_iff)

lemma sum_le_refl [simp]: "sum_le a a"
  by (simp add: sum_le_def option.rel_refl)

lemma sum_le_trans: "sum_le a b \<Longrightarrow> sum_le b c \<Longrightarrow> sum_le a c"
  unfolding sum_le_def by (metis (no_types, lifting) fs_le_trans option.rel_cases option.rel_inject(2) option.rel_sel option.rel_distinct)

lemma sum_le_antisym: "sum_le a b \<Longrightarrow> sum_le b a \<Longrightarrow> a = b"
proof
  fix f assume "sum_le a b" "sum_le b a"
  then have "rel_option fs_le (a f) (b f)" "rel_option fs_le (b f) (a f)" by (auto simp: sum_le_def)
  then show "a f = b f" by (cases "a f"; cases "b f") (auto intro: fs_le_antisym)
qed

lemma sum_le_Some: "sum_le a b \<Longrightarrow> a f = Some s \<Longrightarrow> \<exists>t. b f = Some t \<and> fs_le s t"
  unfolding sum_le_def by (metis option_rel_Some1)

section \<open>Monotonicity\<close>

lemma call_flow_mono:
  assumes "flow_sel s" "list_all2 ps_le ps qs"
  shows "s (foldr (\<lambda>(arg, ps) fl. if arg = v then or_flow \<lparr>fl_escapes = ps_Escapes ps, fl_returned = False, fl_stored = ps_Stored ps\<rparr> fl else fl) (zip as ps) no_flow) \<Longrightarrow>
    s (foldr (\<lambda>(arg, ps) fl. if arg = v then or_flow \<lparr>fl_escapes = ps_Escapes ps, fl_returned = False, fl_stored = ps_Stored ps\<rparr> fl else fl) (zip as qs) no_flow)"
  using assms(2)
proof (induction ps qs arbitrary: as rule: list_all2_induct)
  case (Cons p ps q qs)
  then show ?case
    using assms(1) by (cases as) (auto simp: flow_sel_or [OF assms(1)] ps_le_iff flow_sel_def split: if_splits)
qed simp

lemma use_flow_mono:
  assumes "flow_sel s" "sum_le a b" "s (use_flow a v i)"
  shows "s (use_flow b v i)"
proof (cases "\<exists>c. in_op i = ICall c")
  case True
  then obtain c where c: "in_op i = ICall c" by blast
  show ?thesis
  proof (cases "static_callee c")
    case None
    then show ?thesis using assms(3) c by (simp add: use_flow_def call_flow_def)
  next
    case (Some g)
    show ?thesis
    proof (cases "a g")
      case None
      then have "b g = None" using assms(2) by (metis option.rel_distinct(1) option.exhaust sum_le_def)
      with None Some c assms(3) show ?thesis by (simp add: use_flow_def call_flow_def)
    next
      case s: (Some x)
      then obtain y where y: "b g = Some y" "fs_le x y" using sum_le_Some assms(2) by blast
      then have "list_all2 ps_le (fs_Params x) (fs_Params y)" by (simp add: fs_le_iff)
      from call_flow_mono [OF assms(1) this] y s Some c assms(3) show ?thesis by (simp add: use_flow_def call_flow_def)
    qed
  qed
next
  case False
  then show ?thesis using assms(3) by (auto simp: use_flow_def split: opcode.splits)
qed

lemma flow_direct_mono:
  assumes "flow_sel s" "sum_le a b" "s (flow_direct P a v)"
  shows "s (flow_direct P b v)"
proof -
  have "s (foldr (\<lambda>i. or_flow (use_flow b v i)) us no_flow)" if "s (foldr (\<lambda>i. or_flow (use_flow a v i)) us no_flow)" for us
    using that use_flow_mono [OF assms(1,2)] by (induction us) (auto simp: flow_sel_or [OF assms(1)] flow_sel_no [OF assms(1)])
  with assms(3) show ?thesis by (cases "va_parent (pr_value P v)") (simp_all add: flow_direct_def)
qed

lemma analyzeValueFlow_mono:
  assumes "program_ok P" "sum_le a b" "analyzeValueFlow P a v = Some x" "analyzeValueFlow P b v = Some y" "flow_sel s" "s x"
  shows "s y"
proof -
  have x: "s x = reaches_flow P a s v" and y: "s y = reaches_flow P b s v"
    using analyzeValueFlow_reaches [OF assms(1), of a v] analyzeValueFlow_reaches [OF assms(1), of b v] assms(3-5) by auto
  from assms(6) obtain m where "reach (flow_succs P) v m" "s (flow_direct P a m)" unfolding x reaches_flow_def by blast
  with flow_direct_mono [OF assms(5,2)] show ?thesis unfolding y reaches_flow_def by blast
qed

section \<open>The least solution\<close>

text \<open>A summary map is stable when no parameter of a function with a body would change.\<close>

definition param_stable :: "ssa_program \<Rightarrow> summaries \<Rightarrow> fid \<times> nat \<times> vid \<Rightarrow> bool" where
  "param_stable P sums fip \<longleftrightarrow> (case fip of (f, i, p) \<Rightarrow> \<forall>s fl.
     sums f = Some s \<longrightarrow> fs_HasBody s \<longrightarrow> analyzeValueFlow P sums p = Some fl \<longrightarrow> update_param fl (fs_Params s ! i) = fs_Params s ! i)"

definition stable :: "ssa_program \<Rightarrow> fid list \<Rightarrow> summaries \<Rightarrow> bool" where
  "stable P fs sums \<longleftrightarrow> (\<forall>fip \<in> set (all_params P fs). param_stable P sums fip)"

definition covers :: "ssa_program \<Rightarrow> fid list \<Rightarrow> summaries \<Rightarrow> bool" where
  "covers P fs sums \<longleftrightarrow> (\<forall>f \<in> set fs. \<exists>s. sums f = Some s \<and> length (fs_Params s) = length (fn_params (pr_func P f)))"

lemma all_params_index:
  "(f, i, p) \<in> set (all_params P fs) \<Longrightarrow> f \<in> set fs \<and> i < length (fn_params (pr_func P f))"
  by (auto simp: all_params_def in_set_enumerate_eq)

lemma covers_le: "covers P fs a \<Longrightarrow> sum_le a b \<Longrightarrow> covers P fs b"
  unfolding covers_def using sum_le_Some by (fastforce simp: fs_le_iff dest: list_all2_lengthD)

lemma sum_le_update:
  assumes "a f = Some s" "i < length (fs_Params s)" "ps_le (fs_Params s ! i) q" "sum_le a b"
    "\<And>t. b f = Some t \<Longrightarrow> ps_le q (fs_Params t ! i)"
  shows "sum_le (a(f \<mapsto> s\<lparr>fs_Params := (fs_Params s)[i := q]\<rparr>)) b"
proof -
  obtain t where t: "b f = Some t" "fs_le s t" using sum_le_Some [OF assms(4,1)] by blast
  then have "list_all2 ps_le ((fs_Params s)[i := q]) (fs_Params t)"
    using assms(5) [OF t(1)] list_all2_update_cong [of ps_le "fs_Params s" "fs_Params t" q "fs_Params t ! i" i]
    by (simp add: fs_le_iff)
  with t have "fs_le (s\<lparr>fs_Params := (fs_Params s)[i := q]\<rparr>) t" by (simp add: fs_le_iff)
  with assms(4) t(1) show ?thesis by (simp add: sum_le_def)
qed

lemma sum_le_updated:
  assumes "a f = Some s" "ps_le (fs_Params s ! i) q"
  shows "sum_le a (a(f \<mapsto> s\<lparr>fs_Params := (fs_Params s)[i := q]\<rparr>))"
proof -
  have "list_all2 ps_le (fs_Params s) ((fs_Params s)[i := q])"
    using assms(2) list_all2_update_cong [of ps_le "fs_Params s" "fs_Params s" "fs_Params s ! i" q i]
    by (simp add: list_all2_refl)
  then have "fs_le s (s\<lparr>fs_Params := (fs_Params s)[i := q]\<rparr>)" by (simp add: fs_le_iff)
  with assms(1) show ?thesis by (auto simp: sum_le_def option.rel_refl)
qed

text \<open>One parameter: the map grows, not beyond any stable map above it, and the flag tells whether it did.\<close>

lemma pass_param_ok:
  assumes "program_ok P" "covers P fs a" "fip \<in> set (all_params P fs)"
  shows "\<exists>a' ch'. pass_param P fip (a, ch) = Some (a', ch') \<and> sum_le a a' \<and> (ch' \<longleftrightarrow> ch \<or> a' \<noteq> a) \<and>
    (\<forall>b. sum_le a b \<longrightarrow> stable P fs b \<longrightarrow> sum_le a' b) \<and>
    (a' = a \<longrightarrow> param_stable P a fip)"
proof -
  obtain f i p where fip: "fip = (f, i, p)" by (cases fip)
  obtain s where s: "a f = Some s" "i < length (fs_Params s)"
    using assms(2) all_params_index assms(3) by (force simp: fip covers_def)
  show ?thesis
  proof (cases "fs_HasBody s")
    case False
    then show ?thesis using s by (auto simp: fip pass_param_def param_stable_def)
  next
    case True
    obtain fl where fl: "analyzeValueFlow P a p = Some fl" using analyzeValueFlow_reaches [OF assms(1)] by blast
    let ?q = "update_param fl (fs_Params s ! i)"
    let ?a = "a(f \<mapsto> s\<lparr>fs_Params := (fs_Params s)[i := ?q]\<rparr>)"
    have le: "ps_le (fs_Params s ! i) ?q" by (auto simp: ps_le_def)
    have same: "?a = a \<longleftrightarrow> ?q = fs_Params s ! i"
    proof
      assume "?a = a"
      then have "?a f = a f" by simp
      then have "fs_Params (s\<lparr>fs_Params := (fs_Params s)[i := ?q]\<rparr>) ! i = fs_Params s ! i" using s(1) by simp
      then show "?q = fs_Params s ! i" using s(2) by simp
    next
      assume "?q = fs_Params s ! i"
      then have "(fs_Params s)[i := ?q] = fs_Params s" by simp
      then show "?a = a" using s(1) by (auto simp: fun_eq_iff)
    qed
    have least: "sum_le ?a b" if b: "sum_le a b" "stable P fs b" for b
    proof (rule sum_le_update [OF s le b(1)])
      fix t assume t: "b f = Some t"
      then have fs: "fs_le s t" using sum_le_Some [OF b(1) s(1)] by auto
      obtain gl where gl: "analyzeValueFlow P b p = Some gl" using analyzeValueFlow_reaches [OF assms(1)] by blast
      have "fs_HasBody t" using fs True by (simp add: fs_le_iff)
      with b(2) t gl assms(3) have st: "update_param gl (fs_Params t ! i) = fs_Params t ! i" by (force simp: stable_def param_stable_def fip)
      have "ps_le (fs_Params s ! i) (fs_Params t ! i)" using fs s(2) by (simp add: fs_le_iff list_all2_nthD)
      moreover have "sl fl \<Longrightarrow> sl gl" if "flow_sel sl" for sl
        using analyzeValueFlow_mono [OF assms(1) b(1) fl gl that] .
      ultimately show "ps_le ?q (fs_Params t ! i)"
        using st by (auto simp: ps_le_iff param_eq_iff [of _ "fs_Params t ! i"] flow_sel_def)
    qed
    have "pass_param P fip (a, ch) = Some (?a, ch \<or> ?q \<noteq> fs_Params s ! i)"
      using s True fl by (simp add: fip pass_param_def Let_def)
    moreover have "?q = fs_Params s ! i" if "?a = a" using same that by simp
    ultimately show ?thesis using sum_le_updated [of a f s i ?q] s(1) le same least fl by (auto simp: fip param_stable_def)
  qed
qed

lemma pass_list_ok:
  assumes "program_ok P" "set ps \<subseteq> set (all_params P fs)"
  shows "covers P fs a \<Longrightarrow> \<exists>a' ch'. fold_option (pass_param P) ps (a, ch) = Some (a', ch') \<and> sum_le a a' \<and> (ch' \<longleftrightarrow> ch \<or> a' \<noteq> a) \<and>
    (\<forall>b. sum_le a b \<longrightarrow> stable P fs b \<longrightarrow> sum_le a' b) \<and>
    (a' = a \<longrightarrow> (\<forall>q \<in> set ps. param_stable P a q))"
  using assms(2)
proof (induction ps arbitrary: a ch)
  case (Cons q ps)
  have q: "q \<in> set (all_params P fs)" using Cons.prems(2) by simp
  obtain a1 ch1 where 1: "pass_param P q (a, ch) = Some (a1, ch1)" "sum_le a a1" "ch1 \<longleftrightarrow> ch \<or> a1 \<noteq> a"
    "\<And>b. sum_le a b \<Longrightarrow> stable P fs b \<Longrightarrow> sum_le a1 b"
    "a1 = a \<Longrightarrow> param_stable P a q"
    using pass_param_ok [OF assms(1) Cons.prems(1) q, of ch] by blast
  have "set ps \<subseteq> set (all_params P fs)" using Cons.prems(2) by simp
  from Cons.IH [OF covers_le [OF Cons.prems(1) 1(2)] this, of ch1]
  obtain a2 ch2 where 2: "fold_option (pass_param P) ps (a1, ch1) = Some (a2, ch2)" "sum_le a1 a2" "ch2 \<longleftrightarrow> ch1 \<or> a2 \<noteq> a1"
    "\<And>b. sum_le a1 b \<Longrightarrow> stable P fs b \<Longrightarrow> sum_le a2 b"
    "a2 = a1 \<Longrightarrow> (\<forall>q \<in> set ps. param_stable P a1 q)"
    by blast
  have eq: "a1 = a" if "a2 = a" using sum_le_antisym [of a a1] 1(2) 2(2) that by simp
  have "fold_option (pass_param P) (q # ps) (a, ch) = Some (a2, ch2)" using 1(1) 2(1) by simp
  moreover have "sum_le a a2" using sum_le_trans 1(2) 2(2) .
  moreover have "ch2 \<longleftrightarrow> ch \<or> a2 \<noteq> a" using 1(3) 2(3) eq by auto
  moreover have "\<forall>b. sum_le a b \<longrightarrow> stable P fs b \<longrightarrow> sum_le a2 b" using 1(4) 2(4) by blast
  moreover have "a2 = a \<longrightarrow> (\<forall>r \<in> set (q # ps). param_stable P a r)"
    using eq 1(5) 2(5) by auto
  ultimately show ?case by blast
qed simp

lemma summary_pass_ok:
  assumes "program_ok P" "covers P fs a"
  shows "\<exists>a' ch. summary_pass P fs a = Some (a', ch) \<and> sum_le a a' \<and> (ch \<longleftrightarrow> a' \<noteq> a) \<and>
    (\<forall>b. sum_le a b \<longrightarrow> stable P fs b \<longrightarrow> sum_le a' b) \<and> (a' = a \<longrightarrow> stable P fs a)"
  using pass_list_ok [OF assms(1) subset_refl assms(2), of False] by (auto simp: summary_pass_def stable_def)

text \<open>The flags that are not set yet; every pass that changes something sets one.\<close>

definition ps_flag :: "nat \<Rightarrow> param_summary \<Rightarrow> bool" where
  "ps_flag k ps = (if k = 0 then ps_Escapes ps else if k = 1 then ps_Returned ps else ps_Stored ps)"

definition unset :: "ssa_program \<Rightarrow> fid list \<Rightarrow> summaries \<Rightarrow> (fid \<times> nat \<times> nat) set" where
  "unset P fs a = {(f, i, k). f \<in> set fs \<and> i < length (fn_params (pr_func P f)) \<and> k < 3 \<and>
     (\<forall>s. a f = Some s \<longrightarrow> \<not> ps_flag k (fs_Params s ! i))}"

lemma finite_unset: "finite (unset P fs a)"
proof (rule finite_subset)
  show "unset P fs a \<subseteq> (SIGMA f : set fs. {..< length (fn_params (pr_func P f))} \<times> {..< 3})" by (auto simp: unset_def)
qed auto

lemma ps_le_flag: "ps_le p q \<Longrightarrow> ps_flag k p \<Longrightarrow> ps_flag k q"
  by (auto simp: ps_le_iff ps_flag_def split: if_splits)

lemma ps_le_new_flag: "ps_le p q \<Longrightarrow> p \<noteq> q \<Longrightarrow> \<exists>k < 3. \<not> ps_flag k p \<and> ps_flag k q"
proof (rule ccontr)
  assume "ps_le p q" "p \<noteq> q" "\<not> (\<exists>k < 3. \<not> ps_flag k p \<and> ps_flag k q)"
  then have H: "ps_flag k q \<Longrightarrow> ps_flag k p" if "k < 3" for k using that by blast
  have "ps_flag 0 q \<longrightarrow> ps_flag 0 p" "ps_flag 1 q \<longrightarrow> ps_flag 1 p" "ps_flag 2 q \<longrightarrow> ps_flag 2 p"
    using H [of 0] H [of 1] H [of 2] by simp_all
  with \<open>ps_le p q\<close> \<open>p \<noteq> q\<close> show False by (auto simp: ps_le_iff param_eq_iff ps_flag_def)
qed

lemma unset_less:
  assumes "sum_le a b" "a \<noteq> b" "dom a \<subseteq> set fs" "covers P fs a"
  shows "unset P fs b \<subset> unset P fs a"
proof -
  have sub: "unset P fs b \<subseteq> unset P fs a"
  proof
    fix x assume "x \<in> unset P fs b"
    then obtain f i k where x: "x = (f, i, k)" "f \<in> set fs" "i < length (fn_params (pr_func P f))" "k < 3"
      "\<And>t. b f = Some t \<Longrightarrow> \<not> ps_flag k (fs_Params t ! i)" by (auto simp: unset_def)
    obtain s where s: "a f = Some s" "length (fs_Params s) = length (fn_params (pr_func P f))"
      using assms(4) x(2) by (auto simp: covers_def)
    obtain t where t: "b f = Some t" "fs_le s t" using sum_le_Some [OF assms(1) s(1)] by blast
    then have "ps_le (fs_Params s ! i) (fs_Params t ! i)" using x(3) s(2) by (simp add: fs_le_iff list_all2_nthD)
    then have "\<not> ps_flag k (fs_Params s ! i)" using ps_le_flag x(5) [OF t(1)] by blast
    then show "x \<in> unset P fs a" using x s by (simp add: unset_def)
  qed
  obtain f where f: "a f \<noteq> b f" using assms(2) by blast
  have "rel_option fs_le (a f) (b f)" using assms(1) by (simp add: sum_le_def)
  with f obtain s t where st: "a f = Some s" "b f = Some t" "fs_le s t" "s \<noteq> t"
    by (cases "a f"; cases "b f") auto
  then have fs: "f \<in> set fs" using assms(3) by auto
  have "fs_Params s \<noteq> fs_Params t" using st(3,4) by (cases s; cases t) (auto simp: fs_le_iff)
  moreover have l: "length (fs_Params s) = length (fs_Params t)" using st(3) by (auto simp: fs_le_iff dest: list_all2_lengthD)
  ultimately obtain i where i: "i < length (fs_Params s)" "fs_Params s ! i \<noteq> fs_Params t ! i" by (auto simp: list_eq_iff_nth_eq)
  have "ps_le (fs_Params s ! i) (fs_Params t ! i)" using st(3) i(1) by (simp add: fs_le_iff list_all2_nthD)
  from ps_le_new_flag [OF this i(2)] obtain k where k: "k < 3" "\<not> ps_flag k (fs_Params s ! i)" "ps_flag k (fs_Params t ! i)"
    by blast
  have "length (fs_Params s) = length (fn_params (pr_func P f))" using assms(4) fs st(1) by (auto simp: covers_def)
  then have "(f, i, k) \<in> unset P fs a" "(f, i, k) \<notin> unset P fs b" using fs i(1) k st(1,2) by (auto simp: unset_def)
  with sub show ?thesis by blast
qed

lemma sum_le_dom: "sum_le a b \<Longrightarrow> dom b = dom a"
  unfolding sum_le_def by (auto simp: domIff) (metis option.rel_distinct option.exhaust)+

lemma summary_loop_ok:
  assumes "program_ok P"
  shows "covers P fs a \<Longrightarrow> dom a \<subseteq> set fs \<Longrightarrow> \<exists>S. summary_loop P fs a = Some S \<and> sum_le a S \<and> stable P fs S \<and>
    (\<forall>b. sum_le a b \<longrightarrow> stable P fs b \<longrightarrow> sum_le S b)"
proof (induction "card (unset P fs a)" arbitrary: a rule: less_induct)
  case less
  obtain a1 ch where p: "summary_pass P fs a = Some (a1, ch)" "sum_le a a1" "ch \<longleftrightarrow> a1 \<noteq> a"
    "\<And>b. sum_le a b \<Longrightarrow> stable P fs b \<Longrightarrow> sum_le a1 b" "a1 = a \<Longrightarrow> stable P fs a"
    using summary_pass_ok [OF assms less.prems(1)] by blast
  show ?case
  proof (cases "a1 = a")
    case True
    then have "summary_loop P fs a = Some a" using p(1,3) by (subst summary_loop.simps) simp
    with True p(5) show ?thesis by auto
  next
    case False
    have "card (unset P fs a1) < card (unset P fs a)"
      using unset_less [OF p(2) _ less.prems(2,1)] False finite_unset by (metis psubset_card_mono)
    moreover have "dom a1 \<subseteq> set fs" using sum_le_dom [OF p(2)] less.prems(2) by simp
    ultimately obtain S where S: "summary_loop P fs a1 = Some S" "sum_le a1 S" "stable P fs S"
      "\<And>b. sum_le a1 b \<Longrightarrow> stable P fs b \<Longrightarrow> sum_le S b"
      using less.hyps [OF _ covers_le [OF less.prems(1) p(2)]] by blast
    have "summary_loop P fs a = Some S" using p(1,3) False S(1) by (subst summary_loop.simps) simp
    with S p(2,4) sum_le_trans show ?thesis by blast
  qed
qed

lemma initial_summaries_eq: "initial_summaries P f = (if f \<in> set (all_funcs P) then Some (basic_summary P f) else None)"
proof -
  have "fold (\<lambda>f sums. sums(f \<mapsto> basic_summary P f)) fs m f = (if f \<in> set fs then Some (basic_summary P f) else m f)" for fs m
    by (induction fs arbitrary: m) auto
  then show ?thesis by (simp add: initial_summaries_def)
qed

lemma initial_covers: "covers P (all_funcs P) (initial_summaries P)" "dom (initial_summaries P) \<subseteq> set (all_funcs P)"
  by (auto simp: covers_def initial_summaries_eq basic_summary_def Let_def split: if_splits)

lemma stable_cong: "set fs = set gs \<Longrightarrow> stable P fs a = stable P gs a"
  by (simp add: stable_def all_params_def)

text \<open>C32. The iteration over the parameters ends, and its result is the least stable summary above the
  initial one: what every parameter does is what its uses and the summaries of the called functions say, and
  nothing more is claimed. So the order in which packages and their members come, which Go leaves open, does
  not matter.\<close>

theorem AnalyzeSummaries_least:
  assumes "program_ok P"
  shows "\<exists>S. AnalyzeSummaries P = Some S \<and> sum_le (initial_summaries P) S \<and> stable P (all_funcs P) S \<and>
    (\<forall>T. sum_le (initial_summaries P) T \<longrightarrow> stable P (all_funcs P) T \<longrightarrow> sum_le S T) \<and>
    (\<forall>pkgs. set (all_funcs (P\<lparr>pr_packages := pkgs\<rparr>)) = set (all_funcs P) \<longrightarrow> AnalyzeSummaries (P\<lparr>pr_packages := pkgs\<rparr>) = Some S)"
proof -
  obtain S where S: "AnalyzeSummaries P = Some S" "sum_le (initial_summaries P) S" "stable P (all_funcs P) S"
    "\<And>T. sum_le (initial_summaries P) T \<Longrightarrow> stable P (all_funcs P) T \<Longrightarrow> sum_le S T"
    using summary_loop_ok [OF assms initial_covers] by (auto simp: AnalyzeSummaries_def)
  have "AnalyzeSummaries (P\<lparr>pr_packages := pkgs\<rparr>) = Some S"
    if pkgs: "set (all_funcs (P\<lparr>pr_packages := pkgs\<rparr>)) = set (all_funcs P)" for pkgs
  proof -
    let ?Q = "P\<lparr>pr_packages := pkgs\<rparr>"
    have q: "pr_func ?Q = pr_func P" "pr_value ?Q = pr_value P" by simp_all
    have "program_ok ?Q = program_ok P" by (simp only: program_ok_def q)
    then have ok: "program_ok ?Q" using assms by simp
    have b: "basic_summary ?Q = basic_summary P" by (intro ext) (simp only: basic_summary_def q)
    have i: "initial_summaries ?Q = initial_summaries P"
      unfolding fun_eq_iff initial_summaries_eq pkgs b by simp
    have u: "uses_of ?Q = uses_of P" by (intro ext) (simp only: uses_of_def q)
    have d: "flow_direct ?Q = flow_direct P" by (intro ext) (simp only: flow_direct_def q u)
    have "flow_succs ?Q = flow_succs P" "flow_check ?Q = flow_check P" "flow_fuel ?Q = flow_fuel P"
      by (intro ext, simp only: flow_succs_def flow_check_def flow_fuel_def q u d)+
    then have fl: "analyzeValueFlow ?Q = analyzeValueFlow P" by (intro ext) (simp only: analyzeValueFlow_def)
    have st: "stable ?Q (all_funcs ?Q) a = stable P (all_funcs P) a" for a
      using stable_cong [OF pkgs, of P a] by (simp add: stable_def param_stable_def fl all_params_def)
    obtain R where R: "AnalyzeSummaries ?Q = Some R" "sum_le (initial_summaries P) R" "stable P (all_funcs P) R"
      "\<And>T. sum_le (initial_summaries P) T \<Longrightarrow> stable P (all_funcs P) T \<Longrightarrow> sum_le R T"
      using summary_loop_ok [OF ok initial_covers] unfolding AnalyzeSummaries_def i st by blast
    have "R = S" using sum_le_antisym R(2-4) S(2-4) by blast
    with R(1) show ?thesis by simp
  qed
  with S show ?thesis by blast
qed

section \<open>A function that returns part of its argument\<close>

text \<open>\<^verbatim>\<open>func tail(p []int) []int { return p[1:] }\<close>\<close>

definition int_slice :: "string \<Rightarrow> ssa_value" where
  "int_slice nm = \<lparr>va_name = nm, va_kind = OtherValue, va_type = SliceType 0, va_typeString = ''[]int'', va_parent = Some ''tail'', va_pos = 0\<rparr>"

definition tail_func :: ssa_func where
  "tail_func = \<lparr>fn_name = ''tail'', fn_hasPkg = True, fn_pos = 1, fn_params = [1], fn_results = 1,
     fn_blocks = [\<lparr>bl_index = 0, bl_instrs =
       [\<lparr>in_id = 10, in_val = Some 2, in_pos = 5, in_op = ISlice 1 []\<rparr>,
        \<lparr>in_id = 11, in_val = None, in_pos = 6, in_op = IReturn [2]\<rparr>]\<rparr>]\<rparr>"

definition tail_prog :: ssa_program where
  "tail_prog = \<lparr>pr_packages = [[FnTree ''tail'' []]], pr_func = (\<lambda>_. tail_func), pr_value = (\<lambda>_. int_slice ''t''),
     pr_elem = (\<lambda>_. BasicType ''int'')\<rparr>"

lemma tail_prog_ok: "program_ok tail_prog"
  by (simp add: program_ok_def tail_prog_def int_slice_def)

lemma AnalyzeSummaries_least_witness: "\<exists>S. AnalyzeSummaries tail_prog = Some S \<and> stable tail_prog [''tail''] S"
proof -
  have "all_funcs tail_prog = [''tail'']" by (simp add: all_funcs_def tail_prog_def)
  with AnalyzeSummaries_least [OF tail_prog_ok] show ?thesis by auto
qed

text \<open>The search does not follow a slice expression, so the parameter counts as one that stays inside.\<close>

lemma tail_does_not_escape:
  "map_option (\<lambda>S. map_option (\<lambda>s. map ps_Escapes (fs_Params s)) (S ''tail'')) (AnalyzeSummaries tail_prog) = Some (Some [False])"
  by code_simp

end
