(* ===== verification/Lifetime.thy ===== *)
theory Lifetime
  imports Ownership Summary
begin

text \<open>
  The lifetime analysis of \<^verbatim>\<open>internal/analysis/lifetime\<close> for one function: the flow graph and the aliases
  built from its instructions, the search from an allocation for a node where it escapes, the regions, and the
  report of every allocation. The summaries of called functions are an argument, where the source reads a
  global variable. A tracker call returns, as \<^verbatim>\<open>Ownership_roots\<close> shows; \<open>ask_root\<close> and \<open>add_alias\<close>
  are its value.
\<close>

section \<open>Results\<close>

datatype LifetimeState = Safe | Unsafe | Unknown

datatype ViolationType =
    EscapedReturn | EscapedClosure | EscapedGlobal | EscapedInterface | EscapedChannel | EscapedMap
  | EscapedSlice | EscapedReflection | EscapedUnsafe | UnknownCall | UnknownAlias | UnknownOwnership | UnknownRegion

text \<open>A region is a function, or a block of it; its ID and name are made of the two.\<close>

record region_node =
  re_func :: string
  re_block :: "nat option"
  re_start :: int
  re_end :: int

record region_tree =
  rt_root :: region_node
  rt_children :: "region_node list"

text \<open>The object ID is the name of the function and the position.\<close>

type_synonym object_id = "string \<times> int"

record lifetime_report =
  lr_Function :: fid
  lr_Region :: region_node
  lr_OwnerScope :: string
  lr_State :: LifetimeState
  lr_Reason :: string
  lr_Violations :: "ViolationType list"
  lr_References :: "string list"

record lifetime_result =
  lf_Reports :: "object_id \<rightharpoonup> lifetime_report"
  lf_Violations :: "(object_id \<times> string) list"
  lf_State :: LifetimeState

section \<open>The flow graph\<close>

datatype gnode = ValNode vid | InstrNode instr

record graph_edge =
  ge_from :: gnode
  ge_to :: gnode
  ge_type :: string

record life_graph =
  lg_nodes :: "gnode \<rightharpoonup> string"
  lg_edges :: "graph_edge list"
  lg_adj :: "gnode \<Rightarrow> graph_edge list"

definition NewLifetimeGraph :: life_graph where
  "NewLifetimeGraph = \<lparr>lg_nodes = Map.empty, lg_edges = [], lg_adj = (\<lambda>_. [])\<rparr>"

definition GetOrCreateNode :: "gnode \<Rightarrow> string \<Rightarrow> life_graph \<Rightarrow> life_graph" where
  "GetOrCreateNode n name g = (if lg_nodes g n \<noteq> None then g else g\<lparr>lg_nodes := (lg_nodes g)(n \<mapsto> name)\<rparr>)"

definition AddEdge :: "gnode \<Rightarrow> gnode \<Rightarrow> string \<Rightarrow> life_graph \<Rightarrow> life_graph" where
  "AddEdge fr to ty g =
     (let e = \<lparr>ge_from = fr, ge_to = to, ge_type = ty\<rparr>
      in g\<lparr>lg_edges := lg_edges g @ [e], lg_adj := (lg_adj g)(fr := lg_adj g fr @ [e])\<rparr>)"

text \<open>Two nodes, the first created first, and the edge between them.\<close>

definition link :: "gnode \<Rightarrow> string \<Rightarrow> gnode \<Rightarrow> string \<Rightarrow> string \<Rightarrow> life_graph \<Rightarrow> life_graph" where
  "link fr frName to toName ty g = AddEdge fr to ty (GetOrCreateNode to toName (GetOrCreateNode fr frName g))"

definition ask_root :: "vid \<Rightarrow> tracker \<Rightarrow> tracker \<times> vid option" where
  "ask_root v t = (case GetRoot v t of Some x \<Rightarrow> x | None \<Rightarrow> (t, None))"

definition add_alias :: "vid \<Rightarrow> vid \<Rightarrow> tracker \<Rightarrow> tracker" where
  "add_alias v src t = (case AddAlias v src t of Some t' \<Rightarrow> t' | None \<Rightarrow> t)"

section \<open>From instructions to the graph\<close>

type_synonym trace = "life_graph \<times> tracker"

text \<open>The flow of one operand into the result, with the alias: the shape of most cases.\<close>

definition flow_in :: "ssa_program \<Rightarrow> vid \<Rightarrow> string \<Rightarrow> vid \<Rightarrow> string \<Rightarrow> trace \<Rightarrow> trace" where
  "flow_in P x xName v ty st = (case st of (g, t) \<Rightarrow>
     (link (ValNode x) xName (ValNode v) (va_name (pr_value P v)) ty g, add_alias v x t))"

definition flow_back :: "vid \<Rightarrow> vid \<Rightarrow> string \<Rightarrow> trace \<Rightarrow> trace" where
  "flow_back v x ty st = (case st of (g, t) \<Rightarrow> (AddEdge (ValNode v) (ValNode x) ty g, t))"

text \<open>The operands of a call, a go or a defer statement all flow into the instruction.\<close>

definition call_in :: "instr \<Rightarrow> string \<Rightarrow> string \<Rightarrow> string \<Rightarrow> string \<Rightarrow> string \<Rightarrow> ssa_call \<Rightarrow> life_graph \<Rightarrow> life_graph" where
  "call_in i nm fName fTy aName aTy c g =
     (let n = InstrNode i; g1 = GetOrCreateNode n nm g;
          g2 = link (ValNode (call_value c)) fName n nm fTy g1
      in fold (\<lambda>a. link (ValNode a) aName n nm aTy) (call_args c) g2)"

definition instr_value :: "instr \<Rightarrow> vid" where
  "instr_value i = case_option 0 id (in_val i)"

definition trace_op :: "ssa_program \<Rightarrow> instr \<Rightarrow> trace \<Rightarrow> trace" where
  "trace_op P i st = (case st of (g, t) \<Rightarrow> let v = instr_value i; n = va_name (pr_value P v) in
     case in_op i of
       IStore a x \<Rightarrow> (link (ValNode x) ''val'' (ValNode a) ''addr'' ''Store'' g, add_alias a x t)
     | IField x \<Rightarrow>
         (AddEdge (ValNode v) (ValNode x) ''FieldOf'' (link (ValNode x) ''x'' (ValNode v) n ''Field'' g), add_alias v x t)
     | IFieldAddr x \<Rightarrow>
         (AddEdge (ValNode v) (ValNode x) ''FieldAddrOf'' (link (ValNode x) ''x'' (ValNode v) n ''FieldAddr'' g), add_alias v x t)
     | IIndexAddr x j \<Rightarrow>
         (AddEdge (ValNode v) (ValNode x) ''IndexAddrOf'' (link (ValNode x) ''x'' (ValNode v) n ''IndexAddr'' g), add_alias v x t)
     | ISlice x vs \<Rightarrow>
         (link (ValNode x) ''x'' (ValNode v) n ''Slice'' g,
          if type_HasPointers (va_type (pr_value P v)) then add_alias v x t else t)
     | IChangeInterface x \<Rightarrow> flow_in P x ''x'' v ''ChangeInterface'' st
     | IConvert x \<Rightarrow> flow_in P x ''x'' v ''Convert'' st
     | ITypeAssert x \<Rightarrow> flow_in P x ''x'' v ''TypeAssert'' st
     | IPhi vs \<Rightarrow> fold (\<lambda>e. flow_in P e (va_name (pr_value P e)) v ''Phi'') vs (GetOrCreateNode (ValNode v) n g, t)
     | ISelect ss \<Rightarrow> fold (\<lambda>s. flow_in P (fst s) ''select_chan'' v ''Select'') ss (GetOrCreateNode (ValNode v) n g, t)
     | IMakeClosure f bs \<Rightarrow> fold (\<lambda>b. flow_in P b ''closure_bind'' v ''ClosureBind'') bs (GetOrCreateNode (ValNode v) n g, t)
     | IMakeInterface x \<Rightarrow>
         (link (ValNode x) ''x'' (InstrNode i) ''MakeInterfaceInstr'' ''MakeInterfaceAction''
            (link (ValNode x) ''x'' (ValNode v) n ''MakeInterface'' g), add_alias v x t)
     | ISend c x \<Rightarrow>
         (link (ValNode x) ''x'' (InstrNode i) ''SendInstr'' ''SendAction''
            (AddEdge (ValNode x) (ValNode c) ''Send'' (GetOrCreateNode (ValNode x) ''x'' (GetOrCreateNode (ValNode c) ''chan'' g))), t)
     | IReturn vs \<Rightarrow> (fold (\<lambda>r. link (ValNode r) ''retVal'' (InstrNode i) ''ReturnInstr'' ''Return'') vs g, t)
     | IGo c \<Rightarrow> (call_in i ''GoInstr'' ''go_func'' ''GoFunc'' ''go_arg'' ''GoArg'' c g, t)
     | IDefer c \<Rightarrow> (call_in i ''DeferInstr'' ''defer_func'' ''DeferFunc'' ''defer_arg'' ''DeferArg'' c g, t)
     | ICall c \<Rightarrow> (call_in i ''CallInstr'' ''call_func'' ''CallFunc'' ''call_arg'' ''CallArg'' c g, t)
     | IUnOp tok x \<Rightarrow>
         if tok = CHR ''*'' then
           (if type_HasPointers (va_type (pr_value P v)) then flow_in P x ''x'' v ''UnOp'' st else st)
         else if tok = CHR ''<'' then st
         else flow_in P x ''x'' v ''UnOp'' st
     | _ \<Rightarrow> st)"

text \<open>The node of an instruction that is a value comes first.\<close>

definition trace_instr :: "ssa_program \<Rightarrow> instr \<Rightarrow> trace \<Rightarrow> trace" where
  "trace_instr P i st = (case st of (g, t) \<Rightarrow>
     trace_op P i (case in_val i of
       None \<Rightarrow> (g, t) | Some v \<Rightarrow> (GetOrCreateNode (ValNode v) (va_name (pr_value P v)) g, t)))"

definition alloc_label :: "opcode \<Rightarrow> string" where
  "alloc_label p = (case p of IAlloc \<Rightarrow> ''Alloc'' | IMakeSlice vs \<Rightarrow> ''MakeSlice'' | IMakeMap vs \<Rightarrow> ''MakeMap'' | _ \<Rightarrow> ''MakeChan'')"

text \<open>The first pass registers the allocations.\<close>

definition register_instr :: "ssa_program \<Rightarrow> string \<Rightarrow> instr \<Rightarrow> trace \<Rightarrow> trace" where
  "register_instr P owner i st = (case st of (g, t) \<Rightarrow>
     if is_alloc (in_op i) then
       (GetOrCreateNode (ValNode (instr_value i)) (alloc_label (in_op i) @ ''('' @ va_typeString (pr_value P (instr_value i)) @ '')'') g,
        RegisterAlloc (instr_value i) owner t)
     else (g, t))"

definition build_trace :: "ssa_program \<Rightarrow> ssa_func \<Rightarrow> trace" where
  "build_trace P fn =
     fold (trace_instr P) (fn_instrs fn)
       (fold (register_instr P (fn_name fn)) (fn_instrs fn) (NewLifetimeGraph, NewOwnershipTracker))"

section \<open>Escapes\<close>

definition isArgumentMatched :: "vid \<Rightarrow> vid \<Rightarrow> tracker \<Rightarrow> tracker \<times> bool" where
  "isArgumentMatched arg alloc t =
     (if arg = alloc then (t, True)
      else case ask_root arg t of (t1, rootArg) \<Rightarrow>
        (case ask_root alloc t1 of (t2, rootAlloc) \<Rightarrow>
          (t2, rootArg \<noteq> None \<and> rootAlloc \<noteq> None \<and> rootArg = rootAlloc)))"

fun arg_escapes :: "vid \<Rightarrow> vid list \<Rightarrow> param_summary list \<Rightarrow> tracker \<Rightarrow> tracker \<times> bool" where
  "arg_escapes alloc (a # as) (p # ps) t =
     (case isArgumentMatched a alloc t of (t1, m) \<Rightarrow>
        if m \<and> ps_Escapes p then (t1, True) else arg_escapes alloc as ps t1)"
| "arg_escapes alloc _ _ t = (t, False)"

type_synonym verdict = "LifetimeState \<times> ViolationType \<times> string"

definition check_call :: "ssa_program \<Rightarrow> summaries \<Rightarrow> vid \<Rightarrow> ssa_call \<Rightarrow> tracker \<Rightarrow> tracker \<times> verdict option" where
  "check_call P sums alloc c t =
     (let cv = pr_value P (call_value c) in
      if va_kind cv = BuiltinValue \<and> va_name cv \<in> {''len'', ''cap''} then (t, None)
      else case static_callee c of
        None \<Rightarrow> (t, Some (Unknown, UnknownCall, ''Passed to unknown or external function call''))
      | Some g \<Rightarrow>
          if \<not> fn_hasPkg (pr_func P g) then (t, Some (Unknown, UnknownCall, ''Passed to unknown or external function call''))
          else case sums g of
            None \<Rightarrow> (t, Some (Unknown, UnknownCall, ''Passed to function '' @ fn_name (pr_func P g) @ '' with no available summary''))
          | Some s \<Rightarrow>
              if \<not> fs_HasBody s \<or> fs_IsExternal s
              then (t, Some (Unknown, UnknownCall, ''Passed to function '' @ fn_name (pr_func P g) @ '' with no available summary''))
              else case arg_escapes alloc (call_args c) (fs_Params s) t of
                (t1, True) \<Rightarrow> (t1, Some (Unsafe, UnknownCall, ''Passed to function '' @ fn_name (pr_func P g) @ '' where parameter escapes''))
              | (t1, False) \<Rightarrow> (t1, None))"

fun check_node :: "ssa_program \<Rightarrow> summaries \<Rightarrow> vid \<Rightarrow> gnode \<Rightarrow> tracker \<Rightarrow> tracker \<times> verdict option" where
  "check_node P sums alloc (ValNode v) t =
     (if va_kind (pr_value P v) = GlobalValue
      then (t, Some (Unsafe, EscapedGlobal, ''Stored in global variable: '' @ va_name (pr_value P v))) else (t, None))"
| "check_node P sums alloc (InstrNode i) t =
     (case in_op i of
        IReturn vs \<Rightarrow> (t, Some (Unsafe, EscapedReturn, ''Returned from function scope''))
      | IGo c \<Rightarrow> (t, Some (Unsafe, EscapedClosure, ''Captured by goroutine statement''))
      | ISend c x \<Rightarrow> (t, Some (Unsafe, EscapedChannel, ''Sent through channel''))
      | ICall c \<Rightarrow> check_call P sums alloc c t
      | IMakeInterface x \<Rightarrow> (t, Some (Unknown, EscapedInterface, ''Converted to interface value with unknown flow''))
      | _ \<Rightarrow> (t, None))"

definition graph_succs :: "life_graph \<Rightarrow> gnode \<Rightarrow> gnode list" where
  "graph_succs g n = map ge_to (lg_adj g n)"

text \<open>The names on the path are those of the nodes.\<close>

definition node_name :: "life_graph \<Rightarrow> gnode \<Rightarrow> string" where
  "node_name g n = case_option '''' id (lg_nodes g n)"

definition CheckEscape ::
  "ssa_program \<Rightarrow> summaries \<Rightarrow> life_graph \<Rightarrow> vid \<Rightarrow> tracker \<Rightarrow> (tracker \<times> LifetimeState \<times> string \<times> ViolationType list \<times> string list) option" where
  "CheckEscape P sums g alloc t =
     map_option (\<lambda>(st, r).
       (se_data st,
        case r of
          Some (state, viol, reason) \<Rightarrow> (state, reason, [viol], map (node_name g) (se_path st))
        | None \<Rightarrow> (Safe, ''Allocation remains valid inside owning scope'', [], map (node_name g) (se_path st))))
       (dfs (graph_succs g) (check_node P sums alloc) (Suc (length (lg_edges g))) (ValNode alloc) (start t))"

section \<open>Regions\<close>

text \<open>Positions are those of the instructions; 0 is no position.\<close>

definition block_region :: "string \<Rightarrow> ssa_block \<Rightarrow> region_node option" where
  "block_region name b =
     (let ps = filter (\<lambda>p. p \<noteq> 0) (map in_pos (bl_instrs b))
      in if ps = [] then None else Some \<lparr>re_func = name, re_block = Some (bl_index b), re_start = hd ps, re_end = last ps\<rparr>)"

definition BuildRegions :: "ssa_func \<Rightarrow> region_tree" where
  "BuildRegions fn =
     \<lparr>rt_root = \<lparr>re_func = fn_name fn, re_block = None, re_start = fn_pos fn, re_end = fold max (map in_pos (fn_instrs fn)) 0\<rparr>,
      rt_children = List.map_filter (block_region (fn_name fn)) (fn_blocks fn)\<rparr>"

definition region_at :: "region_tree \<Rightarrow> int \<Rightarrow> region_node" where
  "region_at rt pos =
     (case find (\<lambda>r. re_start r \<le> pos \<and> pos \<le> re_end r) (rt_children rt) of None \<Rightarrow> rt_root rt | Some r \<Rightarrow> r)"

section \<open>The analysis of a function\<close>

definition empty_result :: lifetime_result where
  "empty_result = \<lparr>lf_Reports = Map.empty, lf_Violations = [], lf_State = Safe\<rparr>"

definition fn_allocs :: "ssa_func \<Rightarrow> instr list" where
  "fn_allocs fn = filter (\<lambda>i. is_alloc (in_op i)) (fn_instrs fn)"

definition report_alloc ::
  "ssa_program \<Rightarrow> summaries \<Rightarrow> fid \<Rightarrow> life_graph \<Rightarrow> instr \<Rightarrow> tracker \<times> lifetime_result \<Rightarrow> (tracker \<times> lifetime_result) option" where
  "report_alloc P sums f g i st = (case st of (t, res) \<Rightarrow>
     let fn = pr_func P f; oid = (fn_name fn, in_pos i) in
     map_option (\<lambda>(t1, state, reason, violations, refs).
       (t1, res\<lparr>lf_Reports := (lf_Reports res)(oid \<mapsto>
              \<lparr>lr_Function = f, lr_Region = region_at (BuildRegions fn) (in_pos i), lr_OwnerScope = fn_name fn,
               lr_State = state, lr_Reason = reason, lr_Violations = violations, lr_References = refs\<rparr>),
            lf_Violations := lf_Violations res @ (if state \<noteq> Safe then [(oid, reason)] else [])\<rparr>))
       (CheckEscape P sums g (instr_value i) t))"

definition analyzeFunc :: "ssa_program \<Rightarrow> summaries \<Rightarrow> fid \<Rightarrow> lifetime_result option" where
  "analyzeFunc P sums f =
     (let fn = pr_func P f in
      if fn_blocks fn = [] then Some empty_result
      else case build_trace P fn of (g, t) \<Rightarrow>
        map_option snd (fold_option (report_alloc P sums f g) (fn_allocs fn) (t, empty_result)))"

section \<open>The graph is consistent\<close>

definition graph_ok :: "life_graph \<Rightarrow> bool" where
  "graph_ok g \<longleftrightarrow> (\<forall>n. lg_adj g n = filter (\<lambda>e. ge_from e = n) (lg_edges g))"

named_theorems graph_intros \<open>the graph operations keep the graph consistent\<close>

lemma GetOrCreateNode_ok [graph_intros]: "graph_ok g \<Longrightarrow> graph_ok (GetOrCreateNode n name g)"
  by (simp add: graph_ok_def GetOrCreateNode_def)

lemma AddEdge_ok [graph_intros]: "graph_ok g \<Longrightarrow> graph_ok (AddEdge fr to ty g)"
  by (simp add: graph_ok_def AddEdge_def Let_def)

lemma link_ok [graph_intros]: "graph_ok g \<Longrightarrow> graph_ok (link fr a to b ty g)"
  by (simp add: link_def graph_intros)

lemma fold_keeps: "(\<And>x s. P s \<Longrightarrow> P (f x s)) \<Longrightarrow> P s \<Longrightarrow> P (fold f xs s)"
  by (induction xs arbitrary: s) auto

lemma call_in_ok [graph_intros]: "graph_ok g \<Longrightarrow> graph_ok (call_in i nm fn ft an at c g)"
  unfolding call_in_def Let_def by (intro fold_keeps [where P = graph_ok] graph_intros)

definition trace_ok :: "trace \<Rightarrow> bool" where
  "trace_ok st \<longleftrightarrow> graph_ok (fst st) \<and> tracker_ok (snd st)"

lemma add_alias_ok: "tracker_ok t \<Longrightarrow> tracker_ok (add_alias v src t)"
  using AddAlias_ok [of t v src] by (auto simp: add_alias_def)

lemma flow_in_ok: "trace_ok st \<Longrightarrow> trace_ok (flow_in P x xn v ty st)"
  by (cases st) (simp add: flow_in_def trace_ok_def graph_intros add_alias_ok)

lemma fold_flow_in_ok: "trace_ok st \<Longrightarrow> trace_ok (fold (\<lambda>e. flow_in P (h e) (nm e) v ty) es st)"
  by (rule fold_keeps) (auto intro: flow_in_ok)

lemma trace_op_ok:
  assumes "trace_ok st"
  shows "trace_ok (trace_op P i st)"
proof -
  obtain g t where st: "st = (g, t)" by force
  have ok: "graph_ok g" "tracker_ok t" using assms by (auto simp: trace_ok_def st)
  have pair: "trace_ok (GetOrCreateNode n nm g, t)" for n nm using ok by (simp add: trace_ok_def graph_intros)
  show ?thesis
  proof (cases "in_op i")
    case (IReturn vs)
    have "graph_ok (fold (\<lambda>r. link (ValNode r) a (InstrNode i) b c) vs g)" for a b c
      by (rule fold_keeps) (auto intro: graph_intros ok)
    with IReturn ok show ?thesis by (simp add: trace_op_def st Let_def trace_ok_def)
  qed (use ok pair assms in \<open>simp_all add: trace_op_def st Let_def trace_ok_def graph_intros add_alias_ok
      flow_in_ok [unfolded trace_ok_def] fold_flow_in_ok [unfolded trace_ok_def]\<close>)
qed

lemma trace_instr_ok: "trace_ok st \<Longrightarrow> trace_ok (trace_instr P i st)"
  by (cases st) (auto simp: trace_instr_def trace_ok_def [of "(_, _)"] graph_intros split: option.split intro!: trace_op_ok)

lemma register_instr_ok: "trace_ok st \<Longrightarrow> trace_ok (register_instr P owner i st)"
  using RegisterAlloc_ok by (cases st) (simp add: register_instr_def trace_ok_def graph_intros)

lemma build_trace_ok: "trace_ok (build_trace P fn)"
proof -
  have "trace_ok (NewLifetimeGraph, NewOwnershipTracker)"
    using NewOwnershipTracker_ok by (simp add: trace_ok_def graph_ok_def NewLifetimeGraph_def)
  then have "trace_ok (fold (register_instr P (fn_name fn)) (fn_instrs fn) (NewLifetimeGraph, NewOwnershipTracker))"
    using fold_keeps [where P = trace_ok and f = "register_instr P (fn_name fn)"] register_instr_ok by blast
  then show ?thesis unfolding build_trace_def
    using fold_keeps [where P = trace_ok and f = "trace_instr P"] trace_instr_ok by blast
qed

section \<open>The search is exact\<close>

text \<open>Only roots matter, and a query changes none.\<close>

definition same_roots :: "tracker \<Rightarrow> tracker \<Rightarrow> bool" where
  "same_roots t t' \<longleftrightarrow> tracker_ok t \<and> tracker_ok t' \<and> (\<forall>x s. root_is t' x s \<longleftrightarrow> root_is t x s)"

lemma same_roots_refl: "tracker_ok t \<Longrightarrow> same_roots t t"
  by (simp add: same_roots_def)

lemma same_roots_trans: "same_roots t u \<Longrightarrow> same_roots u v \<Longrightarrow> same_roots t v"
  by (simp add: same_roots_def)

lemma ask_root_ok: "tracker_ok t \<Longrightarrow> root_is t v (snd (ask_root v t)) \<and> same_roots t (fst (ask_root v t))"
  using GetRoot_ok [of t v] by (auto simp: ask_root_def same_roots_def)

definition matched :: "tracker \<Rightarrow> vid \<Rightarrow> vid \<Rightarrow> bool" where
  "matched t arg alloc \<longleftrightarrow> arg = alloc \<or> (\<exists>r. root_is t arg (Some r) \<and> root_is t alloc (Some r))"

lemma matched_cong: "same_roots t u \<Longrightarrow> matched u arg alloc = matched t arg alloc"
  by (simp add: matched_def same_roots_def)

lemma isArgumentMatched_ok:
  assumes "tracker_ok t"
  shows "snd (isArgumentMatched arg alloc t) = matched t arg alloc \<and> same_roots t (fst (isArgumentMatched arg alloc t))"
proof (cases "arg = alloc")
  case True
  then show ?thesis using assms by (simp add: isArgumentMatched_def matched_def same_roots_refl)
next
  case False
  obtain t1 r1 where 1: "ask_root arg t = (t1, r1)" by force
  obtain t2 r2 where 2: "ask_root alloc t1 = (t2, r2)" by force
  have A: "root_is t arg r1" "same_roots t t1" using ask_root_ok [OF assms, of arg] 1 by auto
  then have B: "root_is t1 alloc r2" "same_roots t1 t2" using ask_root_ok [of t1 alloc] 2 by (auto simp: same_roots_def)
  have C: "root_is t alloc r2" using A(2) B(1) by (simp add: same_roots_def)
  have "matched t arg alloc \<longleftrightarrow> r1 \<noteq> None \<and> r2 \<noteq> None \<and> r1 = r2"
  proof
    assume "matched t arg alloc"
    then obtain r where "root_is t arg (Some r)" "root_is t alloc (Some r)" using False by (auto simp: matched_def)
    then show "r1 \<noteq> None \<and> r2 \<noteq> None \<and> r1 = r2" using root_is_unique A(1) C by blast
  next
    assume "r1 \<noteq> None \<and> r2 \<noteq> None \<and> r1 = r2"
    then show "matched t arg alloc" using A(1) C by (auto simp: matched_def)
  qed
  with False 1 2 same_roots_trans [OF A(2) B(2)] show ?thesis by (simp add: isArgumentMatched_def)
qed

lemma arg_escapes_ok:
  "tracker_ok t \<Longrightarrow> snd (arg_escapes alloc as ps t) = (\<exists>(a, p) \<in> set (zip as ps). matched t a alloc \<and> ps_Escapes p) \<and>
   same_roots t (fst (arg_escapes alloc as ps t))"
proof (induction alloc as ps t rule: arg_escapes.induct)
  case (1 alloc a as p ps t)
  obtain t1 m where m: "isArgumentMatched a alloc t = (t1, m)" by force
  have M: "m = matched t a alloc" "same_roots t t1" using isArgumentMatched_ok [OF "1.prems", of a alloc] m by simp_all
  have t1: "tracker_ok t1" using M(2) by (simp add: same_roots_def)
  show ?case
  proof (cases "m \<and> ps_Escapes p")
    case True
    then show ?thesis using m M by auto
  next
    case False
    have "snd (arg_escapes alloc as ps t1) = (\<exists>(a, p) \<in> set (zip as ps). matched t a alloc \<and> ps_Escapes p)"
      and s: "same_roots t1 (fst (arg_escapes alloc as ps t1))"
      using "1.IH" [OF m [symmetric] False t1] by (simp_all only: matched_cong [OF M(2)])
    then show ?thesis using m M(1) False same_roots_trans [OF M(2) s] by auto
  qed
qed (auto simp: same_roots_refl)

text \<open>The verdict on a node, and the nodes from which an allocation escapes.\<close>

definition node_verdict :: "ssa_program \<Rightarrow> summaries \<Rightarrow> vid \<Rightarrow> tracker \<Rightarrow> gnode \<Rightarrow> verdict option" where
  "node_verdict P sums alloc t n = snd (check_node P sums alloc n t)"

lemma check_call_ok:
  assumes "same_roots t u"
  shows "snd (check_call P sums alloc c u) = snd (check_call P sums alloc c t) \<and> same_roots t (fst (check_call P sums alloc c u))"
proof -
  have ok: "tracker_ok t" "tracker_ok u" using assms by (auto simp: same_roots_def)
  have e: "snd (arg_escapes alloc as ps u) = snd (arg_escapes alloc as ps t)" "same_roots t (fst (arg_escapes alloc as ps u))" for as ps
    using arg_escapes_ok [OF ok(1), of alloc as ps] arg_escapes_ok [OF ok(2), of alloc as ps] matched_cong [OF assms]
      same_roots_trans [OF assms] by auto
  show ?thesis
  proof (cases "static_callee c")
    case (Some g)
    show ?thesis
    proof (cases "sums g")
      case s: (Some s)
      obtain u1 b where u1: "arg_escapes alloc (call_args c) (fs_Params s) u = (u1, b)" by force
      obtain t1 b' where t1: "arg_escapes alloc (call_args c) (fs_Params s) t = (t1, b')" by force
      have "b = b'" "same_roots t u1" using e [of "call_args c" "fs_Params s"] u1 t1 by auto
      then show ?thesis using Some s u1 t1 assms by (cases b') (auto simp: check_call_def Let_def)
    qed (use Some assms in \<open>auto simp: check_call_def Let_def\<close>)
  qed (use assms in \<open>auto simp: check_call_def Let_def\<close>)
qed

lemma check_node_ok:
  assumes "same_roots t u"
  shows "snd (check_node P sums alloc n u) = node_verdict P sums alloc t n \<and> same_roots t (fst (check_node P sums alloc n u))"
proof (cases n)
  case (InstrNode i)
  then show ?thesis using assms check_call_ok [OF assms, of P sums alloc]
    by (cases "in_op i") (auto simp: node_verdict_def)
qed (use assms in \<open>auto simp: node_verdict_def\<close>)

lemma check_call_state: "snd (check_call P sums alloc c t) = Some (s, v, r) \<Longrightarrow> s \<noteq> Safe"
  by (auto simp: check_call_def Let_def split: if_splits option.splits prod.splits bool.splits)

lemma node_verdict_state: "node_verdict P sums alloc t n = Some (s, v, r) \<Longrightarrow> s \<noteq> Safe"
  by (cases n) (auto simp: node_verdict_def dest: check_call_state split: if_splits opcode.splits)

interpretation escape: searching "graph_succs g" "check_node P sums alloc" "node_verdict P sums alloc t" "\<lambda>_. True"
    "\<lambda>_. same_roots t"
  for g P sums alloc t
  by unfold_locales (auto simp: check_node_ok)

lemma graph_nodes:
  assumes "graph_ok g"
  shows "\<exists>N. finite N \<and> n \<in> N \<and> card N \<le> Suc (length (lg_edges g)) \<and> (\<forall>x \<in> N. set (graph_succs g x) \<subseteq> N)"
proof (intro exI conjI)
  let ?N = "insert n (set (map ge_to (lg_edges g)))"
  show "finite ?N" "n \<in> ?N" by auto
  have "card (set (map ge_to (lg_edges g))) \<le> length (lg_edges g)" using card_length [of "map ge_to (lg_edges g)"] by simp
  then show "card ?N \<le> Suc (length (lg_edges g))" by (simp add: card_insert_if)
  show "\<forall>x \<in> ?N. set (graph_succs g x) \<subseteq> ?N" using assms by (auto simp: graph_succs_def graph_ok_def)
qed

text \<open>Nothing an allocation flows to in the graph lets it escape.\<close>

definition stays :: "ssa_program \<Rightarrow> summaries \<Rightarrow> trace \<Rightarrow> vid \<Rightarrow> bool" where
  "stays P sums tr alloc \<longleftrightarrow>
     (\<forall>n. reach (graph_succs (fst tr)) (ValNode alloc) n \<longrightarrow> node_verdict P sums alloc (snd tr) n = None)"

lemma CheckEscape_exact:
  assumes "graph_ok g" "same_roots t u"
  shows "\<exists>u' state reason viols path. CheckEscape P sums g alloc u = Some (u', state, reason, viols, path) \<and> same_roots t u' \<and>
    (state = Safe \<longleftrightarrow> stays P sums (g, t) alloc) \<and>
    (state \<noteq> Safe \<longrightarrow> (\<exists>ns n viol. path = map (node_name g) (ns @ [n]) \<and> hd (ns @ [n]) = ValNode alloc \<and>
       path_of (graph_succs g) (ns @ [n]) \<and> viols = [viol] \<and> node_verdict P sums alloc t n = Some (state, viol, reason)))"
proof -
  obtain N where N: "finite N" "ValNode alloc \<in> N" "card N \<le> Suc (length (lg_edges g))" "\<forall>x \<in> N. set (graph_succs g x) \<subseteq> N"
    using graph_nodes [OF assms(1), of "ValNode alloc"] by blast
  obtain st r where d: "dfs (graph_succs g) (check_node P sums alloc) (Suc (length (lg_edges g))) (ValNode alloc) (start u) = Some (st, r)"
    and s: "same_roots t (se_data st)"
    and c: "case r of
       None \<Rightarrow> (\<forall>m. reach (graph_succs g) (ValNode alloc) m \<longrightarrow> node_verdict P sums alloc t m = None) \<and>
         {m. reach (graph_succs g) (ValNode alloc) m} \<subseteq> set (se_visited st) \<and> se_path st = []
     | Some v \<Rightarrow> (\<exists>xs m. se_path st = xs @ [m] \<and> node_verdict P sums alloc t m = Some v \<and> hd (xs @ [m]) = ValNode alloc \<and>
         path_of (graph_succs g) (xs @ [m]))"
    using escape.dfs_correct [OF N(1,4,2,3) TrueI assms(2)] by blast
  show ?thesis
  proof (cases r)
    case None
    with d s c show ?thesis by (simp add: CheckEscape_def stays_def)
  next
    case (Some v)
    obtain state viol reason where v: "v = (state, viol, reason)" by (cases v)
    obtain xs m where p: "se_path st = xs @ [m]" "node_verdict P sums alloc t m = Some v" "hd (xs @ [m]) = ValNode alloc"
      "path_of (graph_succs g) (xs @ [m])" using c Some by auto
    have "state \<noteq> Safe" using p(2) node_verdict_state v by blast
    moreover have "reach (graph_succs g) (ValNode alloc) m"
      using path_of_reach [of "graph_succs g" "ValNode alloc" "tl (xs @ [m])" m] p(3,4) by (cases xs) auto
    then have "\<not> stays P sums (g, t) alloc" using p(2) v by (auto simp: stays_def)
    ultimately show ?thesis using d s p Some v by (auto simp: CheckEscape_def)
  qed
qed

section \<open>Every allocation has its report\<close>

text \<open>
  A report that is not safe names a node: the path leads from the allocation along edges of the graph to the node
  whose verdict it gives.
\<close>

definition explained :: "ssa_program \<Rightarrow> summaries \<Rightarrow> trace \<Rightarrow> vid \<Rightarrow> lifetime_report \<Rightarrow> bool" where
  "explained P sums tr alloc rep \<longleftrightarrow>
     (\<exists>ns n viol. lr_References rep = map (node_name (fst tr)) (ns @ [n]) \<and> hd (ns @ [n]) = ValNode alloc \<and>
        path_of (graph_succs (fst tr)) (ns @ [n]) \<and> lr_Violations rep = [viol] \<and>
        node_verdict P sums alloc (snd tr) n = Some (lr_State rep, viol, lr_Reason rep))"

definition report_ok :: "ssa_program \<Rightarrow> summaries \<Rightarrow> trace \<Rightarrow> vid \<Rightarrow> lifetime_report \<Rightarrow> bool" where
  "report_ok P sums tr alloc rep \<longleftrightarrow>
     (lr_State rep = Safe \<longleftrightarrow> stays P sums tr alloc) \<and> (lr_State rep \<noteq> Safe \<longrightarrow> explained P sums tr alloc rep)"

abbreviation object_of :: "ssa_program \<Rightarrow> fid \<Rightarrow> instr \<Rightarrow> object_id" where
  "object_of P f i \<equiv> (fn_name (pr_func P f), in_pos i)"

lemma report_alloc_ok:
  assumes "graph_ok g" "same_roots t u"
  shows "\<exists>u' rep vs. report_alloc P sums f g i (u, res) =
      Some (u', res\<lparr>lf_Reports := (lf_Reports res)(object_of P f i \<mapsto> rep), lf_Violations := lf_Violations res @ vs\<rparr>) \<and>
    same_roots t u' \<and> report_ok P sums (g, t) (instr_value i) rep \<and> (vs = [] \<longleftrightarrow> lr_State rep = Safe)"
proof -
  obtain u' state reason viols path where C: "CheckEscape P sums g (instr_value i) u = Some (u', state, reason, viols, path)"
    "same_roots t u'" "state = Safe \<longleftrightarrow> stays P sums (g, t) (instr_value i)"
    "state \<noteq> Safe \<longrightarrow> (\<exists>ns n viol. path = map (node_name g) (ns @ [n]) \<and> hd (ns @ [n]) = ValNode (instr_value i) \<and>
       path_of (graph_succs g) (ns @ [n]) \<and> viols = [viol] \<and> node_verdict P sums (instr_value i) t n = Some (state, viol, reason))"
    using CheckEscape_exact [OF assms, of P sums "instr_value i"] by (elim exE conjE) (rule that; assumption)
  let ?rep = "\<lparr>lr_Function = f, lr_Region = region_at (BuildRegions (pr_func P f)) (in_pos i), lr_OwnerScope = fn_name (pr_func P f),
               lr_State = state, lr_Reason = reason, lr_Violations = viols, lr_References = path\<rparr>"
  have "report_ok P sums (g, t) (instr_value i) ?rep"
    using C(3,4) by (simp add: report_ok_def explained_def)
  moreover have "report_alloc P sums f g i (u, res) =
      Some (u', res\<lparr>lf_Reports := (lf_Reports res)(object_of P f i \<mapsto> ?rep),
        lf_Violations := lf_Violations res @ (if state \<noteq> Safe then [(object_of P f i, reason)] else [])\<rparr>)"
    by (simp add: report_alloc_def Let_def C(1) del: fun_upd_apply)
  ultimately show ?thesis using C(2) by force
qed

lemma report_allocs_ok:
  assumes "graph_ok g"
  shows "same_roots t u \<Longrightarrow> \<exists>u' res'. fold_option (report_alloc P sums f g) is (u, res) = Some (u', res') \<and>
    (distinct (map in_pos is) \<longrightarrow> (\<forall>i \<in> set is. \<exists>rep. lf_Reports res' (object_of P f i) = Some rep \<and>
        report_ok P sums (g, t) (instr_value i) rep)) \<and>
    (\<forall>oid. oid \<notin> object_of P f ` set is \<longrightarrow> lf_Reports res' oid = lf_Reports res oid)"
proof (induction "is" arbitrary: u res)
  case (Cons i js)
  obtain u1 rep vs where 1: "report_alloc P sums f g i (u, res) =
      Some (u1, res\<lparr>lf_Reports := (lf_Reports res)(object_of P f i \<mapsto> rep), lf_Violations := lf_Violations res @ vs\<rparr>)"
    "same_roots t u1" "report_ok P sums (g, t) (instr_value i) rep"
    using report_alloc_ok [OF assms Cons.prems, of P sums f i res] by (elim exE conjE) (rule that; assumption)
  let ?res = "res\<lparr>lf_Reports := (lf_Reports res)(object_of P f i \<mapsto> rep), lf_Violations := lf_Violations res @ vs\<rparr>"
  obtain u2 res2 where 2: "fold_option (report_alloc P sums f g) js (u1, ?res) = Some (u2, res2)"
    "distinct (map in_pos js) \<longrightarrow> (\<forall>i \<in> set js. \<exists>rep. lf_Reports res2 (object_of P f i) = Some rep \<and>
        report_ok P sums (g, t) (instr_value i) rep)"
    "\<forall>oid. oid \<notin> object_of P f ` set js \<longrightarrow> lf_Reports res2 oid = lf_Reports ?res oid"
    using Cons.IH [OF 1(2), of ?res] by (elim exE conjE) (rule that; assumption)
  have "fold_option (report_alloc P sums f g) (i # js) (u, res) = Some (u2, res2)"
    using 1(1) 2(1) by (simp del: fun_upd_apply)
  moreover have "lf_Reports res2 (object_of P f i) = Some rep" if "distinct (map in_pos (i # js))"
    using 2(3) that by (auto simp: image_iff)
  moreover have "\<forall>oid. oid \<notin> object_of P f ` set (i # js) \<longrightarrow> lf_Reports res2 oid = lf_Reports res oid"
    using 2(3) by auto
  ultimately show ?case using 2(2) 1(3) by auto
qed simp

lemma analyzeFunc_reports:
  "\<exists>res. analyzeFunc P sums f = Some res \<and>
    (distinct (map in_pos (fn_allocs (pr_func P f))) \<longrightarrow> (\<forall>i \<in> set (fn_allocs (pr_func P f)).
       \<exists>rep. lf_Reports res (object_of P f i) = Some rep \<and> report_ok P sums (build_trace P (pr_func P f)) (instr_value i) rep)) \<and>
    (\<forall>oid. oid \<notin> object_of P f ` set (fn_allocs (pr_func P f)) \<longrightarrow> lf_Reports res oid = None)"
proof (cases "fn_blocks (pr_func P f) = []")
  case True
  then show ?thesis by (simp add: analyzeFunc_def fn_allocs_def fn_instrs_def empty_result_def)
next
  case False
  obtain g t where b: "build_trace P (pr_func P f) = (g, t)" by force
  then have ok: "graph_ok g" "same_roots t t"
    using build_trace_ok [of P "pr_func P f"] by (auto simp: trace_ok_def same_roots_refl)
  have "lf_Reports empty_result = Map.empty" by (simp add: empty_result_def)
  then show ?thesis
    using report_allocs_ok [OF ok, of P sums f "fn_allocs (pr_func P f)" empty_result] False b
    by (auto simp: analyzeFunc_def)
qed

text \<open>C31. The lifetime analysis of a function always returns, and its reports are exact for the flow it has
  recorded: when the allocations have different positions, the report of an allocation says Safe just when no node
  the allocation flows to makes it escape, and otherwise it shows a path of the graph from the allocation to such a
  node, with that node's state, violation and reason. Queries of the ownership tracker between the searches change
  no answer.\<close>

theorem analyzeFunc_exact:
  assumes "distinct (map in_pos (fn_allocs (pr_func P f)))"
  shows "\<exists>res. analyzeFunc P sums f = Some res \<and>
    (\<forall>i \<in> set (fn_allocs (pr_func P f)). \<exists>rep. lf_Reports res (fn_name (pr_func P f), in_pos i) = Some rep \<and>
       (lr_State rep = Safe \<longleftrightarrow> stays P sums (build_trace P (pr_func P f)) (instr_value i)) \<and>
       (lr_State rep \<noteq> Safe \<longrightarrow> explained P sums (build_trace P (pr_func P f)) (instr_value i) rep))"
  using analyzeFunc_reports [of P sums f] assms by (auto simp: report_ok_def)

section \<open>Examples\<close>

definition ex_value :: "value_kind \<Rightarrow> ssa_type \<Rightarrow> ssa_value" where
  "ex_value k ty = \<lparr>va_name = ''t'', va_kind = k, va_type = ty, va_typeString = ''*T'', va_parent = Some ''f'', va_pos = 0\<rparr>"

text \<open>Value 0 is a global, 3 a slice, the others are pointers. The body is one block.\<close>

definition ex_func :: "instr list \<Rightarrow> ssa_func" where
  "ex_func is = \<lparr>fn_name = ''f'', fn_hasPkg = True, fn_pos = 1, fn_params = [], fn_results = 1,
     fn_blocks = [\<lparr>bl_index = 0, bl_instrs = is\<rparr>]\<rparr>"

definition ex_prog :: "instr list \<Rightarrow> ssa_program" where
  "ex_prog is = \<lparr>pr_packages = [[FnTree ''f'' []]], pr_func = (\<lambda>_. ex_func is),
     pr_value = (\<lambda>v. ex_value (if v = 0 then GlobalValue else OtherValue) (PointerType 0)), pr_elem = (\<lambda>_. BasicType ''int'')\<rparr>"

definition ins :: "nat \<Rightarrow> vid option \<Rightarrow> opcode \<Rightarrow> instr" where
  "ins n v p = \<lparr>in_id = n, in_val = v, in_pos = int n, in_op = p\<rparr>"

definition ex_states :: "instr list \<Rightarrow> summaries \<Rightarrow> (LifetimeState \<times> ViolationType list) option" where
  "ex_states is sums = Option.bind (analyzeFunc (ex_prog is) sums ''f'') (\<lambda>res.
     map_option (\<lambda>r. (lr_State r, lr_Violations r)) (lf_Reports res (''f'', 1)))"

text \<open>\<^verbatim>\<open>p := new(T); q := new(T); return p\<close>: one allocation is returned, the other is not.\<close>

lemma analyzeFunc_exact_witness:
  "\<exists>res rp rq. analyzeFunc (ex_prog [ins 1 (Some 1) IAlloc, ins 2 (Some 2) IAlloc, ins 3 None (IReturn [1])]) Map.empty ''f'' = Some res \<and>
     lf_Reports res (''f'', 1) = Some rp \<and> lf_Reports res (''f'', 2) = Some rq"
  using analyzeFunc_exact [of "ex_prog [ins 1 (Some 1) IAlloc, ins 2 (Some 2) IAlloc, ins 3 None (IReturn [1])]" "''f''" Map.empty]
  by (auto simp: ex_prog_def ex_func_def fn_allocs_def fn_instrs_def ins_def)

lemma ex_returned: "ex_states [ins 1 (Some 1) IAlloc, ins 2 (Some 2) IAlloc, ins 3 None (IReturn [1])] Map.empty = Some (Unsafe, [EscapedReturn])"
  by code_simp

lemma ex_global: "ex_states [ins 1 (Some 1) IAlloc, ins 2 None (IStore 0 1), ins 3 None (IReturn [])] Map.empty = Some (Unsafe, [EscapedGlobal])"
  by code_simp

text \<open>
  \<^verbatim>\<open>p := new(T); m[k] = p\<close>: the instruction that updates a map is none of those the second pass traces, so the
  allocation counts as one that stays, whatever the map is.
\<close>

lemma map_update_is_not_followed:
  "ex_states [ins 1 (Some 1) IAlloc, ins 2 None (IOther [0, 4, 1]), ins 3 None (IReturn [])] Map.empty = Some (Safe, [])"
  by code_simp

text \<open>
  \<^verbatim>\<open>p := new(T); defer g(p)\<close>: the flow reaches the defer statement, but the search asks nothing of it; a call of
  the same unknown function is not safe.
\<close>

lemma defer_is_not_checked:
  "ex_states [ins 1 (Some 1) IAlloc, ins 2 None (IDefer (SsaCall 5 [1] None))] Map.empty = Some (Safe, [])"
  "ex_states [ins 1 (Some 1) IAlloc, ins 2 (Some 6) (ICall (SsaCall 5 [1] None))] Map.empty = Some (Unknown, [UnknownCall])"
  by code_simp+

text \<open>
  \<^verbatim>\<open>q := phi(p, r); sink(q)\<close> where the parameter of \<^verbatim>\<open>sink\<close> escapes: an alias has one source, that of the
  last edge, so the argument does not match the first allocation, and that one counts as safe.
\<close>

definition sink_summary :: summaries where
  "sink_summary = [''f'' \<mapsto> \<lparr>fs_Function = ''f'', fs_HasBody = True, fs_IsExternal = False,
     fs_Params = [\<lparr>ps_Index = 0, ps_Name = ''x'', ps_Escapes = True, ps_Returned = False, ps_Stored = True\<rparr>], fs_Returns = []\<rparr>]"

lemma phi_argument_is_not_matched:
  "ex_states [ins 1 (Some 1) IAlloc, ins 2 (Some 2) IAlloc, ins 3 (Some 3) (IPhi [1, 2]),
     ins 4 None (ICall (SsaCall 5 [3] (Some ''f'')))] sink_summary = Some (Safe, [])"
  "ex_states [ins 1 (Some 1) IAlloc, ins 2 (Some 2) IAlloc, ins 3 (Some 3) (IPhi [2, 1]),
     ins 4 None (ICall (SsaCall 5 [3] (Some ''f'')))] sink_summary = Some (Unsafe, [UnknownCall])"
  by code_simp+

end
