(* ===== verification/Decimal.thy ===== *)
theory Decimal
  imports Prelude
begin

text \<open>
  Decimal numbers as the standard library prints them: \<^verbatim>\<open>strconv.Itoa\<close> and the verb \<^verbatim>\<open>%d\<close>, with their inverse.
  Names the rewriter makes up and the telemetry are printed with them. Two tests of strings stand here too.
\<close>

section \<open>Strings\<close>

text \<open>\<^verbatim>\<open>strings.HasPrefix\<close> and \<^verbatim>\<open>strings.Contains\<close>\<close>

definition HasPrefix :: "string \<Rightarrow> string \<Rightarrow> bool" where
  "HasPrefix s p \<longleftrightarrow> take (length p) s = p"

fun contains :: "string \<Rightarrow> string \<Rightarrow> bool" where
  "contains [] sub = (sub = [])"
| "contains (c # s) sub = (HasPrefix (c # s) sub \<or> contains s sub)"

section \<open>Printing\<close>

definition digit :: "nat \<Rightarrow> char" where
  "digit d = ''0123456789'' ! d"

fun itoa :: "nat \<Rightarrow> string" where
  "itoa n = (if n < 10 then [digit n] else itoa (n div 10) @ [digit (n mod 10)])"

declare itoa.simps [simp del]

text \<open>\<^verbatim>\<open>%d\<close> of a signed number.\<close>

definition fmt_d :: "int \<Rightarrow> string" where
  "fmt_d v = (if v < 0 then ''-'' @ itoa (nat (- v)) else itoa (nat v))"

section \<open>Reading back\<close>

fun dec_val :: "string \<Rightarrow> nat" where
  "dec_val s = foldl (\<lambda>n c. 10 * n + (of_char c - 48)) 0 s"

lemma of_char_digit: "d < 10 \<Longrightarrow> of_char (digit d) = 48 + d"
proof -
  assume "d < 10"
  then have "d \<in> {0, 1, 2, 3, 4, 5, 6, 7, 8, 9}" by auto
  then show ?thesis by (auto simp: digit_def)
qed

lemma dec_val_itoa: "dec_val (itoa n) = n"
proof (induction n rule: itoa.induct)
  case (1 n)
  show ?case
  proof (cases "n < 10")
    case True
    then show ?thesis by (simp add: itoa.simps [of n] of_char_digit)
  next
    case False
    then have "itoa n = itoa (n div 10) @ [digit (n mod 10)]" by (simp add: itoa.simps [of n])
    with 1 [OF False] show ?thesis by (simp add: of_char_digit)
  qed
qed

lemma itoa_inj: "itoa m = itoa n \<longleftrightarrow> m = n"
  using dec_val_itoa by metis

lemma itoa_not_empty: "itoa n \<noteq> []"
  by (subst itoa.simps) simp

definition digit_chars :: "char set" where "digit_chars = set ''0123456789''"

lemma itoa_digits: "set (itoa n) \<subseteq> digit_chars"
proof (induction n rule: itoa.induct)
  case (1 n)
  have d: "digit k \<in> digit_chars" if "k < 10" for k
    using that nth_mem [of k "''0123456789''"] by (simp add: digit_def digit_chars_def)
  show ?case
  proof (cases "n < 10")
    case True
    then show ?thesis using d [of n] by (simp add: itoa.simps [of n])
  next
    case False
    then show ?thesis using 1 d [of "n mod 10"] by (simp add: itoa.simps [of n])
  qed
qed

definition parse_d :: "string \<Rightarrow> int" where
  "parse_d s = (case s of c # r \<Rightarrow> if c = CHR ''-'' then - int (dec_val r) else int (dec_val s) | [] \<Rightarrow> 0)"

lemma parse_fmt_d: "parse_d (fmt_d v) = v"
proof (cases "v < 0")
  case True
  then show ?thesis by (simp add: fmt_d_def parse_d_def dec_val_itoa del: dec_val.simps)
next
  case False
  obtain c r where c: "itoa (nat v) = c # r" using itoa_not_empty by (cases "itoa (nat v)") auto
  then have "c \<noteq> CHR ''-''" using itoa_digits [of "nat v"] by (auto simp: digit_chars_def)
  then show ?thesis using False c dec_val_itoa [of "nat v"] by (simp add: fmt_d_def parse_d_def del: dec_val.simps)
qed

lemma fmt_d_chars: "set (fmt_d v) \<subseteq> insert CHR ''-'' digit_chars"
  using itoa_digits [of "nat v"] itoa_digits [of "nat (- v)"] by (auto simp: fmt_d_def)

end
