(* ===== verification/Escape.thy ===== *)
theory Escape
  imports Lifetime Decimal "HOL-Library.AList"
begin

text \<open>
  From the lifetimes to the decision where an allocation may live: the discovery of the allocations, the lifetime
  analysis of all packages, the classification, the pipeline that runs them, and the reports of the vet analyzer
  (\<^verbatim>\<open>internal/analysis/allocation\<close>, \<^verbatim>\<open>lifetime\<close>, \<^verbatim>\<open>escape\<close>, \<^verbatim>\<open>pipeline\<close>, \<^verbatim>\<open>vet\<close>).
\<close>

section \<open>Allocations\<close>

record allocation =
  al_ID :: nat
  al_Type :: ssa_type
  al_Function :: fid
  al_Instruction :: instr

text \<open>The allocations by ID, in the order of discovery, with the counter that gives the IDs.\<close>

type_synonym allocations = "(nat \<times> allocation) list"

definition discover_instr :: "ssa_program \<Rightarrow> fid \<Rightarrow> instr \<Rightarrow> allocations \<times> nat \<Rightarrow> allocations \<times> nat" where
  "discover_instr P f i st = (case st of (res, counter) \<Rightarrow>
     if is_alloc (in_op i) then
       (AList.update (counter + 1)
          \<lparr>al_ID = counter + 1, al_Type = va_type (pr_value P (instr_value i)), al_Function = f, al_Instruction = i\<rparr> res,
        counter + 1)
     else (res, counter))"

definition discover_func :: "ssa_program \<Rightarrow> fid \<Rightarrow> allocations \<times> nat \<Rightarrow> allocations \<times> nat" where
  "discover_func P f st = fold (discover_instr P f) (fn_instrs (pr_func P f)) st"

text \<open>The members of a package that are functions; methods and function literals are none.\<close>

fun tree_root :: "fn_tree \<Rightarrow> fid" where
  "tree_root (FnTree f anons) = f"


definition AnalyzeAllocations :: "ssa_program \<Rightarrow> allocations" where
  "AnalyzeAllocations P = fst (fold (fold (\<lambda>t. discover_func P (tree_root t))) (pr_packages P) ([], 0))"

definition GetAllocation :: "allocations \<Rightarrow> nat \<Rightarrow> allocation option" where
  "GetAllocation res n = map_of res n"

section \<open>Lifetimes of a program\<close>

definition merge_result :: "lifetime_result \<Rightarrow> lifetime_result \<Rightarrow> lifetime_result" where
  "merge_result res new =
     res\<lparr>lf_Reports := lf_Reports res ++ lf_Reports new, lf_Violations := lf_Violations res @ lf_Violations new\<rparr>"

definition analyzePkg :: "ssa_program \<Rightarrow> summaries \<Rightarrow> fn_tree list \<Rightarrow> lifetime_result option" where
  "analyzePkg P sums pkg =
     fold_option (\<lambda>t res. map_option (merge_result res) (analyzeFunc P sums (tree_root t))) pkg empty_result"

definition AnalyzeLifetimes :: "ssa_program \<Rightarrow> summaries \<Rightarrow> lifetime_result option" where
  "AnalyzeLifetimes P sums =
     map_option (\<lambda>res. if lf_Violations res \<noteq> [] then res\<lparr>lf_State := Unsafe\<rparr> else res)
       (fold_option (\<lambda>pkg res. map_option (merge_result res) (analyzePkg P sums pkg)) (pr_packages P) empty_result)"

section \<open>Classification\<close>

datatype Decision = Heap | Arena | Unknown

datatype EscapeReason =
    ReasonNone | EscapesReturn | EscapesClosure | EscapesGoroutine | EscapesChannel | EscapesGlobal | EscapesInterface
  | EscapesMap | EscapesSlice | EscapesExternalCall | EscapesUnsafe | UnknownLifetime

record allocation_decision =
  ad_Allocation :: allocation
  ad_Decision :: Decision
  ad_Reason :: EscapeReason
  ad_Path :: "string list"

definition allocatedElemType :: "ssa_program \<Rightarrow> ssa_type \<Rightarrow> ssa_type option" where
  "allocatedElemType P t =
     (case t of
        PointerType e \<Rightarrow> Some (pr_elem P e)
      | SliceType e \<Rightarrow> Some (pr_elem P e)
      | MapType \<Rightarrow> None
      | ChanType \<Rightarrow> None
      | _ \<Rightarrow> Some t)"

definition elem_HasPointers :: "ssa_type option \<Rightarrow> bool" where
  "elem_HasPointers t = (case t of None \<Rightarrow> False | Some ty \<Rightarrow> type_HasPointers ty)"

fun mapViolation :: "ViolationType list \<Rightarrow> EscapeReason" where
  "mapViolation [] = UnknownLifetime"
| "mapViolation (v # vs) =
     (case v of
        EscapedReturn \<Rightarrow> EscapesReturn
      | EscapedClosure \<Rightarrow> EscapesClosure
      | EscapedGlobal \<Rightarrow> EscapesGlobal
      | EscapedInterface \<Rightarrow> EscapesInterface
      | EscapedChannel \<Rightarrow> EscapesChannel
      | EscapedMap \<Rightarrow> EscapesMap
      | EscapedSlice \<Rightarrow> EscapesSlice
      | EscapedReflection \<Rightarrow> EscapesUnsafe
      | EscapedUnsafe \<Rightarrow> EscapesUnsafe
      | UnknownCall \<Rightarrow> EscapesExternalCall
      | _ \<Rightarrow> UnknownLifetime)"

definition classify_report :: "ssa_program \<Rightarrow> allocation \<Rightarrow> lifetime_report option \<Rightarrow> allocation_decision" where
  "classify_report P a report =
     (case report of
        None \<Rightarrow> \<lparr>ad_Allocation = a, ad_Decision = Unknown, ad_Reason = UnknownLifetime, ad_Path = []\<rparr>
      | Some r \<Rightarrow>
          (case (case lr_State r of
             Safe \<Rightarrow> if elem_HasPointers (allocatedElemType P (al_Type a)) then (Heap, EscapesUnsafe) else (Arena, ReasonNone)
           | Unsafe \<Rightarrow> (Heap, mapViolation (lr_Violations r))
           | LifetimeState.Unknown \<Rightarrow> (Unknown, mapViolation (lr_Violations r))) of
             (dec, reason) \<Rightarrow> \<lparr>ad_Allocation = a, ad_Decision = dec, ad_Reason = reason, ad_Path = lr_References r\<rparr>))"

text \<open>Here the decisions come in the order of the IDs; the source ranges over a map.\<close>

definition Classify :: "ssa_program \<Rightarrow> allocations \<Rightarrow> lifetime_result \<Rightarrow> allocation_decision list" where
  "Classify P allocs lifetimes =
     map (\<lambda>(_, a). classify_report P a
        (lf_Reports lifetimes (fn_name (pr_func P (al_Function a)), in_pos (al_Instruction a)))) allocs"

section \<open>The pipeline\<close>

record analysis_result =
  an_Allocations :: "allocation list"
  an_Lifetimes :: lifetime_result
  an_Decisions :: "allocation_decision list"

definition Run :: "ssa_program \<Rightarrow> analysis_result option" where
  "Run P =
     Option.bind (AnalyzeSummaries P) (\<lambda>sums.
       let allocRes = AnalyzeAllocations P in
       Option.bind (AnalyzeLifetimes P sums) (\<lambda>lifetimeRes.
         Some \<lparr>an_Allocations = map snd allocRes, an_Lifetimes = lifetimeRes,
               an_Decisions = Classify P allocRes lifetimeRes\<rparr>))"

section \<open>Vet\<close>

datatype vet_report =
    VetTrusted | VetPragmaVerified | VetSafe | VetPragmaViolation EscapeReason | VetUnsafe EscapeReason
  | VetPragmaUnproven | VetUnknown

text \<open>A comment with its file and line.\<close>

type_synonym comment = "string \<times> string \<times> nat"

definition trim_space_char :: "char \<Rightarrow> bool" where
  "trim_space_char c \<longleftrightarrow> c \<in> set [CHR '' '', CHR 0x09, CHR 0x0A, CHR 0x0B, CHR 0x0C, CHR 0x0D]"

definition TrimSpace :: "string \<Rightarrow> string" where
  "TrimSpace s = rev (dropWhile trim_space_char (rev (dropWhile trim_space_char s)))"

text \<open>A pragma holds for its own line and the next. The two tables are the sets of keys.\<close>

definition scan_comment :: "comment \<Rightarrow> (string \<times> nat) set \<times> (string \<times> nat) set \<Rightarrow> (string \<times> nat) set \<times> (string \<times> nat) set" where
  "scan_comment c st = (case (c, st) of ((txt, file, line), (pragmas, suppressed)) \<Rightarrow>
     let s = TrimSpace txt; keys = {(file, line), (file, line + 1)} in
     (if HasPrefix s ''//rustygo:arena'' \<or> HasPrefix s ''//rustygo:scoped'' then pragmas \<union> keys else pragmas,
      if HasPrefix s ''//rustygo:trust'' \<or> HasPrefix s ''//rustygo:ignore'' then suppressed \<union> keys else suppressed))"

definition vet_decision :: "bool \<Rightarrow> bool \<Rightarrow> bool \<Rightarrow> allocation_decision \<Rightarrow> vet_report option" where
  "vet_decision violationsOnly hasPragma isSuppressed dec =
     (if isSuppressed then (if violationsOnly then None else Some VetTrusted)
      else case ad_Decision dec of
        Arena \<Rightarrow>
          (if hasPragma then (if violationsOnly then None else Some VetPragmaVerified)
           else if violationsOnly then None else Some VetSafe)
      | Heap \<Rightarrow>
          (if hasPragma then Some (VetPragmaViolation (ad_Reason dec))
           else if violationsOnly then None else Some (VetUnsafe (ad_Reason dec)))
      | Unknown \<Rightarrow>
          (if hasPragma then Some VetPragmaUnproven else if violationsOnly then None else Some VetUnknown))"

text \<open>The positions of the file set are a parameter: the file and the line of a position.\<close>

definition vet_run :: "(int \<Rightarrow> string \<times> nat) \<Rightarrow> bool \<Rightarrow> comment list \<Rightarrow> ssa_program \<Rightarrow> (instr \<times> vet_report) list option" where
  "vet_run position violationsOnly comments P =
     map_option (\<lambda>res.
       case fold scan_comment comments ({}, {}) of (pragmas, suppressed) \<Rightarrow>
         List.map_filter (\<lambda>dec.
           let i = al_Instruction (ad_Allocation dec); key = position (in_pos i) in
           map_option (Pair i) (vet_decision violationsOnly (key \<in> pragmas) (key \<in> suppressed) dec))
           (an_Decisions res))
       (Run P)"

fun reasonString :: "EscapeReason \<Rightarrow> string" where
  "reasonString EscapesReturn = ''Returned from function scope''"
| "reasonString EscapesClosure = ''Captured by closure''"
| "reasonString EscapesGoroutine = ''Captured by goroutine''"
| "reasonString EscapesChannel = ''Sent through channel''"
| "reasonString EscapesGlobal = ''Stored in global variable''"
| "reasonString EscapesInterface = ''Converted to interface value''"
| "reasonString EscapesMap = ''Stored in map''"
| "reasonString EscapesSlice = ''Escaped via slice''"
| "reasonString EscapesExternalCall = ''Passed to external function call''"
| "reasonString EscapesUnsafe = ''Unsafe or reflection operation''"
| "reasonString ReasonNone = ''Unknown lifetime''"
| "reasonString UnknownLifetime = ''Unknown lifetime''"

text \<open>The message, given the type of the allocation as text.\<close>

fun vet_message :: "string \<Rightarrow> vet_report \<Rightarrow> string" where
  "vet_message ty VetTrusted = ''[TRUSTED] Allocation of '' @ [CHR 0x27] @ ty @ [CHR 0x27] @ '' exempted via pragma''"
| "vet_message ty VetPragmaVerified =
     ''[PRAGMA VERIFIED] Allocation of '' @ [CHR 0x27] @ ty @ [CHR 0x27] @ '' adheres to //rustygo:arena scope''"
| "vet_message ty VetSafe = ''[SAFE] Allocation of '' @ [CHR 0x27] @ ty @ [CHR 0x27] @ '' is arena-eligible''"
| "vet_message ty (VetPragmaViolation r) =
     ''[PRAGMA VIOLATION] Allocation of '' @ [CHR 0x27] @ ty @ [CHR 0x27] @ '' annotated with //rustygo:arena escapes -> Reason: '' @ reasonString r"
| "vet_message ty (VetUnsafe r) =
     ''[UNSAFE] Allocation of '' @ [CHR 0x27] @ ty @ [CHR 0x27] @ '' escapes -> Reason: '' @ reasonString r"
| "vet_message ty VetPragmaUnproven =
     ''[PRAGMA VIOLATION] Allocation of '' @ [CHR 0x27] @ ty @ [CHR 0x27] @ '' annotated with //rustygo:arena has unproven lifetime''"
| "vet_message ty VetUnknown = ''[UNKNOWN] Allocation of '' @ [CHR 0x27] @ ty @ [CHR 0x27] @ '' lifetime unproven''"

section \<open>The list of allocations\<close>










section \<open>The reports of all functions together\<close>

definition merged :: "('k \<rightharpoonup> 'r) \<Rightarrow> ('k \<rightharpoonup> 'r) list \<Rightarrow> ('k \<rightharpoonup> 'r)" where
  "merged m ms = foldl (++) m ms"

lemma merged_simps [simp]: "merged m [] = m" "merged m (x # xs) = merged (m ++ x) xs"
  by (simp_all add: merged_def)






lemma merge_reports [simp]: "lf_Reports (merge_result res new) = lf_Reports res ++ lf_Reports new"
  by (simp add: merge_result_def)





section \<open>The decision\<close>



lemma classify_allocation [simp]: "ad_Allocation (classify_report P a r) = a"
  by (cases r) (auto simp: classify_report_def split: LifetimeState.splits)



text \<open>The decisions of that program.\<close>

lemma Run_example:
  "map_option (\<lambda>res. map (\<lambda>d. (ad_Decision d, ad_Reason d)) (an_Decisions res))
     (Run (ex_prog [ins 1 (Some 1) IAlloc, ins 2 (Some 2) IAlloc, ins 3 None (IReturn [1])])) =
   Some [(Heap, EscapesReturn), (Arena, ReasonNone)]"
  by code_simp

section \<open>Vet in enforcement mode\<close>

definition has_pragma :: "comment list \<Rightarrow> string \<times> nat \<Rightarrow> string list \<Rightarrow> bool" where
  "has_pragma comments key ps \<longleftrightarrow>
     (\<exists>(txt, file, line) \<in> set comments. fst key = file \<and> snd key \<in> {line, line + 1} \<and>
        (\<exists>p \<in> set ps. HasPrefix (TrimSpace txt) p))"

lemma scan_comments:
  "fold scan_comment comments (A, B) =
   (A \<union> {key. has_pragma comments key [''//rustygo:arena'', ''//rustygo:scoped'']},
    B \<union> {key. has_pragma comments key [''//rustygo:trust'', ''//rustygo:ignore'']})"
proof (induction comments arbitrary: A B)
  case (Cons c cs)
  obtain tx fl ln where c: "c = (tx, fl, ln)" by (cases c)
  have "scan_comment c (A, B) =
      (A \<union> {key. has_pragma [c] key [''//rustygo:arena'', ''//rustygo:scoped'']},
       B \<union> {key. has_pragma [c] key [''//rustygo:trust'', ''//rustygo:ignore'']})"
    by (auto simp: scan_comment_def has_pragma_def c Let_def)
  moreover have "has_pragma (c # cs) key ps \<longleftrightarrow> has_pragma [c] key ps \<or> has_pragma cs key ps" for key ps
    by (auto simp: has_pragma_def)
  ultimately show ?case by (simp only: fold.simps comp_apply Cons.IH) auto
qed (simp add: has_pragma_def)

text \<open>With only violations asked for, vet reports exactly the allocations on a line with an arena pragma and no
  trust pragma, on it or on the line before, that are not decided to live in the arena, whatever the order of the
  comments: with the reason when the allocation must live on the heap, as unproven otherwise.\<close>

lemma vet_violations_only:
  "vet_run position True comments P =
   map_option (\<lambda>res. List.map_filter (\<lambda>d. let i = al_Instruction (ad_Allocation d); key = position (in_pos i) in
       if has_pragma comments key [''//rustygo:arena'', ''//rustygo:scoped''] \<and>
          \<not> has_pragma comments key [''//rustygo:trust'', ''//rustygo:ignore''] \<and> ad_Decision d \<noteq> Arena
       then Some (i, if ad_Decision d = Heap then VetPragmaViolation (ad_Reason d) else VetPragmaUnproven) else None)
     (an_Decisions res)) (Run P)"
proof -
  have v: "map_option (Pair i) (vet_decision True a b d) =
      (if a \<and> \<not> b \<and> ad_Decision d \<noteq> Arena
       then Some (i, if ad_Decision d = Heap then VetPragmaViolation (ad_Reason d) else VetPragmaUnproven) else None)" for i a b d
    by (cases "ad_Decision d") (simp_all add: vet_decision_def)
  show ?thesis unfolding vet_run_def scan_comments Let_def v by simp
qed

text \<open>
  A structure with a string counts as one without pointers, though a string refers to bytes of the heap, and the
  garbage collector does not look for such references in arena memory.
\<close>

lemma string_has_no_pointers:
  "\<not> elem_HasPointers (allocatedElemType (ex_prog []\<lparr>pr_elem := (\<lambda>_. StructType [BasicType ''string''])\<rparr>) (PointerType 0))"
  by (simp add: elem_HasPointers_def allocatedElemType_def)

text \<open>Two allocations without a position have one object ID: the second report stands for both.\<close>

lemma object_ids_collide:
  "map_option (\<lambda>res. map (\<lambda>d. (ad_Decision d, ad_Reason d)) (an_Decisions res))
     (Run (ex_prog [(ins 1 (Some 1) IAlloc)\<lparr>in_pos := 0\<rparr>, (ins 2 (Some 2) IAlloc)\<lparr>in_pos := 0\<rparr>, ins 3 None (IReturn [1])])) =
   Some [(Arena, ReasonNone), (Arena, ReasonNone)]"
  by code_simp

end
