(* ===== verification/Syntax.thy ===== *)
theory Syntax
  imports Escape
begin

text \<open>
  Syntax trees, as far as \<^verbatim>\<open>analyzer\<close> looks at them and builds them, and the collection of the allocation
  sites of a file with the test which of them the analysis lets live in an arena (\<^verbatim>\<open>analyzer/analyzer.go\<close>).

  The trees are those of \<^verbatim>\<open>go/ast\<close>: one constructor for every kind of node the sources tell apart or make,
  \<open>OtherNode\<close> with its children for the rest. A statement that gives values to variables carries its position,
  which is 0 in the statements the rewriter makes; an expression that may be replaced is the right-hand side of such
  a statement and is known by position and index, the pointer of the source. The types of the type checker are a
  parameter, a record of functions on those places.
\<close>

section \<open>Trees\<close>

datatype go_node =
    Ident string
  | BasicLit string
  | SelectorExpr go_node string
  | CallExpr go_node "go_node list"
  | IndexExpr go_node go_node
  | IndexListExpr go_node "go_node list"
  | StarExpr go_node
  | ParenExpr go_node
  | UnaryExpr string go_node
  | BinaryExpr go_node string go_node
  | SliceExpr go_node go_node
  | ArrayExpr go_node
  | MapExpr go_node go_node
  | ChanExpr go_node
  | CompositeLit go_node "go_node list"
  | FuncLit "go_node list" "go_node list"
  | AssignStmt int "go_node list" string "go_node list"
  | VarDecl "go_node list"
  | ValueSpec int "go_node list" "go_node list"
  | ExprStmt go_node
  | DeferStmt go_node
  | ReturnStmt "go_node list"
  | LoopStmt "go_node list" "go_node list"
  | OtherNode "go_node list"

text \<open>\<^verbatim>\<open>ast.Inspect\<close> for identifiers: all of them, in order.\<close>

fun idents :: "go_node \<Rightarrow> string list" where
  "idents (Ident s) = [s]"
| "idents (BasicLit s) = []"
| "idents (SelectorExpr x s) = idents x @ [s]"
| "idents (CallExpr f as) = idents f @ concat (map idents as)"
| "idents (IndexExpr x i) = idents x @ idents i"
| "idents (IndexListExpr x is) = idents x @ concat (map idents is)"
| "idents (StarExpr x) = idents x"
| "idents (ParenExpr x) = idents x"
| "idents (UnaryExpr op x) = idents x"
| "idents (BinaryExpr x op y) = idents x @ idents y"
| "idents (SliceExpr x h) = idents x @ idents h"
| "idents (ArrayExpr e) = idents e"
| "idents (MapExpr k v) = idents k @ idents v"
| "idents (ChanExpr v) = idents v"
| "idents (CompositeLit t es) = idents t @ concat (map idents es)"
| "idents (FuncLit rs body) = concat (map idents rs) @ concat (map idents body)"
| "idents (AssignStmt p l tok r) = concat (map idents l) @ concat (map idents r)"
| "idents (VarDecl specs) = concat (map idents specs)"
| "idents (ValueSpec p ns vs) = concat (map idents ns) @ concat (map idents vs)"
| "idents (ExprStmt x) = idents x"
| "idents (DeferStmt x) = idents x"
| "idents (ReturnStmt xs) = concat (map idents xs)"
| "idents (LoopStmt hdr body) = concat (map idents hdr) @ concat (map idents body)"
| "idents (OtherNode xs) = concat (map idents xs)"

text \<open>The assignment \<^verbatim>\<open>*exprPtr = e\<close>.\<close>

type_synonym place = "int \<times> nat"

fun set_expr :: "place \<Rightarrow> go_node \<Rightarrow> go_node \<Rightarrow> go_node" where
  "set_expr pl e (Ident s) = Ident s"
| "set_expr pl e (BasicLit s) = BasicLit s"
| "set_expr pl e (SelectorExpr x s) = SelectorExpr (set_expr pl e x) s"
| "set_expr pl e (CallExpr f as) = CallExpr (set_expr pl e f) (map (set_expr pl e) as)"
| "set_expr pl e (IndexExpr x i) = IndexExpr (set_expr pl e x) (set_expr pl e i)"
| "set_expr pl e (IndexListExpr x is) = IndexListExpr (set_expr pl e x) (map (set_expr pl e) is)"
| "set_expr pl e (StarExpr x) = StarExpr (set_expr pl e x)"
| "set_expr pl e (ParenExpr x) = ParenExpr (set_expr pl e x)"
| "set_expr pl e (UnaryExpr op x) = UnaryExpr op (set_expr pl e x)"
| "set_expr pl e (BinaryExpr x op y) = BinaryExpr (set_expr pl e x) op (set_expr pl e y)"
| "set_expr pl e (SliceExpr x h) = SliceExpr (set_expr pl e x) (set_expr pl e h)"
| "set_expr pl e (ArrayExpr t) = ArrayExpr (set_expr pl e t)"
| "set_expr pl e (MapExpr k v) = MapExpr (set_expr pl e k) (set_expr pl e v)"
| "set_expr pl e (ChanExpr v) = ChanExpr (set_expr pl e v)"
| "set_expr pl e (CompositeLit t es) = CompositeLit (set_expr pl e t) (map (set_expr pl e) es)"
| "set_expr pl e (FuncLit rs body) = FuncLit (map (set_expr pl e) rs) (map (set_expr pl e) body)"
| "set_expr pl e (AssignStmt p l tok r) = AssignStmt p (map (set_expr pl e) l) tok
     (let r' = map (set_expr pl e) r in if p = fst pl then r'[snd pl := e] else r')"
| "set_expr pl e (VarDecl specs) = VarDecl (map (set_expr pl e) specs)"
| "set_expr pl e (ValueSpec p ns vs) = ValueSpec p (map (set_expr pl e) ns)
     (let vs' = map (set_expr pl e) vs in if p = fst pl then vs'[snd pl := e] else vs')"
| "set_expr pl e (ExprStmt x) = ExprStmt (set_expr pl e x)"
| "set_expr pl e (DeferStmt x) = DeferStmt (set_expr pl e x)"
| "set_expr pl e (ReturnStmt xs) = ReturnStmt (map (set_expr pl e) xs)"
| "set_expr pl e (LoopStmt hdr body) = LoopStmt (map (set_expr pl e) hdr) (map (set_expr pl e) body)"
| "set_expr pl e (OtherNode xs) = OtherNode (map (set_expr pl e) xs)"

section \<open>Sites\<close>

datatype site_kind = KindNew | KindMake | KindMakeMap | KindMakeChan | KindLiteral | KindPointerLiteral

text \<open>The underlying types the sources tell apart.\<close>

datatype type_kind = SliceKind | MapKind | ChanKind | StructKind | OtherKind

text \<open>
  What the type checker and the file set know of a place: whether the variable on the left is one, the type of the
  expression (of a pointer literal, the type it points to; none when the checker has none), its name, its position.
\<close>

record type_info =
  ti_isVar :: "place \<Rightarrow> bool"
  ti_kind :: "place \<Rightarrow> type_kind option"
  ti_name :: "place \<Rightarrow> string"
  ti_pos :: "place \<Rightarrow> int"

record site =
  si_pos :: int
  si_kind :: site_kind
  si_typeName :: string
  si_fixable :: bool
  si_exprPtr :: place
  si_typeExpr :: go_node
  si_lenExpr :: "go_node option"
  si_capExpr :: "go_node option"

fun unparen :: "go_node \<Rightarrow> go_node" where
  "unparen (ParenExpr x) = unparen x"
| "unparen x = x"

text \<open>A site has the same fields in every case of the source.\<close>

definition site_at :: "type_info \<Rightarrow> place \<Rightarrow> site_kind \<Rightarrow> go_node \<Rightarrow> go_node option \<Rightarrow> go_node option \<Rightarrow> site" where
  "site_at ti pl k t len cap =
     \<lparr>si_pos = ti_pos ti pl, si_kind = k, si_typeName = ti_name ti pl, si_fixable = True, si_exprPtr = pl,
      si_typeExpr = t, si_lenExpr = len, si_capExpr = cap\<rparr>"

fun first :: "'a list \<Rightarrow> 'a option" where
  "first [] = None"
| "first (x # xs) = Some x"

definition makeSite :: "type_info \<Rightarrow> place \<Rightarrow> go_node \<Rightarrow> site option" where
  "makeSite ti pl expr =
     (case expr of
        CallExpr (Ident nm) as \<Rightarrow>
          (if nm = ''new'' then (case as of [t] \<Rightarrow> Some (site_at ti pl KindNew t None None) | _ \<Rightarrow> None)
           else if nm = ''make'' then
             (case as of
                [] \<Rightarrow> None
              | t # rest \<Rightarrow>
                  (case ti_kind ti pl of
                     Some SliceKind \<Rightarrow>
                       (case rest of [] \<Rightarrow> None | n # os \<Rightarrow> Some (site_at ti pl KindMake t (Some n) (first os)))
                   | Some MapKind \<Rightarrow> Some (site_at ti pl KindMakeMap t (first rest) None)
                   | Some ChanKind \<Rightarrow> Some (site_at ti pl KindMakeChan t (first rest) None)
                   | _ \<Rightarrow> None))
           else None)
      | CompositeLit t es \<Rightarrow>
          (if ti_kind ti pl = Some StructKind then Some (site_at ti pl KindLiteral t (Some expr) None) else None)
      | UnaryExpr tok x \<Rightarrow>
          (if tok = ''&'' then
             (case unparen x of
                CompositeLit t es \<Rightarrow>
                  (if ti_kind ti pl = Some StructKind
                   then Some (site_at ti pl KindPointerLiteral t (Some (CompositeLit t es)) None) else None)
              | _ \<Rightarrow> None)
           else None)
      | _ \<Rightarrow> None)"

text \<open>Variables on the left paired with values on the right; both kinds of statement have this loop.\<close>

definition sites_of_pairs :: "type_info \<Rightarrow> int \<Rightarrow> go_node list \<Rightarrow> go_node list \<Rightarrow> site list" where
  "sites_of_pairs ti p lhs rhs =
     List.map_filter (\<lambda>i.
        case lhs ! i of
          Ident nm \<Rightarrow> (if nm = ''_'' \<or> \<not> ti_isVar ti (p, i) then None else makeSite ti (p, i) (rhs ! i))
        | _ \<Rightarrow> None)
       [0 ..< (if length rhs < length lhs then length rhs else length lhs)]"

definition sitesFromAssign :: "type_info \<Rightarrow> int \<Rightarrow> go_node list \<Rightarrow> string \<Rightarrow> go_node list \<Rightarrow> site list" where
  "sitesFromAssign ti p lhs tok rhs =
     (if tok \<noteq> '':='' \<and> tok \<noteq> ''='' then [] else sites_of_pairs ti p lhs rhs)"

fun sitesFromValueSpec :: "type_info \<Rightarrow> go_node \<Rightarrow> site list" where
  "sitesFromValueSpec ti (ValueSpec p ns vs) = sites_of_pairs ti p ns vs"
| "sitesFromValueSpec ti _ = []"

text \<open>
  The walk of the visitor. A loop gets a visitor of its own with a greater depth, so nothing inside it counts; the
  function literals inside the body count as part of it.
\<close>

fun collect :: "type_info \<Rightarrow> nat \<Rightarrow> go_node \<Rightarrow> site list" where
  "collect ti d (AssignStmt p l tok r) =
     (if d = 0 then sitesFromAssign ti p l tok r else []) @ concat (map (collect ti d) l) @ concat (map (collect ti d) r)"
| "collect ti d (VarDecl specs) =
     (if d = 0 then concat (map (sitesFromValueSpec ti) specs) else []) @ concat (map (collect ti d) specs)"
| "collect ti d (LoopStmt hdr body) = concat (map (collect ti (Suc d)) hdr) @ concat (map (collect ti (Suc d)) body)"
| "collect ti d (Ident s) = []"
| "collect ti d (BasicLit s) = []"
| "collect ti d (SelectorExpr x s) = collect ti d x"
| "collect ti d (CallExpr f as) = collect ti d f @ concat (map (collect ti d) as)"
| "collect ti d (IndexExpr x i) = collect ti d x @ collect ti d i"
| "collect ti d (IndexListExpr x is) = collect ti d x @ concat (map (collect ti d) is)"
| "collect ti d (StarExpr x) = collect ti d x"
| "collect ti d (ParenExpr x) = collect ti d x"
| "collect ti d (UnaryExpr tok x) = collect ti d x"
| "collect ti d (BinaryExpr x tok y) = collect ti d x @ collect ti d y"
| "collect ti d (SliceExpr x h) = collect ti d x @ collect ti d h"
| "collect ti d (ArrayExpr t) = collect ti d t"
| "collect ti d (MapExpr k v) = collect ti d k @ collect ti d v"
| "collect ti d (ChanExpr v) = collect ti d v"
| "collect ti d (CompositeLit t es) = collect ti d t @ concat (map (collect ti d) es)"
| "collect ti d (FuncLit rs body) = concat (map (collect ti d) rs) @ concat (map (collect ti d) body)"
| "collect ti d (ValueSpec p ns vs) = concat (map (collect ti d) ns) @ concat (map (collect ti d) vs)"
| "collect ti d (ExprStmt x) = collect ti d x"
| "collect ti d (DeferStmt x) = collect ti d x"
| "collect ti d (ReturnStmt xs) = concat (map (collect ti d) xs)"
| "collect ti d (OtherNode xs) = concat (map (collect ti d) xs)"

definition collectCandidates :: "type_info \<Rightarrow> go_node list \<Rightarrow> site list" where
  "collectCandidates ti body = concat (map (collect ti 0) body)"

text \<open>
  A file: its comments, its imports (path, and name if one is given) and the bodies \<^verbatim>\<open>collectSites\<close> visits, of
  the functions it declares and of function literals outside of them.
\<close>

record go_file =
  gf_comments :: "string list"
  gf_imports :: "(string \<times> string option) list"
  gf_bodies :: "go_node list list"

text \<open>Each site with the index of its body.\<close>

definition collectSites :: "type_info \<Rightarrow> go_file \<Rightarrow> (nat \<times> site) list" where
  "collectSites ti f =
     concat (map (\<lambda>b. map (Pair b) (collectCandidates ti (gf_bodies f ! b))) [0 ..< length (gf_bodies f)])"

definition isGenerated :: "go_file \<Rightarrow> bool" where
  "isGenerated f = list_ex (\<lambda>c. contains c ''Code generated'' \<or> contains c ''DO NOT EDIT'') (gf_comments f)"

section \<open>Eligible sites\<close>

text \<open>\<^verbatim>\<open>filepath.Base\<close>\<close>

definition Base :: "string \<Rightarrow> string" where
  "Base path =
     (if path = [] then ''.''
      else let p = rev (dropWhile (\<lambda>c. c = CHR ''/'') (rev path))
      in if p = [] then ''/'' else rev (takeWhile (\<lambda>c. c \<noteq> CHR ''/'') (rev p)))"

definition same_line :: "(int \<Rightarrow> string \<times> nat) \<Rightarrow> int \<Rightarrow> int \<Rightarrow> bool" where
  "same_line position a b =
     (snd (position a) = snd (position b) \<and>
      (fst (position a) = fst (position b) \<or> Base (fst (position a)) = Base (fst (position b))))"

definition filterEligibleSites :: "(int \<Rightarrow> string \<times> nat) \<Rightarrow> allocation_decision list \<Rightarrow> ('b \<times> site) list \<Rightarrow> ('b \<times> site) list" where
  "filterEligibleSites position decisions candidates =
     filter (\<lambda>(_, s). list_ex (\<lambda>d. ad_Decision d = Arena \<and>
        same_line position (in_pos (al_Instruction (ad_Allocation d))) (si_pos s)) decisions) candidates"

record finding =
  fi_Pos :: int
  fi_Kind :: site_kind
  fi_TypeName :: string
  fi_Fixable :: bool

record check_result =
  cr_Findings :: "finding list"
  cr_Total :: nat
  cr_Eligible :: nat

text \<open>
  The run of the checker over the files of a package, with the decisions of the pipeline, which is run again for
  every file, on the same package.
\<close>

definition check_file :: "type_info \<Rightarrow> (int \<Rightarrow> string \<times> nat) \<Rightarrow> allocation_decision list \<Rightarrow> go_file \<Rightarrow> check_result \<Rightarrow> check_result" where
  "check_file ti position decisions f res =
     (if isGenerated f then res
      else let allSites = collectSites ti f; el = filterEligibleSites position decisions allSites
      in res\<lparr>cr_Total := cr_Total res + length allSites, cr_Eligible := cr_Eligible res + length el,
             cr_Findings := cr_Findings res @
               map (\<lambda>(_, s). \<lparr>fi_Pos = si_pos s, fi_Kind = si_kind s, fi_TypeName = si_typeName s, fi_Fixable = si_fixable s\<rparr>) el\<rparr>)"

definition check_run :: "type_info \<Rightarrow> (int \<Rightarrow> string \<times> nat) \<Rightarrow> allocation_decision list \<Rightarrow> go_file list \<Rightarrow> check_result" where
  "check_run ti position decisions files =
     fold (check_file ti position decisions) files \<lparr>cr_Findings = [], cr_Total = 0, cr_Eligible = 0\<rparr>"

text \<open>Nothing inside a loop is a candidate.\<close>

lemma collect_loop: "0 < d \<Longrightarrow> collect ti d n = []"
  by (induction ti d n rule: collect.induct) auto

text \<open>A run counts its findings, and there are no more of them than sites.\<close>

definition counted :: "check_result \<Rightarrow> bool" where
  "counted r \<longleftrightarrow> cr_Eligible r = length (cr_Findings r) \<and> cr_Eligible r \<le> cr_Total r"

lemma check_file_counted: "counted r \<Longrightarrow> counted (check_file ti position decisions f r)"
  using length_filter_le [of _ "collectSites ti f"]
  by (simp add: counted_def check_file_def filterEligibleSites_def Let_def add_mono)

lemma check_run_counted: "counted (check_run ti position decisions files)"
proof -
  have "counted r \<Longrightarrow> counted (fold (check_file ti position decisions) files r)" for r
    by (induction files arbitrary: r) (simp_all add: check_file_counted)
  then show ?thesis unfolding check_run_def by this (simp add: counted_def)
qed

text \<open>
  Sites are matched with decisions by line: of two allocations on one line, one that is returned and one that stays,
  both are eligible.
\<close>

lemma eligible_by_line:
  "filterEligibleSites (\<lambda>p. (''f.go'', 7))
     [\<lparr>ad_Allocation = \<lparr>al_ID = 1, al_Type = PointerType 0, al_Function = ''f'', al_Instruction = ins 1 (Some 1) IAlloc\<rparr>,
       ad_Decision = Heap, ad_Reason = EscapesReturn, ad_Path = []\<rparr>,
      \<lparr>ad_Allocation = \<lparr>al_ID = 2, al_Type = PointerType 0, al_Function = ''f'', al_Instruction = ins 2 (Some 2) IAlloc\<rparr>,
       ad_Decision = Arena, ad_Reason = ReasonNone, ad_Path = []\<rparr>]
     [((), \<lparr>si_pos = 1, si_kind = KindNew, si_typeName = ''T'', si_fixable = True, si_exprPtr = (1, 0), si_typeExpr = Ident ''T'',
       si_lenExpr = None, si_capExpr = None\<rparr>)] \<noteq> []"
  by code_simp

end
