(* ===== verification/Rewrite.thy ===== *)
theory Rewrite
  imports Syntax
begin

text \<open>
  The rewriter of \<^verbatim>\<open>analyzer/fix.go\<close> and \<^verbatim>\<open>internal/analysis/rewrite\<close>: allocations that may live in an arena
  become calls of the typed allocators on a scope that the rewritten body opens, and two or more of them share one
  buffer, whose layout the rewritten body computes. A statement list is a list; where the source splices it with
  \<^verbatim>\<open>append\<close>, its capacity decides and is a parameter.
\<close>

section \<open>Names and small trees\<close>

definition hasIdentName :: "go_node list \<Rightarrow> string \<Rightarrow> bool" where
  "hasIdentName body name \<longleftrightarrow> name \<in> set (concat (map idents body))"

text \<open>The loop tries the plain name, then numbers from 2 on; \<open>fuel\<close> bounds the numbers tried.\<close>

fun unique_from :: "nat \<Rightarrow> go_node list \<Rightarrow> string \<Rightarrow> string \<Rightarrow> nat \<Rightarrow> string option" where
  "unique_from fuel body base name index =
     (if \<not> hasIdentName body name then Some name
      else case fuel of 0 \<Rightarrow> None | Suc k \<Rightarrow> unique_from k body base (base @ itoa index) (index + 1))"

declare unique_from.simps [simp del]

definition name_fuel :: "go_node list \<Rightarrow> nat" where
  "name_fuel body = length (concat (map idents body))"

definition uniqueName :: "go_node list \<Rightarrow> string \<Rightarrow> string" where
  "uniqueName body base = case_option '''' id (unique_from (name_fuel body) body base base 2)"

definition selectorOrIdent :: "string \<Rightarrow> string \<Rightarrow> go_node" where
  "selectorOrIdent qualifier name = (if qualifier = '''' then Ident name else SelectorExpr (Ident qualifier) name)"

fun sliceElemExpr :: "go_node \<Rightarrow> go_node" where
  "sliceElemExpr (ArrayExpr e) = e"
| "sliceElemExpr e = e"

definition defaultArenaBytes :: nat where
  "defaultArenaBytes = 64 * 1024"

definition arenaBytesOrDefault :: "int \<Rightarrow> nat" where
  "arenaBytesOrDefault arenaBytes = (if arenaBytes > 0 then nat arenaBytes else defaultArenaBytes)"

definition arenaSizeExpr :: "nat \<Rightarrow> go_node" where
  "arenaSizeExpr arenaBytes = BasicLit (itoa arenaBytes)"

text \<open>\<^verbatim>\<open>name := e\<close>, \<^verbatim>\<open>_ = name\<close>, \<^verbatim>\<open>x.sel()\<close>\<close>

definition short_var :: "string \<Rightarrow> go_node \<Rightarrow> go_node" where
  "short_var name e = AssignStmt 0 [Ident name] '':='' [e]"

definition discard :: "string \<Rightarrow> go_node" where
  "discard name = AssignStmt 0 [Ident ''_''] ''='' [Ident name]"

definition method_call :: "string \<Rightarrow> string \<Rightarrow> go_node" where
  "method_call x sel = CallExpr (SelectorExpr (Ident x) sel) []"

section \<open>The scope of a body\<close>

text \<open>The body of a loop gets no deferred calls, since they would pile up.\<close>

definition insertScopeSetup :: "bool \<Rightarrow> string \<Rightarrow> string \<Rightarrow> string \<Rightarrow> nat \<Rightarrow> go_node list \<Rightarrow> go_node list" where
  "insertScopeSetup isLoop qualifier arenaName scopeName arenaBytes body =
     (let mk = short_var arenaName (CallExpr (selectorOrIdent qualifier ''NewArena'') [arenaSizeExpr arenaBytes]);
          enter = short_var scopeName (method_call arenaName ''EnterScope'')
      in if isLoop
         then [mk, enter] @ body @ [ExprStmt (method_call scopeName ''Exit''), ExprStmt (method_call arenaName ''Close'')]
         else [mk, enter, DeferStmt (method_call arenaName ''Close''), DeferStmt (method_call scopeName ''Exit'')] @ body)"

section \<open>One site\<close>

text \<open>\<^verbatim>\<open>func() *T { r := alloc; *r = lit; return r }()\<close>\<close>

definition filled :: "go_node \<Rightarrow> go_node \<Rightarrow> go_node \<Rightarrow> go_node" where
  "filled t alloc lit =
     CallExpr (FuncLit [StarExpr t]
       [short_var ''r'' alloc, AssignStmt 0 [StarExpr (Ident ''r'')] ''='' [lit], ReturnStmt [Ident ''r'']]) []"

definition the_expr :: "go_node option \<Rightarrow> go_node" where
  "the_expr e = (case e of Some x \<Rightarrow> x | None \<Rightarrow> OtherNode [])"

text \<open>The new expression; none when the site stays as it is.\<close>

definition rewritten :: "site \<Rightarrow> string \<Rightarrow> string \<Rightarrow> go_node option" where
  "rewritten s qualifier scopeName =
     (let scope = Ident scopeName; t = si_typeExpr s; len = the_expr (si_lenExpr s);
          value = CallExpr (IndexExpr (selectorOrIdent qualifier ''AllocValue'') t) [scope]
      in case si_kind s of
           KindNew \<Rightarrow> Some value
         | KindMake \<Rightarrow>
             (case si_capExpr s of
                None \<Rightarrow> Some (CallExpr (IndexExpr (selectorOrIdent qualifier ''AllocSlice'') (sliceElemExpr t)) [scope, len])
              | Some c \<Rightarrow> Some (CallExpr (IndexExpr (selectorOrIdent qualifier ''AllocSliceCap'') (sliceElemExpr t)) [scope, len, c]))
         | KindMakeMap \<Rightarrow>
             (case t of MapExpr k v \<Rightarrow> Some (CallExpr (IndexListExpr (selectorOrIdent qualifier ''AllocMap'') [k, v]) [scope]) | _ \<Rightarrow> None)
         | KindMakeChan \<Rightarrow>
             (case t of
                ChanExpr v \<Rightarrow>
                  Some (CallExpr (IndexExpr (selectorOrIdent qualifier ''AllocChan'') v)
                    [scope, case si_lenExpr s of None \<Rightarrow> BasicLit ''0'' | Some n \<Rightarrow> n])
              | _ \<Rightarrow> None)
         | KindPointerLiteral \<Rightarrow> Some (filled t value len)
         | KindLiteral \<Rightarrow> Some (StarExpr (filled t value len)))"

definition rewriteSite :: "string \<Rightarrow> string \<Rightarrow> site \<Rightarrow> go_node list \<Rightarrow> go_node list" where
  "rewriteSite qualifier scopeName s body =
     (case rewritten s qualifier scopeName of None \<Rightarrow> body | Some e \<Rightarrow> map (set_expr (si_exprPtr s) e) body)"

section \<open>Many sites in one buffer\<close>

definition bulk_elem :: "site \<Rightarrow> go_node" where
  "bulk_elem s = (if si_kind s = KindMake then sliceElemExpr (si_typeExpr s) else si_typeExpr s)"

text \<open>\<^verbatim>\<open>*(*T)(nil)\<close>, \<^verbatim>\<open>int(unsafe.Sizeof(...))\<close> and \<^verbatim>\<open>int(unsafe.Alignof(...))\<close>\<close>

definition star_nil :: "go_node \<Rightarrow> go_node" where
  "star_nil t = StarExpr (CallExpr (ParenExpr (StarExpr t)) [Ident ''nil''])"

definition unsafe_call :: "string \<Rightarrow> go_node list \<Rightarrow> go_node" where
  "unsafe_call f as = CallExpr (SelectorExpr (Ident ''unsafe'') f) as"

definition int_of :: "go_node \<Rightarrow> go_node" where
  "int_of e = CallExpr (Ident ''int'') [e]"

definition bulk_size :: "site \<Rightarrow> go_node" where
  "bulk_size s =
     (let sz = int_of (unsafe_call ''Sizeof'' [star_nil (bulk_elem s)])
      in if si_kind s = KindMake then int_of (BinaryExpr sz ''*'' (the_expr (si_lenExpr s))) else sz)"

definition bulk_align :: "site \<Rightarrow> go_node" where
  "bulk_align s = int_of (unsafe_call ''Alignof'' [star_nil (bulk_elem s)])"

text \<open>The end of the range before, rounded up: \<^verbatim>\<open>(prev + size + al - 1) & ^(al - 1)\<close>\<close>

definition bulk_offset :: "nat \<Rightarrow> string \<Rightarrow> go_node \<Rightarrow> go_node \<Rightarrow> go_node" where
  "bulk_offset i alName prevOff lastSz =
     (if i = 0 then BasicLit ''0''
      else BinaryExpr
             (BinaryExpr (BinaryExpr (BinaryExpr prevOff ''+'' lastSz) ''+'' (Ident alName)) ''-'' (BasicLit ''1''))
             ''&'' (UnaryExpr ''^'' (BinaryExpr (Ident alName) ''-'' (BasicLit ''1''))))"

text \<open>The expression of the site: a pointer into the buffer, as the type it needs.\<close>

definition bulk_pointer :: "string \<Rightarrow> string \<Rightarrow> go_node \<Rightarrow> go_node" where
  "bulk_pointer buf offName t =
     CallExpr (ParenExpr (StarExpr t)) [unsafe_call ''Pointer'' [UnaryExpr ''&'' (IndexExpr (Ident buf) (Ident offName))]]"

definition rewriteSiteInBulk :: "site \<Rightarrow> string \<Rightarrow> string \<Rightarrow> go_node \<Rightarrow> go_node option" where
  "rewriteSiteInBulk s buf offName elemType =
     (let ptr = bulk_pointer buf offName elemType; len = the_expr (si_lenExpr s)
      in case si_kind s of
           KindNew \<Rightarrow> Some ptr
         | KindMake \<Rightarrow>
             (case si_capExpr s of
                None \<Rightarrow> Some (unsafe_call ''Slice'' [ptr, len])
              | Some c \<Rightarrow> Some (SliceExpr (unsafe_call ''Slice'' [ptr, c]) len))
         | KindPointerLiteral \<Rightarrow> Some (filled (si_typeExpr s) ptr len)
         | KindLiteral \<Rightarrow> Some (StarExpr (filled (si_typeExpr s) ptr len))
         | _ \<Rightarrow> None)"

text \<open>
  The loop over the sites: the statements of the layout, six for a site, and the body with the site replaced. The
  names must not occur in the body as it is then.
\<close>

definition bulk_stmts :: "nat \<Rightarrow> string \<Rightarrow> string \<Rightarrow> string \<Rightarrow> site \<Rightarrow> go_node \<Rightarrow> go_node \<Rightarrow> go_node list" where
  "bulk_stmts i szName alName offName s prevOff lastSz =
     [short_var szName (bulk_size s), discard szName, short_var alName (bulk_align s), discard alName,
      short_var offName (bulk_offset i alName prevOff lastSz), discard offName]"

fun bulk_loop :: "string \<Rightarrow> nat \<Rightarrow> site list \<Rightarrow> go_node list \<Rightarrow> go_node \<Rightarrow> go_node \<Rightarrow> go_node list \<times> go_node list \<times> go_node \<times> go_node" where
  "bulk_loop buf i [] body prevOff lastSz = (body, [], prevOff, lastSz)"
| "bulk_loop buf i (s # ss) body prevOff lastSz =
     (let szName = uniqueName body (''rustygoSz'' @ itoa i);
          alName = uniqueName body (''rustygoAl'' @ itoa i);
          offName = uniqueName body (''rustygoOff'' @ itoa i);
          stmts = bulk_stmts i szName alName offName s prevOff lastSz;
          body' = (case rewriteSiteInBulk s buf offName (bulk_elem s) of
                     None \<Rightarrow> body | Some e \<Rightarrow> map (set_expr (si_exprPtr s) e) body)
      in case bulk_loop buf (i + 1) ss body' (Ident offName) (Ident szName) of
           (b, rest, p, l) \<Rightarrow> (b, stmts @ rest, p, l))"

text \<open>
  \<^verbatim>\<open>append(append(list[:4], new...), list[4:]...)\<close>: when the list has room for them, the inner call writes the new
  statements over the old ones that the outer call is to copy.
\<close>

definition splice :: "nat \<Rightarrow> go_node list \<Rightarrow> go_node list \<Rightarrow> go_node list" where
  "splice cap xs new =
     (if 4 + length new \<le> cap
      then take 4 xs @ new @ take (length xs - 4) (new @ drop (4 + length new) xs)
      else take 4 xs @ new @ drop 4 xs)"

definition bulk_alloc :: "string \<Rightarrow> string \<Rightarrow> string \<Rightarrow> go_node \<Rightarrow> go_node \<Rightarrow> go_node" where
  "bulk_alloc buf qualifier scopeName prevOff lastSz =
     short_var buf (CallExpr (IndexExpr (selectorOrIdent qualifier ''AllocSlice'') (Ident ''byte''))
       [Ident scopeName, BinaryExpr prevOff ''+'' lastSz])"

definition rewriteBulk :: "nat \<Rightarrow> string \<Rightarrow> string \<Rightarrow> site list \<Rightarrow> go_node list \<Rightarrow> go_node list" where
  "rewriteBulk cap qualifier scopeName found_sites body =
     (let buf = uniqueName body ''rustygoBulk'' in
      case bulk_loop buf 0 found_sites body (BasicLit ''0'') (OtherNode []) of
        (body', stmts, prevOff, lastSz) \<Rightarrow>
          splice cap body' (stmts @ [bulk_alloc buf qualifier scopeName prevOff lastSz]))"

section \<open>Bodies and files\<close>

definition is_bulk :: "site \<Rightarrow> bool" where
  "is_bulk s \<longleftrightarrow> si_kind s \<in> {KindNew, KindMake, KindLiteral, KindPointerLiteral}"

text \<open>The capacity of a list after \<^verbatim>\<open>append\<close> is that of its length by the runtime's growth, a parameter.\<close>

definition rewriteBody :: "(nat \<Rightarrow> nat) \<Rightarrow> string \<Rightarrow> nat \<Rightarrow> site list \<Rightarrow> go_node list \<Rightarrow> go_node list" where
  "rewriteBody capacity qualifier arenaBytes found_sites body =
     (let bulkSites = filter is_bulk found_sites; otherSites = filter (\<lambda>s. \<not> is_bulk s) found_sites;
          scopeName = uniqueName body ''rustygoScope''; arenaName = uniqueName body ''rustygoArena'';
          body1 = insertScopeSetup False qualifier arenaName scopeName arenaBytes body;
          bulk = length bulkSites \<ge> 2;
          body2 = (if bulk then rewriteBulk (capacity (length body1)) qualifier scopeName bulkSites body1 else body1)
      in fold (rewriteSite qualifier scopeName) (if bulk then otherSites else otherSites @ bulkSites) body2)"

text \<open>The name by which the file knows the package; if it does not, an import is added.\<close>

fun find_import :: "(string \<times> string option) list \<Rightarrow> string option" where
  "find_import [] = None"
| "find_import ((path, name) # is) =
     (if path \<noteq> ''rustygo'' then find_import is
      else case name of None \<Rightarrow> Some ''rustygo'' | Some n \<Rightarrow> (if n = ''_'' then find_import is else Some n))"

definition rewriteQualifier :: "string \<Rightarrow> go_file \<Rightarrow> go_file \<times> string" where
  "rewriteQualifier pkgPath f =
     (if pkgPath = ''rustygo'' then (f, '''')
      else case find_import (gf_imports f) of
        Some q \<Rightarrow> (f, q)
      | None \<Rightarrow> (f\<lparr>gf_imports := gf_imports f @ [(''rustygo'', Some ''rg'')]\<rparr>, ''rg''))"

definition sites_in :: "nat \<Rightarrow> (nat \<times> site) list \<Rightarrow> site list" where
  "sites_in b found_sites = map snd (filter (\<lambda>(k, s). k = b \<and> si_fixable s) found_sites)"

text \<open>The decisions are those of the pipeline on the package. No result when nothing changes.\<close>

definition RewriteFileWithConfig ::
  "(nat \<Rightarrow> nat) \<Rightarrow> type_info \<Rightarrow> (int \<Rightarrow> string \<times> nat) \<Rightarrow> allocation_decision list \<Rightarrow> string \<Rightarrow> int \<Rightarrow> go_file \<Rightarrow> go_file option" where
  "RewriteFileWithConfig capacity ti position decisions pkgPath arenaBytes f =
     (if isGenerated f then None
      else let found_sites = filterEligibleSites position decisions (collectSites ti f)
      in if \<not> list_ex (\<lambda>(_, s). si_fixable s) found_sites then None
         else case rewriteQualifier pkgPath f of (f1, qualifier) \<Rightarrow>
           let n = length (gf_bodies f);
               hasBulk = list_ex (\<lambda>b. length (filter is_bulk (sites_in b found_sites)) \<ge> 2) [0 ..< n];
               bodies = map (\<lambda>b. if sites_in b found_sites = [] then gf_bodies f ! b
                                 else rewriteBody capacity qualifier (arenaBytesOrDefault arenaBytes) (sites_in b found_sites) (gf_bodies f ! b))
                          [0 ..< n]
           in Some (f1\<lparr>gf_bodies := bodies, gf_comments := [],
                       gf_imports := gf_imports f1 @
                         (if hasBulk \<and> (''unsafe'', None) \<notin> set (gf_imports f1) then [(''unsafe'', None)] else [])\<rparr>))"

record rewrite_result =
  rw_Content :: "go_file option"
  rw_Changed :: bool
  rw_RewrittenCount :: nat

definition Rewrite ::
  "(nat \<Rightarrow> nat) \<Rightarrow> type_info \<Rightarrow> (int \<Rightarrow> string \<times> nat) \<Rightarrow> allocation_decision list \<Rightarrow> allocation_decision list \<Rightarrow>
   string \<Rightarrow> int \<Rightarrow> go_file \<Rightarrow> rewrite_result" where
  "Rewrite capacity ti position pipelineDecisions decisions pkgPath arenaBytes f =
     (let arenaCount = length (filter (\<lambda>d. ad_Decision d = Arena) decisions) in
      if arenaCount = 0 then \<lparr>rw_Content = None, rw_Changed = False, rw_RewrittenCount = 0\<rparr>
      else let out = RewriteFileWithConfig capacity ti position pipelineDecisions pkgPath arenaBytes f
      in \<lparr>rw_Content = out, rw_Changed = out \<noteq> None, rw_RewrittenCount = arenaCount\<rparr>)"

end
