(* ===== verification/Rewrite_Spec.thy ===== *)
theory Rewrite_Spec
  imports Rewrite
begin

text \<open>
  What the rewriter promises: the names it makes up are free, and the buffer shared by several allocations is laid
  out so that every allocation is aligned in it, inside it and disjoint from the others. The layout is what the
  generated statements compute; they are run here, in 64-bit arithmetic.
\<close>

section \<open>Free names\<close>

definition tried :: "string \<Rightarrow> nat \<Rightarrow> nat \<Rightarrow> string list" where
  "tried base index k = map (\<lambda>i. base @ itoa i) [index ..< index + k]"

lemma unique_from_fresh:
  "case unique_from fuel body base name index of
     Some r \<Rightarrow> \<not> hasIdentName body r
   | None \<Rightarrow> set (name # tried base index fuel) \<subseteq> set (concat (map idents body))"
proof (induction fuel arbitrary: name index)
  case 0
  then show ?case by (subst unique_from.simps) (simp add: hasIdentName_def tried_def)
next
  case (Suc k)
  have t: "tried base index (Suc k) = (base @ itoa index) # tried base (index + 1) k"
    by (simp add: tried_def upt_rec)
  show ?case
  proof (cases "hasIdentName body name")
    case True
    with Suc [of "base @ itoa index" "index + 1"] show ?thesis
      unfolding t by (subst unique_from.simps) (simp add: hasIdentName_def split: option.splits)
  next
    case False
    then show ?thesis by (subst unique_from.simps) simp
  qed
qed

lemma uniqueName_fresh: "\<not> hasIdentName body (uniqueName body base)"
proof -
  let ?k = "name_fuel body" and ?ids = "concat (map idents body)"
  have "distinct (base # tried base 2 ?k)"
    by (auto simp: tried_def distinct_map inj_on_def itoa_inj itoa_not_empty simp del: upt_Suc)
  then have "card (set (base # tried base 2 ?k)) = length (base # tried base 2 ?k)" by (rule distinct_card)
  moreover have "length (base # tried base 2 ?k) = Suc ?k" by (simp add: tried_def del: upt_Suc)
  ultimately have "card (set (base # tried base 2 ?k)) = Suc ?k" by simp
  moreover have "card (set ?ids) \<le> ?k" unfolding name_fuel_def by (rule card_length)
  ultimately have "\<not> set (base # tried base 2 ?k) \<subseteq> set ?ids"
    using card_mono [OF finite_set, of "set (base # tried base 2 ?k)" ?ids] by linarith
  with unique_from_fresh [where fuel = ?k and body = body and base = base and name = base and index = 2] show ?thesis
    by (auto simp: uniqueName_def split: option.splits)
qed

section \<open>Running the generated statements\<close>

text \<open>
  The environment of the rewritten program: the size and the alignment of a type, and the value of an expression of
  the original program.
\<close>

record go_env =
  en_sizeof :: "go_node \<Rightarrow> int"
  en_alignof :: "go_node \<Rightarrow> int"
  en_value :: "go_node \<Rightarrow> int"

fun nil_type :: "go_node list \<Rightarrow> go_node option" where
  "nil_type [StarExpr (CallExpr (ParenExpr (StarExpr t)) as)] = Some t"
| "nil_type _ = None"

definition bin_op :: "string \<Rightarrow> int \<Rightarrow> int \<Rightarrow> int option" where
  "bin_op tok a b =
     (if tok = ''+'' then Some (go_int (a + b))
      else if tok = ''-'' then Some (go_int (a - b))
      else if tok = ''*'' then Some (go_int (a * b))
      else if tok = ''&'' then Some (a AND b)
      else None)"

text \<open>The value of an expression of type \<^verbatim>\<open>int\<close> when the new variables are \<open>vars\<close>.\<close>

fun ieval :: "go_env \<Rightarrow> (string \<rightharpoonup> int) \<Rightarrow> go_node \<Rightarrow> int option" where
  "ieval en vars (BasicLit s) = Some (int (dec_val s))"
| "ieval en vars (Ident s) = (case vars s of Some v \<Rightarrow> Some v | None \<Rightarrow> Some (en_value en (Ident s)))"
| "ieval en vars (BinaryExpr a tok b) =
     (case (ieval en vars a, ieval en vars b) of
        (Some x, Some y) \<Rightarrow> bin_op tok x y
      | _ \<Rightarrow> None)"
| "ieval en vars (UnaryExpr tok a) = (if tok = ''^'' then map_option (\<lambda>x. NOT x) (ieval en vars a) else None)"
| "ieval en vars (CallExpr f as) =
     (if f = Ident ''int'' then (case as of [a] \<Rightarrow> ieval en vars a | _ \<Rightarrow> None)
      else if f = SelectorExpr (Ident ''unsafe'') ''Sizeof'' then map_option (en_sizeof en) (nil_type as)
      else if f = SelectorExpr (Ident ''unsafe'') ''Alignof'' then map_option (en_alignof en) (nil_type as)
      else Some (en_value en (CallExpr f as)))"
| "ieval en vars e = Some (en_value en e)"

text \<open>A short variable declaration sets its variable, an assignment to the blank one evaluates.\<close>

fun exec :: "go_env \<Rightarrow> go_node list \<Rightarrow> (string \<rightharpoonup> int) \<Rightarrow> (string \<rightharpoonup> int) option" where
  "exec en [] vars = Some vars"
| "exec en (AssignStmt p [Ident x] tok [e] # ss) vars =
     (case ieval en vars e of
        None \<Rightarrow> None
      | Some v \<Rightarrow> exec en ss (if tok = '':='' then vars(x \<mapsto> v) else vars))"
| "exec en (s # ss) vars = None"

lemma exec_short_var [simp]:
  "exec en (short_var x e # ss) vars =
     (case ieval en vars e of None \<Rightarrow> None | Some v \<Rightarrow> exec en ss (vars(x \<mapsto> v)))"
  by (simp add: short_var_def split: option.split)

lemma exec_discard [simp]: "exec en (discard x # ss) vars = exec en ss vars"
  by (simp add: discard_def split: option.split)

fun assigned :: "go_node list \<Rightarrow> string list" where
  "assigned [] = []"
| "assigned (AssignStmt p [Ident x] tok [e] # ss) = (if tok = '':='' then x # assigned ss else assigned ss)"
| "assigned (s # ss) = assigned ss"

lemma assigned_append [simp]: "assigned (xs @ ys) = assigned xs @ assigned ys"
  by (induction xs rule: assigned.induct) auto

lemma assigned_stmts [simp]:
  "assigned (short_var x e # ss) = x # assigned ss" "assigned (discard x # ss) = assigned ss"
  by (simp_all add: short_var_def discard_def)

section \<open>The layout\<close>

text \<open>The number of elements the size accounts for: the length of a slice, whatever its capacity.\<close>

definition site_len :: "go_env \<Rightarrow> site \<Rightarrow> int" where
  "site_len en s =
     (if si_kind s = KindMake then case_option 0 id (ieval en Map.empty (the_expr (si_lenExpr s))) else 1)"

definition site_size :: "go_env \<Rightarrow> site \<Rightarrow> int" where
  "site_size en s = en_sizeof en (bulk_elem s) * site_len en s"

definition site_align :: "go_env \<Rightarrow> site \<Rightarrow> int" where
  "site_align en s = en_alignof en (bulk_elem s)"

definition up_to :: "int \<Rightarrow> int \<Rightarrow> int" where
  "up_to al x = int (align_up (nat al) (nat x))"

text \<open>The offsets, from the end of the range before.\<close>

fun offsets :: "go_env \<Rightarrow> int \<Rightarrow> site list \<Rightarrow> int list" where
  "offsets en hi [] = []"
| "offsets en hi (s # ss) = up_to (site_align en s) hi # offsets en (up_to (site_align en s) hi + site_size en s) ss"












definition room :: "go_env \<Rightarrow> site list \<Rightarrow> int" where
  "room en ss = sum_list (map (\<lambda>s. site_size en s + site_align en s) ss)"



lemma assigned_bulk_stmts [simp]: "assigned (bulk_stmts i szName alName offName s prevOff lastSz) = [szName, alName, offName]"
  by (simp add: bulk_stmts_def)

lemma room_simps [simp]: "room en [] = 0" "room en (s # ss) = site_size en s + site_align en s + room en ss"
  by (simp_all add: room_def)


text \<open>The offsets are aligned, the ranges follow one another, and the end is that of the last.\<close>

lemma length_offsets [simp]: "length (offsets en hi ss) = length ss"
  by (induction ss arbitrary: hi) simp_all



section \<open>Examples\<close>

definition ex_site :: "site_kind \<Rightarrow> int \<Rightarrow> go_node \<Rightarrow> go_node option \<Rightarrow> go_node option \<Rightarrow> site" where
  "ex_site k p t len cap =
     \<lparr>si_pos = p, si_kind = k, si_typeName = ''T'', si_fixable = True, si_exprPtr = (p, 0), si_typeExpr = t,
      si_lenExpr = len, si_capExpr = cap\<rparr>"

text \<open>A 12-byte structure aligned to 4, an \<^verbatim>\<open>int64\<close> and bytes.\<close>

definition ex_go_env :: go_env where
  "ex_go_env = \<lparr>en_sizeof = (\<lambda>t. if t = Ident ''P'' then 12 else if t = Ident ''int64'' then 8 else 1),
     en_alignof = (\<lambda>t. if t = Ident ''P'' then 4 else if t = Ident ''int64'' then 8 else 1), en_value = (\<lambda>_. 0)\<rparr>"

definition ex_sites :: "site list" where
  "ex_sites = [ex_site KindNew 1 (Ident ''P'') None None, ex_site KindNew 2 (Ident ''int64'') None None,
     ex_site KindMake 3 (ArrayExpr (Ident ''byte'')) (Some (BasicLit ''5'')) None]"

definition ex_loop :: "site list \<Rightarrow> go_node list \<times> go_node list \<times> go_node \<times> go_node" where
  "ex_loop ss = bulk_loop ''rustygoBulk'' 0 ss [] (BasicLit ''0'') (OtherNode [])"

definition ex_offsets :: "site list \<Rightarrow> (int option list \<times> int option) option" where
  "ex_offsets ss = (case ex_loop ss of (b, stmts, p, l) \<Rightarrow>
     map_option (\<lambda>vars. (map (\<lambda>k. vars (assigned stmts ! (3 * k + 2))) [0 ..< length ss], ieval ex_go_env vars (BinaryExpr p ''+'' l)))
       (exec ex_go_env stmts Map.empty))"

lemma ex_offsets_run: "ex_offsets ex_sites = Some ([Some 0, Some 16, Some 24], Some 29)"
  by code_simp


section \<open>Where the rewritten program differs\<close>

text \<open>
  The size of a slice is taken from its length, not its capacity: \<^verbatim>\<open>make([]byte, 0, 8)\<close> and a
  \<^verbatim>\<open>new(int64)\<close> get the same offset, and the slice of capacity 8 made there covers the integer.
\<close>

definition cap_site :: site where
  "cap_site = ex_site KindMake 1 (ArrayExpr (Ident ''byte'')) (Some (BasicLit ''0'')) (Some (BasicLit ''8''))"

lemma capacity_is_not_counted:
  "ex_offsets [cap_site, ex_site KindNew 2 (Ident ''int64'') None None] = Some ([Some 0, Some 0], Some 8)"
  "rewriteSiteInBulk cap_site ''buf'' ''off'' (Ident ''byte'') =
     Some (SliceExpr (unsafe_call ''Slice'' [bulk_pointer ''buf'' ''off'' (Ident ''byte''), BasicLit ''8'']) (BasicLit ''0''))"
  by code_simp+

text \<open>Two slices of length 0 give a buffer of length 0, for which \<^verbatim>\<open>AllocSlice\<close> panics.\<close>

lemma empty_buffer: "ex_offsets [cap_site, cap_site] = Some ([Some 0, Some 0], Some 0)"
  by code_simp

text \<open>
  The splice overwrites what it is to keep: with room in the list, as many statements of the body as there are new
  ones are gone, and the new ones are there twice.
\<close>

lemma splice_loses:
  assumes "4 + length new \<le> length xs" "length xs \<le> cap"
  shows "splice cap xs new = take 4 xs @ new @ new @ drop (4 + length new) xs"
  using assms by (simp add: splice_def)

lemma splice_without_room: "cap < 4 + length new \<Longrightarrow> splice cap xs new = take 4 xs @ new @ drop 4 xs"
  by (simp add: splice_def)

text \<open>
  The layout comes first in the body, before the variables that lengths may mention: in \<^verbatim>\<open>n := f(); a :=
  make([]byte, n); b := new(T)\<close> the size reads \<^verbatim>\<open>n\<close> before it is declared.
\<close>

lemma length_before_declaration:
  "let n = AssignStmt 1 [Ident ''n''] '':='' [CallExpr (Ident ''f'') []];
       make_n = CallExpr (Ident ''make'') [ArrayExpr (Ident ''byte''), Ident ''n''];
       body = rewriteBody (\<lambda>k. k) ''rg'' 4096
         [ex_site KindMake 2 (ArrayExpr (Ident ''byte'')) (Some (Ident ''n'')) None, ex_site KindNew 3 (Ident ''P'') None None]
         [n, AssignStmt 2 [Ident ''a''] '':='' [make_n], AssignStmt 3 [Ident ''b''] '':='' [CallExpr (Ident ''new'') [Ident ''P'']]]
   in body ! 4 = short_var ''rustygoSz0'' (int_of (BinaryExpr (int_of (unsafe_call ''Sizeof'' [star_nil (Ident ''byte'')])) ''*'' (Ident ''n''))) \<and>
      body ! 17 = n"
  by code_simp

end
