(* ===== verification/Capi.thy ===== *)
theory Capi
  imports Arena_Props "HOL-Library.AList"
begin

text \<open>
  The C interface of \<^verbatim>\<open>cmd/librustygo/main.go\<close>: arenas behind integer handles. The \<^verbatim>\<open>sync.Map\<close> of live
  arenas is an association list, the handle counter a 64-bit word, a C pointer its address, nil is None.
  Calls run one after the other; what the operating system answers is an argument of the call.
\<close>

section \<open>State and operations\<close>

record c_state =
  ca_handleSeq :: u64
  ca_arenas :: "(u64 \<times> arena) list"
  ca_metrics :: metrics

definition c_start :: c_state where
  "c_start = \<lparr>ca_handleSeq = 0, ca_arenas = [], ca_metrics = metrics0\<rparr>"

definition rustygo_arena_new :: "os_env \<Rightarrow> int \<Rightarrow> c_state \<Rightarrow> c_state \<times> u64 go" where
  "rustygo_arena_new os siz s =
     (let sz = (if siz \<le> 0 then 64 * 1024 else siz)
      in case NewArena os sz [] (ca_metrics s) of
           (m, Panic p) \<Rightarrow> (s\<lparr>ca_metrics := m\<rparr>, Panic p)
         | (m, Return a) \<Rightarrow>
             let h = ca_handleSeq s + 1
             in (s\<lparr>ca_handleSeq := h, ca_arenas := AList.update h a (ca_arenas s), ca_metrics := m\<rparr>, Return h))"

text \<open>\<^verbatim>\<open>!ok || len(buf) == 0\<close> gives nil, else the address of the first byte.\<close>

definition first_byte :: "arena \<times> slice option \<Rightarrow> nat option" where
  "first_byte r =
     (case r of
        (_, None) \<Rightarrow> None
      | (a, Some sl) \<Rightarrow> if sl_len sl = 0 then None else Some (byte_addr a (sl_chunk sl, sl_lo sl)))"

definition rustygo_arena_alloc ::
  "os_env \<Rightarrow> u64 \<Rightarrow> int \<Rightarrow> int \<Rightarrow> c_state \<Rightarrow> c_state \<times> nat option" where
  "rustygo_arena_alloc os h siz align s =
     (case map_of (ca_arenas s) h of
        None \<Rightarrow> (s, None)
      | Some a \<Rightarrow>
          let r = (if align \<le> 1 then TryAlloc os a siz else TryAllocAligned os a siz align)
          in (s\<lparr>ca_arenas := AList.update h (fst r) (ca_arenas s)\<rparr>, first_byte r))"

definition rustygo_arena_reset :: "u64 \<Rightarrow> c_state \<Rightarrow> c_state" where
  "rustygo_arena_reset h s =
     (case map_of (ca_arenas s) h of
        None \<Rightarrow> s
      | Some a \<Rightarrow> s\<lparr>ca_arenas := AList.update h (Reset a) (ca_arenas s)\<rparr>)"

text \<open>\<^verbatim>\<open>LoadAndDelete\<close>, then \<^verbatim>\<open>Close\<close>, whose error is dropped.\<close>

definition rustygo_arena_close :: "os_env \<Rightarrow> u64 \<Rightarrow> c_state \<Rightarrow> c_state" where
  "rustygo_arena_close os h s =
     (case map_of (ca_arenas s) h of
        None \<Rightarrow> s
      | Some a \<Rightarrow>
          (case Close os a (ca_metrics s) of
             (m, _, _) \<Rightarrow> s\<lparr>ca_arenas := AList.delete h (ca_arenas s), ca_metrics := m\<rparr>))"

definition rustygo_arena_used_bytes :: "u64 \<Rightarrow> c_state \<Rightarrow> int" where
  "rustygo_arena_used_bytes h s = (case map_of (ca_arenas s) h of None \<Rightarrow> 0 | Some a \<Rightarrow> UsedBytes a)"

section \<open>The memory of an arena\<close>

definition arena_mem :: "arena \<Rightarrow> nat set" where
  "arena_mem a = \<Union> (addr_range ` set (ar_chunks a))"

definition used_addrs :: "arena \<Rightarrow> nat set" where
  "used_addrs a = byte_addr a ` live_bytes a"

lemma used_addrs_mem: "arena_inv a \<Longrightarrow> used_addrs a \<subseteq> arena_mem a"
  using byte_addr_in_range by (force simp: used_addrs_def arena_mem_def live_bytes_def)

lemma used_addrs_ext:
  assumes "arena_ext a b"
  shows "used_addrs a \<subseteq> used_addrs b"
proof -
  have "byte_addr b q = byte_addr a q" if "q \<in> live_bytes a" for q
    using assms that by (auto simp: arena_ext_def byte_addr_def live_bytes_def)
  then have "used_addrs a = byte_addr b ` live_bytes a" by (auto simp: used_addrs_def)
  then show ?thesis using arena_ext_live [OF assms] by (auto simp: used_addrs_def)
qed

lemma os_ok_subset: "os_ok os cs \<Longrightarrow> set ds \<subseteq> set cs \<Longrightarrow> os_ok os ds"
  unfolding os_ok_def by blast

lemma addr_range_off [simp]: "addr_range (c\<lparr>ch_off := x\<rparr>) = addr_range c"
  by (simp add: addr_range_def)

lemma arena_mem_active [simp]: "arena_mem (a\<lparr>ar_active := x\<rparr>) = arena_mem a"
  by (simp add: arena_mem_def)

lemma chunk_alloc_range: "chunk_alloc c n al = Some (c', lo, hi) \<Longrightarrow> addr_range c' = addr_range c"
  by (auto simp: chunk_alloc_def chunk_tryAlloc_def chunk_tryAllocAligned_def Let_def split: if_splits)

lemma UN_update:
  assumes "f x = f (xs ! i)"
  shows "\<Union> (f ` set (xs[i := x])) = \<Union> (f ` set xs)"
proof (cases "i < length xs")
  case True
  then have "map f (xs[i := x]) = map f xs" using assms by (simp add: map_update list_update_same_conv)
  then have "set (map f (xs[i := x])) = set (map f xs)" by simp
  then show ?thesis by simp
qed (simp add: list_update_beyond)

lemma alloc_at_mem:
  assumes "alloc_at (\<lambda>c. chunk_alloc c n al) a i = Some (b, s)"
  shows "arena_mem b = arena_mem a"
proof -
  obtain c' lo hi where c: "chunk_alloc (ar_chunks a ! i) n al = Some (c', lo, hi)"
    and b: "b = a\<lparr>ar_chunks := (ar_chunks a)[i := c']\<rparr>"
    using assms by (auto simp: alloc_at_def split: option.splits)
  show ?thesis using UN_update [OF chunk_alloc_range [OF c]] by (simp add: b arena_mem_def)
qed

lemma scan_chunks_mem: "scan_chunks a n al js = Some (b, s) \<Longrightarrow> arena_mem b = arena_mem a"
  by (induction js) (auto split: option.splits dest: alloc_at_mem)

text \<open>An arena grows into memory no live chunk has.\<close>

lemma grow_arena_mem:
  assumes os: "os_ok os cs" "set (ar_chunks a) \<subseteq> set cs" and inv: "arena_inv a" and n: "0 < n" "n < 2 ^ 63"
    and d: "d \<in> set cs" "addr_range d \<inter> arena_mem a = {}"
  shows "addr_range d \<inter> arena_mem (fst (grow_arena os a n al)) = {}"
proof (cases "grow_size a n")
  case None
  then show ?thesis using d by (simp add: grow_arena_def)
next
  case (Some sz)
  show ?thesis
  proof (cases "newChunk os sz (ar_guardPages a)")
    case (Inl e)
    then show ?thesis using d Some by (simp add: grow_arena_def)
  next
    case (Inr c)
    let ?a1 = "a\<lparr>ar_chunks := ar_chunks a @ [c], ar_active := Some (length (ar_chunks a))\<rparr>"
    have "fresh_chunk cs sz c" using newChunk_fresh [OF os(1) _ _ Inr] grow_size_Some [OF inv n Some] n by simp
    then have m: "addr_range d \<inter> arena_mem ?a1 = {}"
      using d by (auto simp: fresh_chunk_def arena_mem_def)
    show ?thesis
      using m d Some Inr alloc_at_mem [of n al ?a1 "length (ar_chunks a)"]
      by (cases "alloc_at (\<lambda>c. chunk_alloc c n al) ?a1 (length (ar_chunks a))")
        (auto simp: grow_arena_def Let_def simp del: arena_mem_active)
  qed
qed

lemma allocSlow_mem:
  assumes "os_ok os cs" "set (ar_chunks a) \<subseteq> set cs" "arena_inv a" "0 < n" "n < 2 ^ 63"
    and "d \<in> set cs" "addr_range d \<inter> arena_mem a = {}"
  shows "addr_range d \<inter> arena_mem (fst (allocSlow os a n al)) = {}"
proof (cases "ar_active a")
  case None
  then show ?thesis using grow_arena_mem [OF assms] by (simp add: allocSlow_def)
next
  case (Some i)
  then show ?thesis
    using grow_arena_mem [OF assms] assms(7) alloc_at_mem [of n al a i] scan_chunks_mem [of a n al "[Suc i ..< length (ar_chunks a)]"]
    by (auto simp: allocSlow_def simp del: upt_Suc split: option.split)
qed

section \<open>One call of the allocator\<close>

abbreviation c_request :: "os_env \<Rightarrow> arena \<Rightarrow> int \<Rightarrow> int \<Rightarrow> arena \<times> slice option" where
  "c_request os a n al \<equiv> (if al \<le> 1 then TryAlloc os a n else TryAllocAligned os a n al)"

lemma c_request_invalid: "\<not> (0 < n \<and> isPowerOfTwo (max 1 al)) \<Longrightarrow> c_request os a n al = (a, None)"
  by (cases "al \<le> 1") (auto simp: TryAlloc_def TryAllocAligned_def isPowerOfTwo_def max_absorb1 max_absorb2)

lemma c_request_slow:
  assumes "arena_inv a" "0 < n" "n < 2 ^ 63" "isPowerOfTwo (max 1 al)" "al < 2 ^ 63"
  shows "c_request os a n al = allocSlow os a n (max 1 al)"
  using assms by (auto simp: TryAlloc_alloc TryAllocAligned_alloc valid_req_def max_def)

lemma c_request_outcome:
  assumes inv: "arena_inv a" and os: "os_ok os cs" "set (ar_chunks a) \<subseteq> set cs" and n: "in_int64 n" "in_int64 al"
  shows "alloc_outcome a n (max 1 al) (c_request os a n al)"
    and "d \<in> set cs \<Longrightarrow> addr_range d \<inter> arena_mem a = {} \<Longrightarrow>
      addr_range d \<inter> arena_mem (fst (c_request os a n al)) = {}"
proof -
  have b: "n < 2 ^ 63" "al < 2 ^ 63" using n by (auto simp: in_int64_def)
  consider "0 < n" "isPowerOfTwo (max 1 al)" | "c_request os a n al = (a, None)"
    using c_request_invalid by blast
  then have "alloc_outcome a n (max 1 al) (c_request os a n al) \<and>
    (d \<in> set cs \<longrightarrow> addr_range d \<inter> arena_mem a = {} \<longrightarrow> addr_range d \<inter> arena_mem (fst (c_request os a n al)) = {})"
  proof cases
    case 1
    have "valid_req n (max 1 al)" using 1 b by (auto simp: valid_req_def)
    then show ?thesis
      using allocSlow_outcome [OF inv _ os_ok_subset [OF os], of n "max 1 al"] allocSlow_mem [OF os inv 1(1) b(1)]
      unfolding c_request_slow [OF inv 1(1) b(1) 1(2) b(2)] by blast
  next
    case 2
    then show ?thesis using inv by (simp only: alloc_outcome_same fst_conv) simp
  qed
  then show "alloc_outcome a n (max 1 al) (c_request os a n al)"
    and "d \<in> set cs \<Longrightarrow> addr_range d \<inter> arena_mem a = {} \<Longrightarrow>
      addr_range d \<inter> arena_mem (fst (c_request os a n al)) = {}" by blast+
qed

text \<open>What a request hands out: addresses nobody used, inside the memory of the arena.\<close>

lemma got_slice_addrs:
  assumes inv: "arena_inv a" and g: "got_slice a n al b sl"
  defines "p \<equiv> byte_addr b (sl_chunk sl, sl_lo sl)"
  shows "{p ..< p + nat n} \<inter> used_addrs a = {}" "{p ..< p + nat n} \<union> used_addrs a \<subseteq> used_addrs b" "nat al dvd p"
proof -
  have G: "arena_inv b" "arena_ext a b" "region sl \<inter> live_bytes a = {}" "region sl \<subseteq> live_bytes b" "sl_len sl = nat n"
    using g by (auto simp: got_slice_def)
  have sub: "live_bytes a \<subseteq> live_bytes b" using G(2) by (rule arena_ext_live)
  have same: "byte_addr b q = byte_addr a q" if "q \<in> live_bytes a" for q
    using G(2) that by (auto simp: arena_ext_def byte_addr_def live_bytes_def)
  have r: "{p ..< p + nat n} = byte_addr b ` region sl"
  proof (intro equalityI subsetI)
    fix x assume "x \<in> {p ..< p + nat n}"
    then have "x = byte_addr b (sl_chunk sl, sl_lo sl + (x - p)) \<and> (sl_chunk sl, sl_lo sl + (x - p)) \<in> region sl"
      using G(5) by (auto simp: p_def byte_addr_def region_def sl_hi_def)
    then show "x \<in> byte_addr b ` region sl" by blast
  qed (use G(5) in \<open>auto simp: p_def byte_addr_def region_def sl_hi_def\<close>)
  have u: "used_addrs a = byte_addr b ` live_bytes a" using same by (auto simp: used_addrs_def)
  show "{p ..< p + nat n} \<inter> used_addrs a = {}"
    unfolding r u using inj_on_image_Int [OF inj_on_byte_addr [OF G(1)] G(4) sub] G(3) by simp
  show "{p ..< p + nat n} \<union> used_addrs a \<subseteq> used_addrs b"
    using used_addrs_ext [OF G(2)] G(4) unfolding r by (auto simp: used_addrs_def)
  show "nat al dvd p" using g by (simp add: got_slice_def p_def)
qed

section \<open>Runs of calls\<close>

text \<open>All chunks of all live arenas: what the operating system must keep new mappings away from.\<close>

definition ca_chunks :: "c_state \<Rightarrow> chunk list" where
  "ca_chunks s = concat (map (\<lambda>(_, a). ar_chunks a) (ca_arenas s))"

text \<open>A block a caller holds: the handle it came from, its address, size and alignment.\<close>

type_synonym c_block = "u64 \<times> nat \<times> nat \<times> nat"

definition block_addrs :: "c_block \<Rightarrow> nat set" where
  "block_addrs b = (case b of (_, p, n, _) \<Rightarrow> {p ..< p + n})"

text \<open>
  A step is a call, with the blocks held by the callers: \<^verbatim>\<open>reset\<close> and \<^verbatim>\<open>close\<close> end the life of the blocks of
  their handle. A panic in \<^verbatim>\<open>rustygo_arena_new\<close> ends the process, so it has no step. The 2^64th
  handle would be 0 again: the counter is taken not to run over.
\<close>

inductive c_step :: "c_state \<times> c_block list \<Rightarrow> c_state \<times> c_block list \<Rightarrow> bool" where
  call_new: "os_ok os (ca_chunks s) \<Longrightarrow> siz < 2 ^ 62 \<Longrightarrow> ca_handleSeq s \<noteq> - 1 \<Longrightarrow>
    rustygo_arena_new os siz s = (s', Return h) \<Longrightarrow> c_step (s, bs) (s', bs)"
| call_alloc: "os_ok os (ca_chunks s) \<Longrightarrow> in_int64 siz \<Longrightarrow> in_int64 align \<Longrightarrow>
    rustygo_arena_alloc os h siz align s = (s', Some p) \<Longrightarrow>
    c_step (s, bs) (s', (h, p, nat siz, nat (max 1 align)) # bs)"
| call_refused: "os_ok os (ca_chunks s) \<Longrightarrow> in_int64 siz \<Longrightarrow> in_int64 align \<Longrightarrow>
    rustygo_arena_alloc os h siz align s = (s', None) \<Longrightarrow> c_step (s, bs) (s', bs)"
| call_reset: "c_step (s, bs) (rustygo_arena_reset h s, filter (\<lambda>b. fst b \<noteq> h) bs)"
| call_close: "c_step (s, bs) (rustygo_arena_close os h s, filter (\<lambda>b. fst b \<noteq> h) bs)"

inductive_cases c_stepE: "c_step x y"

definition table_ok :: "(u64 \<times> arena) list \<Rightarrow> bool" where
  "table_ok t \<longleftrightarrow> distinct (map fst t) \<and> (\<forall>(h, a) \<in> set t. arena_inv a) \<and>
     (\<forall>(h, a) \<in> set t. \<forall>(k, b) \<in> set t. h \<noteq> k \<longrightarrow> arena_mem a \<inter> arena_mem b = {})"

definition handles_ok :: "c_state \<Rightarrow> bool" where
  "handles_ok s \<longleftrightarrow>
     (\<forall>h \<in> dom (map_of (ca_arenas s)). 0 < unat h \<and> unat h \<le> unat (ca_handleSeq s))"

definition block_ok :: "(u64 \<times> arena) list \<Rightarrow> c_block \<Rightarrow> bool" where
  "block_ok t b = (case b of (h, p, n, al) \<Rightarrow>
     0 < n \<and> al dvd p \<and> (\<exists>a. map_of t h = Some a \<and> block_addrs b \<subseteq> used_addrs a))"

definition c_ok :: "c_state \<times> c_block list \<Rightarrow> bool" where
  "c_ok x = (case x of (s, bs) \<Rightarrow> table_ok (ca_arenas s) \<and> handles_ok s \<and>
     (\<forall>b \<in> set bs. block_ok (ca_arenas s) b) \<and>
     sorted_wrt (\<lambda>b c. block_addrs b \<inter> block_addrs c = {}) bs)"

lemma table_arena: "table_ok t \<Longrightarrow> map_of t h = Some a \<Longrightarrow> arena_inv a"
  by (auto simp: table_ok_def dest!: map_of_SomeD)

lemma table_apart:
  "table_ok t \<Longrightarrow> map_of t h = Some a \<Longrightarrow> map_of t k = Some b \<Longrightarrow> h \<noteq> k \<Longrightarrow> arena_mem a \<inter> arena_mem b = {}"
  unfolding table_ok_def by (fastforce dest!: map_of_SomeD)

text \<open>The table in terms of its lookups, so that updates are updates of a map.\<close>

lemma table_okI:
  assumes "distinct (map fst t)" "\<And>h a. map_of t h = Some a \<Longrightarrow> arena_inv a"
    and "\<And>h a k b. map_of t h = Some a \<Longrightarrow> map_of t k = Some b \<Longrightarrow> h \<noteq> k \<Longrightarrow> arena_mem a \<inter> arena_mem b = {}"
  shows "table_ok t"
proof -
  have m: "map_of t h = Some a" if "(h, a) \<in> set t" for h a using assms(1) that by simp
  show ?thesis unfolding table_ok_def
  proof (intro conjI ballI, goal_cases)
    case 1
    show ?case by (rule assms(1))
  next
    case (2 x)
    then show ?case using m assms(2) by (cases x) auto
  next
    case (3 x)
    show ?case
    proof (cases x)
      case (Pair h a)
      have "map_of t h = Some a" using 3 m Pair by simp
      then show ?thesis using assms(3) m by (auto simp: Pair) blast
    qed
  qed
qed

lemma table_ok_update:
  assumes "table_ok t" "arena_inv a"
    and "\<And>k b. map_of t k = Some b \<Longrightarrow> k \<noteq> h \<Longrightarrow> arena_mem b \<inter> arena_mem a = {}"
  shows "table_ok (AList.update h a t)"
proof (rule table_okI)
  show "distinct (map fst (AList.update h a t))"
    using assms(1) by (intro distinct_update) (simp add: table_ok_def)
  show "arena_inv b" if "map_of (AList.update h a t) k = Some b" for k b
    using that assms(2) table_arena [OF assms(1)] by (auto simp: update_conv' split: if_splits)
  show "arena_mem b \<inter> arena_mem c = {}"
    if "map_of (AList.update h a t) k = Some b" "map_of (AList.update h a t) l = Some c" "k \<noteq> l" for k l b c
    using that assms(3) [of k b] assms(3) [of l c] table_apart [OF assms(1), of k b l c]
    by (auto simp: update_conv' Int_commute split: if_splits)
qed

lemma table_ok_delete:
  assumes "table_ok t"
  shows "table_ok (AList.delete h t)"
proof (rule table_okI)
  show "distinct (map fst (AList.delete h t))"
    using assms by (intro distinct_delete) (simp add: table_ok_def)
  show "arena_inv b" if "map_of (AList.delete h t) k = Some b" for k b
    using that table_arena [OF assms, of k b] by (simp add: delete_conv' split: if_splits)
  show "arena_mem b \<inter> arena_mem c = {}"
    if "map_of (AList.delete h t) k = Some b" "map_of (AList.delete h t) l = Some c" "k \<noteq> l" for k l b c
    using that table_apart [OF assms, of k b l c] by (simp add: delete_conv' split: if_splits)
qed

text \<open>A block survives whatever happens to other handles, and while its own arena only grows.\<close>

lemma block_ok_update:
  assumes "block_ok t b" "fst b = h \<Longrightarrow> used_addrs (the (map_of t h)) \<subseteq> used_addrs a"
  shows "block_ok (AList.update h a t) b"
  using assms by (cases b) (auto simp: block_ok_def update_conv' split: if_splits; blast)

lemma block_ok_delete: "block_ok t b \<Longrightarrow> fst b \<noteq> h \<Longrightarrow> block_ok (AList.delete h t) b"
  by (cases b) (auto simp: block_ok_def delete_conv')

lemma ca_chunks_memD: "map_of (ca_arenas s) h = Some a \<Longrightarrow> set (ar_chunks a) \<subseteq> set (ca_chunks s)"
  by (auto simp: ca_chunks_def dest!: map_of_SomeD)

lemma arena_mem_apart: "(\<And>d. d \<in> set (ar_chunks b) \<Longrightarrow> addr_range d \<inter> M = {}) \<Longrightarrow> arena_mem b \<inter> M = {}"
  by (auto simp: arena_mem_def)

lemma c_alloc_ok:
  assumes ok: "c_ok (s, bs)" and os: "os_ok os (ca_chunks s)" and n: "in_int64 siz" "in_int64 align"
    and r: "rustygo_arena_alloc os h siz align s = (s', r)"
  shows "c_ok (s', bs) \<and> (\<forall>p. r = Some p \<longrightarrow> c_ok (s', (h, p, nat siz, nat (max 1 align)) # bs))"
proof (cases "map_of (ca_arenas s) h")
  case None
  then show ?thesis using r ok by (simp add: rustygo_arena_alloc_def)
next
  case (Some a)
  define q where "q = c_request os a siz align"
  have tab: "table_ok (ca_arenas s)" and inv: "arena_inv a"
    using ok Some table_arena by (auto simp: c_ok_def)
  have s': "s' = s\<lparr>ca_arenas := AList.update h (fst q) (ca_arenas s)\<rparr>" and rq: "r = first_byte q"
    using r Some by (simp_all add: rustygo_arena_alloc_def q_def Let_def)
  have out: "alloc_outcome a siz (max 1 align) q"
    and mem: "\<And>d. d \<in> set (ca_chunks s) \<Longrightarrow> addr_range d \<inter> arena_mem a = {} \<Longrightarrow> addr_range d \<inter> arena_mem (fst q) = {}"
    unfolding q_def using c_request_outcome [OF inv os ca_chunks_memD [OF Some] n] by blast+
  have inv': "arena_inv (fst q)" and ext: "arena_ext a (fst q)" using out by (auto simp: alloc_outcome_def)
  have apart: "arena_mem b \<inter> arena_mem (fst q) = {}" if "map_of (ca_arenas s) k = Some b" "k \<noteq> h" for k b
  proof (rule arena_mem_apart)
    fix d assume d: "d \<in> set (ar_chunks b)"
    then have "addr_range d \<inter> arena_mem a = {}"
      using table_apart [OF tab that(1) Some that(2)] by (auto simp: arena_mem_def)
    then show "addr_range d \<inter> arena_mem (fst q) = {}" using mem ca_chunks_memD [OF that(1)] d by blast
  qed
  have sub: "used_addrs a \<subseteq> used_addrs (fst q)"
    by (rule used_addrs_ext [OF ext])
  have old: "\<forall>b \<in> set bs. block_ok (ca_arenas s') b"
    using ok sub Some by (auto simp: s' c_ok_def intro!: block_ok_update)
  have hand: "handles_ok s'"
    using ok Some by (auto simp: s' c_ok_def handles_ok_def update_conv' dom_fun_upd simp del: fun_upd_apply)
  have base: "c_ok (s', bs)"
    using ok old hand table_ok_update [OF tab inv' apart] by (simp add: c_ok_def s')
  moreover have "c_ok (s', (h, p, nat siz, nat (max 1 align)) # bs)" if p: "r = Some p" for p
  proof -
    obtain sl where sl: "snd q = Some sl" "sl_len sl \<noteq> 0" "p = byte_addr (fst q) (sl_chunk sl, sl_lo sl)"
      using p by (cases q) (auto simp: rq first_byte_def split: option.splits if_splits)
    then have g: "got_slice a siz (max 1 align) (fst q) sl" using out by (simp add: alloc_outcome_def)
    note G = got_slice_addrs [OF inv g, folded sl(3)]
    have n0: "0 < nat siz" using g sl(2) by (simp add: got_slice_def)
    have "{p ..< p + nat siz} \<inter> block_addrs b = {}" if b: "b \<in> set bs" for b
    proof -
      obtain k c where k: "map_of (ca_arenas s) k = Some c" "block_addrs b \<subseteq> used_addrs c"
        using ok b by (cases b) (auto simp: c_ok_def block_ok_def)
      show ?thesis
      proof (cases "k = h")
        case True
        then show ?thesis using k Some G(1) by auto
      next
        case False
        then have "arena_mem c \<inter> arena_mem (fst q) = {}" using apart k(1) by blast
        moreover have "{p ..< p + nat siz} \<subseteq> arena_mem (fst q)" using G(2) used_addrs_mem [OF inv'] by blast
        moreover have "block_addrs b \<subseteq> arena_mem c" using k(2) used_addrs_mem table_arena [OF tab k(1)] by blast
        ultimately show ?thesis by blast
      qed
    qed
    moreover have "block_ok (ca_arenas s') (h, p, nat siz, nat (max 1 align))"
      using n0 G(2,3) by (simp add: block_ok_def s' block_addrs_def update_conv')
    ultimately show ?thesis using base by (simp add: c_ok_def block_addrs_def)
  qed
  ultimately show ?thesis by blast
qed

lemma c_new_state:
  assumes "rustygo_arena_new os siz s = (s', Return h)"
  obtains m a where "NewArena os (if siz \<le> 0 then 64 * 1024 else siz) [] (ca_metrics s) = (m, Return a)"
    "h = ca_handleSeq s + 1"
    "s' = s\<lparr>ca_handleSeq := h, ca_arenas := AList.update h a (ca_arenas s), ca_metrics := m\<rparr>"
proof -
  obtain m ar where ar: "NewArena os (if siz \<le> 0 then 64 * 1024 else siz) [] (ca_metrics s) = (m, ar)" by force
  have r: "(case ar of Panic p \<Rightarrow> (s\<lparr>ca_metrics := m\<rparr>, Panic p)
      | Return a \<Rightarrow> (s\<lparr>ca_handleSeq := ca_handleSeq s + 1,
          ca_arenas := AList.update (ca_handleSeq s + 1) a (ca_arenas s), ca_metrics := m\<rparr>, Return (ca_handleSeq s + 1))) = (s', Return h)"
    using assms unfolding rustygo_arena_new_def Let_def ar prod.case .
  obtain a where ra: "ar = Return a" using r by (cases ar) simp_all
  show ?thesis
    using r ar unfolding ra go.case by (intro that [of m a]) blast+
qed

lemma next_handle: "ca_handleSeq s \<noteq> - 1 \<Longrightarrow> unat (ca_handleSeq s + 1) = Suc (unat (ca_handleSeq s))"
  using unatSuc [of "ca_handleSeq s"] by (auto simp: add.commute eq_neg_iff_add_eq_0)

lemma c_new_ok:
  assumes ok: "c_ok (s, bs)" and os: "os_ok os (ca_chunks s)" and siz: "siz < 2 ^ 62" and seq: "ca_handleSeq s \<noteq> - 1"
    and r: "rustygo_arena_new os siz s = (s', Return h)"
  shows "c_ok (s', bs)"
proof -
  define sz where "sz = (if siz \<le> 0 then 64 * 1024 else siz)"
  obtain m a where a: "NewArena os sz [] (ca_metrics s) = (m, Return a)" and h: "h = ca_handleSeq s + 1"
    and s': "s' = s\<lparr>ca_handleSeq := h, ca_arenas := AList.update h a (ca_arenas s), ca_metrics := m\<rparr>"
    using c_new_state [OF r] unfolding sz_def by metis
  have szb: "0 < sz" "sz < 2 ^ 62" using siz by (auto simp: sz_def)
  have cfg: "ar_chunkSize (arena_config sz []) = sz" "ar_maxCap (arena_config sz []) = 0"
    by (simp_all add: arena_config_def)
  have os0: "os_ok os []" using os by (rule os_ok_subset) simp
  have inv: "arena_inv a" "live_bytes a = {}"
    using NewArena_inv [OF a os0] szb cfg by auto
  obtain chk where chk: "newChunk os sz (ar_guardPages (arena_config sz [])) = Inr chk"
    and ac: "ar_chunks a = [chk]"
    using a szb cfg by (auto simp: NewArena_def Let_def split: sum.splits)
  have fr: "fresh_chunk (ca_chunks s) sz chk" using newChunk_fresh [OF os szb(1) _ chk] szb(2) by simp
  have un: "unat h = Suc (unat (ca_handleSeq s))" using next_handle [OF seq] by (simp add: h)
  have new: "map_of (ca_arenas s) h = None"
  proof (rule ccontr)
    assume "map_of (ca_arenas s) h \<noteq> None"
    then have "h \<in> dom (map_of (ca_arenas s))" by blast
    then have "unat h \<le> unat (ca_handleSeq s)" using ok by (simp add: c_ok_def handles_ok_def)
    then show False using un by simp
  qed
  have apart: "arena_mem b \<inter> arena_mem a = {}" if "map_of (ca_arenas s) k = Some b" "k \<noteq> h" for k b
  proof (rule arena_mem_apart)
    fix d assume "d \<in> set (ar_chunks b)"
    then show "addr_range d \<inter> arena_mem a = {}"
      using fr ca_chunks_memD [OF that(1)] by (auto simp: arena_mem_def ac fresh_chunk_def)
  qed
  have "table_ok (ca_arenas s)" using ok by (simp add: c_ok_def)
  from table_ok_update [OF this inv(1) apart] have tab: "table_ok (ca_arenas s')" by (simp add: s')
  have "block_ok (ca_arenas s') b" if "b \<in> set bs" for b
  proof -
    have b: "block_ok (ca_arenas s) b" using ok that by (simp add: c_ok_def)
    then have "fst b \<noteq> h" using new by (cases b) (auto simp: block_ok_def)
    then show ?thesis using block_ok_update [OF b] by (simp add: s')
  qed
  moreover have "handles_ok s'"
    using ok un by (auto simp: c_ok_def handles_ok_def s' update_conv' le_SucI simp del: fun_upd_apply)
  ultimately show ?thesis using ok tab by (simp add: c_ok_def)
qed

lemma c_reset_ok:
  assumes "c_ok (s, bs)"
  shows "c_ok (rustygo_arena_reset h s, filter (\<lambda>b. fst b \<noteq> h) bs)"
proof (cases "map_of (ca_arenas s) h")
  case None
  then show ?thesis using assms by (auto simp: rustygo_arena_reset_def c_ok_def sorted_wrt_filter)
next
  case (Some a)
  have tab: "table_ok (ca_arenas s)" using assms by (simp add: c_ok_def)
  have m: "arena_mem (Reset a) = arena_mem a" by (auto simp: Reset_def Let_def arena_mem_def)
  have "arena_mem b \<inter> arena_mem (Reset a) = {}" if "map_of (ca_arenas s) k = Some b" "k \<noteq> h" for k b
    unfolding m using table_apart [OF tab that(1) Some that(2)] .
  then have "table_ok (AList.update h (Reset a) (ca_arenas s))"
    using table_ok_update [OF tab Reset_inv [OF table_arena [OF tab Some]]] by blast
  moreover have "block_ok (AList.update h (Reset a) (ca_arenas s)) b" if "b \<in> set bs" "fst b \<noteq> h" for b
    using assms that by (intro block_ok_update) (auto simp: c_ok_def)
  ultimately show ?thesis
    using assms Some by (auto simp: rustygo_arena_reset_def c_ok_def handles_ok_def update_conv' sorted_wrt_filter simp del: fun_upd_apply)
qed

lemma c_close_state:
  "ca_arenas (rustygo_arena_close os h s) = AList.delete h (ca_arenas s) \<and>
   ca_handleSeq (rustygo_arena_close os h s) = ca_handleSeq s"
  by (auto simp: rustygo_arena_close_def map_of_eq_None_iff delete_id split: option.split prod.split)

lemma c_close_ok:
  assumes "c_ok (s, bs)"
  shows "c_ok (rustygo_arena_close os h s, filter (\<lambda>b. fst b \<noteq> h) bs)"
proof -
  have "table_ok (AList.delete h (ca_arenas s))" using assms by (auto simp: c_ok_def intro: table_ok_delete)
  moreover have "handles_ok (rustygo_arena_close os h s)"
    unfolding handles_ok_def
  proof (intro ballI)
    fix k assume "k \<in> dom (map_of (ca_arenas (rustygo_arena_close os h s)))"
    then have "k \<in> dom (map_of (ca_arenas s))" by (auto simp: c_close_state delete_conv' split: if_splits)
    then show "0 < unat k \<and> unat k \<le> unat (ca_handleSeq (rustygo_arena_close os h s))"
      using assms by (simp only: c_ok_def handles_ok_def c_close_state prod.case)
  qed
  moreover have "\<forall>b \<in> set (filter (\<lambda>b. fst b \<noteq> h) bs). block_ok (AList.delete h (ca_arenas s)) b"
    using assms by (auto simp: c_ok_def intro!: block_ok_delete)
  moreover have "sorted_wrt (\<lambda>b c. block_addrs b \<inter> block_addrs c = {}) (filter (\<lambda>b. fst b \<noteq> h) bs)"
    using assms by (simp add: c_ok_def sorted_wrt_filter)
  ultimately show ?thesis
    unfolding c_ok_def prod.case c_close_state [THEN conjunct1] by blast
qed

lemma c_step_ok: "c_step x y \<Longrightarrow> c_ok x \<Longrightarrow> c_ok y"
proof (induction rule: c_step.induct)
  case (call_new os s siz s' h bs)
  show ?case using c_new_ok [OF call_new(5,1,2,3,4)] .
next
  case (call_alloc os s siz align h s' p bs)
  then show ?case using c_alloc_ok [of s bs os siz align h s' "Some p"] by simp
next
  case (call_refused os s siz align h s' bs)
  then show ?case using c_alloc_ok [of s bs os siz align h s' None] by simp
next
  case (call_reset s bs h)
  then show ?case by (rule c_reset_ok)
next
  case (call_close s bs os h)
  then show ?case by (rule c_close_ok)
qed

lemma c_run_ok: "c_step\<^sup>*\<^sup>* x y \<Longrightarrow> c_ok x \<Longrightarrow> c_ok y"
  by (induction rule: rtranclp_induct) (blast intro: c_step_ok)+

lemma c_start_ok: "c_ok (c_start, [])"
  by (simp add: c_ok_def c_start_def table_ok_def handles_ok_def)

text \<open>Handles are not used twice: one that is not in the table and not above the counter stays out.\<close>

definition handle_gone :: "u64 \<Rightarrow> c_state \<Rightarrow> bool" where
  "handle_gone h s \<longleftrightarrow> map_of (ca_arenas s) h = None \<and> unat h \<le> unat (ca_handleSeq s)"

lemma handle_gone_step:
  assumes "c_step (s, bs) (s', bs')" "handle_gone h s"
  shows "handle_gone h s'"
  using assms(1)
proof (cases rule: c_step.cases)
  case (call_new os siz k)
  obtain m a where "k = ca_handleSeq s + 1" and s': "s' = s\<lparr>ca_handleSeq := k, ca_arenas := AList.update k a (ca_arenas s), ca_metrics := m\<rparr>"
    using c_new_state [OF call_new(5)] by metis
  then have "unat k = Suc (unat (ca_handleSeq s))" using next_handle [OF call_new(4)] by simp
  then show ?thesis using assms(2) by (auto simp: s' handle_gone_def update_conv')
next
  case (call_alloc os siz align k p)
  then show ?thesis using assms(2)
    by (auto simp: rustygo_arena_alloc_def handle_gone_def Let_def update_conv' split: option.splits)
next
  case (call_refused os siz align k)
  then show ?thesis using assms(2)
    by (auto simp: rustygo_arena_alloc_def handle_gone_def Let_def update_conv' split: option.splits)
next
  case (call_reset k)
  then show ?thesis using assms(2)
    by (auto simp: rustygo_arena_reset_def handle_gone_def update_conv' split: option.splits)
next
  case (call_close os k)
  then show ?thesis using assms(2) by (auto simp: c_close_state handle_gone_def delete_conv')
qed

lemma handle_gone_run: "c_step\<^sup>*\<^sup>* (s, bs) x \<Longrightarrow> handle_gone h s \<Longrightarrow> handle_gone h (fst x)"
proof (induction rule: rtranclp_induct)
  case (step y z)
  then show ?case using handle_gone_step [of "fst y" "snd y" "fst z" "snd z" h] by simp
qed simp

section \<open>Properties\<close>

text \<open>C34. Whatever sequence of calls a C program makes from the start, with any number of arenas created, grown,
  reset and closed in any order, the blocks it holds are pairwise disjoint in memory, also across arenas, each has
  the alignment asked for, and each lies in the memory of the live arena its handle names.\<close>

theorem capi_blocks_disjoint:
  assumes "c_step\<^sup>*\<^sup>* (c_start, []) (s, bs)"
  shows "sorted_wrt (\<lambda>b c. block_addrs b \<inter> block_addrs c = {}) bs \<and>
    (\<forall>(h, p, n, al) \<in> set bs. 0 < n \<and> al dvd p \<and>
       (\<exists>a. map_of (ca_arenas s) h = Some a \<and> {p ..< p + n} \<subseteq> arena_mem a))"
proof -
  have ok: "c_ok (s, bs)" using c_run_ok [OF assms c_start_ok] .
  have "\<exists>a. map_of (ca_arenas s) h = Some a \<and> {p ..< p + n} \<subseteq> arena_mem a" if b: "(h, p, n, al) \<in> set bs" for h p n al
  proof -
    have "block_ok (ca_arenas s) (h, p, n, al)" using ok b by (simp add: c_ok_def)
    then obtain a where a: "map_of (ca_arenas s) h = Some a" "{p ..< p + n} \<subseteq> used_addrs a"
      by (auto simp: block_ok_def block_addrs_def)
    have "arena_inv a" using ok a(1) table_arena by (auto simp: c_ok_def)
    then show ?thesis using a used_addrs_mem by blast
  qed
  moreover have "\<forall>(h, p, n, al) \<in> set bs. 0 < n \<and> al dvd p" using ok by (auto simp: c_ok_def block_ok_def)
  ultimately show ?thesis using ok by (auto simp: c_ok_def)
qed

text \<open>C35. A handle that has been closed is dead for good: whatever calls follow, an allocation through it
  returns nil and changes nothing, reset and close do nothing, and no bytes are reported.\<close>

theorem capi_use_after_close:
  assumes "c_step\<^sup>*\<^sup>* (c_start, []) (s, bs)" "map_of (ca_arenas s) h \<noteq> None"
    and "c_step\<^sup>*\<^sup>* (rustygo_arena_close os h s, bs') (t, cs)"
  shows "rustygo_arena_alloc os' h n al t = (t, None) \<and> rustygo_arena_reset h t = t \<and>
    rustygo_arena_close os' h t = t \<and> rustygo_arena_used_bytes h t = 0"
proof -
  have "c_ok (s, bs)" using c_run_ok [OF assms(1) c_start_ok] .
  then have "unat h \<le> unat (ca_handleSeq s)" using assms(2) by (auto simp: c_ok_def handles_ok_def)
  then have "handle_gone h (rustygo_arena_close os h s)" by (simp add: handle_gone_def c_close_state delete_conv')
  from handle_gone_run [OF assms(3) this] show ?thesis
    by (simp add: handle_gone_def rustygo_arena_alloc_def rustygo_arena_reset_def rustygo_arena_close_def
        rustygo_arena_used_bytes_def)
qed

section \<open>Concrete runs\<close>

text \<open>Two arenas, a block of each, then the first arena is closed.\<close>

definition c_demo :: "u64 \<Rightarrow> u64 \<Rightarrow> arena" where
  "c_demo b off = (arena_config 64 [])\<lparr>ar_chunks :=
     [\<lparr>ch_buf = replicate 64 0, ch_base = b, ch_off = off, ch_release = Munmap\<rparr>], ar_active := Some 0\<rparr>"

definition demo_c1 :: c_state where
  "demo_c1 = \<lparr>ca_handleSeq = 1, ca_arenas = [(1, c_demo 65536 0)], ca_metrics = RecordArenaCreated metrics0 64\<rparr>"

definition demo_c2 :: c_state where
  "demo_c2 = \<lparr>ca_handleSeq = 2, ca_arenas = [(1, c_demo 65536 0), (2, c_demo 131072 0)],
     ca_metrics = RecordArenaCreated (RecordArenaCreated metrics0 64) 64\<rparr>"

definition demo_c3 :: c_state where
  "demo_c3 = demo_c2\<lparr>ca_arenas := [(1, c_demo 65536 10), (2, c_demo 131072 0)]\<rparr>"

definition demo_c4 :: c_state where
  "demo_c4 = demo_c2\<lparr>ca_arenas := [(1, c_demo 65536 10), (2, c_demo 131072 8)]\<rparr>"

lemma c_demo_new: "NewArena (demo_os b) 64 [] m = (RecordArenaCreated m 64, Return (c_demo b 0))"
  by (simp add: NewArena_def Let_def arena_config_def newChunk_def allocArenaBuffer_def syscall_Mmap_def demo_os_def c_demo_def)

lemma demo_c1: "rustygo_arena_new (demo_os 65536) 64 c_start = (demo_c1, Return 1)"
  by (simp add: rustygo_arena_new_def c_demo_new c_start_def demo_c1_def)

lemma demo_c2: "rustygo_arena_new (demo_os 131072) 64 demo_c1 = (demo_c2, Return 2)"
  by (simp add: rustygo_arena_new_def c_demo_new demo_c1_def demo_c2_def)

lemma c_demo_alloc:
  "TryAlloc no_mem_os (c_demo b 0) 10 = (c_demo b 10, Some (Slice 0 0 10 64))"
  by (simp add: TryAlloc_def c_demo_def alloc_at_def chunk_tryAlloc_def Let_def chunk_cap_def arena_config_def)

lemma c_demo_alloc_aligned: 
  "TryAllocAligned no_mem_os (c_demo 131072 0) 8 8 = (c_demo 131072 8, Some (Slice 0 0 8 64))"
  by (simp add: TryAllocAligned_def c_demo_def alloc_at_def chunk_tryAllocAligned_def Let_def chunk_cap_def
      arena_config_def isPowerOfTwo_def)

lemma demo_c3: "rustygo_arena_alloc no_mem_os 1 10 1 demo_c2 = (demo_c3, Some 65536)"
  by (simp add: rustygo_arena_alloc_def demo_c2_def demo_c3_def c_demo_alloc first_byte_def byte_addr_def)
    (simp add: c_demo_def)

lemma demo_c4: "rustygo_arena_alloc no_mem_os 2 8 8 demo_c3 = (demo_c4, Some 131072)"
  by (simp add: rustygo_arena_alloc_def demo_c2_def demo_c3_def demo_c4_def c_demo_alloc_aligned first_byte_def byte_addr_def)
    (simp add: c_demo_def)

lemma c_demo_run: "c_step\<^sup>*\<^sup>* (c_start, []) (demo_c4, [(2, 131072, 8, 8), (1, 65536, 10, 1)])"
proof -
  have b: "\<forall>c \<in> set (ca_chunks demo_c1). unat (ch_base c) + chunk_len c \<le> 131072"
    by (simp add: ca_chunks_def demo_c1_def c_demo_def)
  have "c_step (c_start, []) (demo_c1, [])"
    by (rule call_new [OF _ _ _ demo_c1]) (auto simp: c_start_def ca_chunks_def intro!: demo_os_ok)
  moreover have "c_step (demo_c1, []) (demo_c2, [])"
  proof (rule call_new [OF _ _ _ demo_c2])
    show "os_ok (demo_os 131072) (ca_chunks demo_c1)" using b by (intro demo_os_ok) auto
    show "ca_handleSeq demo_c1 \<noteq> - 1" by (simp add: demo_c1_def)
  qed simp
  moreover have "c_step (demo_c2, []) (demo_c3, [(1, 65536, nat 10, nat (max 1 1))])"
    by (rule call_alloc [OF no_mem_os_ok _ _ demo_c3]) (simp_all add: in_int64_def)
  moreover have "c_step (demo_c3, [(1, 65536, nat 10, nat (max 1 1))])
      (demo_c4, [(2, 131072, nat 8, nat (max 1 8)), (1, 65536, nat 10, nat (max 1 1))])"
    by (rule call_alloc [OF no_mem_os_ok _ _ demo_c4]) (simp_all add: in_int64_def)
  ultimately have "c_step\<^sup>*\<^sup>* (c_start, []) (demo_c4, [(2, 131072, nat 8, nat (max 1 8)), (1, 65536, nat 10, nat (max 1 1))])"
    by (meson converse_rtranclp_into_rtranclp rtranclp.rtrancl_refl)
  then show ?thesis by simp
qed

theorem capi_blocks_disjoint_witness:
  "block_addrs (2, 131072, 8, 8) \<inter> block_addrs (1, 65536, 10, 1) = {} \<and>
   (\<exists>a. map_of (ca_arenas demo_c4) 2 = Some a \<and> {131072 ..< 131080} \<subseteq> arena_mem a)"
  using capi_blocks_disjoint [OF c_demo_run] by auto

theorem capi_use_after_close_witness:
  "rustygo_arena_alloc no_mem_os 1 16 1 (rustygo_arena_close no_mem_os 1 demo_c4) =
     (rustygo_arena_close no_mem_os 1 demo_c4, None)"
proof -
  have "map_of (ca_arenas demo_c4) 1 \<noteq> None" by (simp add: demo_c4_def)
  from capi_use_after_close [OF c_demo_run this rtranclp.rtrancl_refl [where a = "(rustygo_arena_close no_mem_os 1 demo_c4, [])"]]
  show ?thesis by blast
qed

end
