(* ===== verification/Managed.thy ===== *)
theory Managed
  imports Scope Session
begin

text \<open>
  Maps and channels of a scope (\<^verbatim>\<open>AllocMap\<close> and \<^verbatim>\<open>AllocChan\<close> of \<^verbatim>\<open>arena.go\<close>): they live on the Go heap and come
  from process-wide pools, one per map type and one per channel type and capacity. A cleanup of the scope empties
  them and puts them back. The heap is a store of maps and channels with the next free address; \<^verbatim>\<open>sync.Pool\<close> is
  modelled as in Session: \<^verbatim>\<open>Get\<close> takes the item an oracle names or makes a new one, items may be dropped.
  The pools are created on first use by \<^verbatim>\<open>LoadOrStore\<close>; calls run one after the other.
\<close>

section \<open>Channels\<close>

text \<open>A channel: its buffer, the values of the senders blocked on it in order, the number of receivers blocked
  on it.\<close>

record 'v gochan =
  ch_cap :: nat
  ch_queue :: "'v list"
  ch_senders :: "'v list"
  ch_receivers :: nat
  ch_closed :: bool

definition chan_ok :: "'v gochan \<Rightarrow> bool" where
  "chan_ok c \<longleftrightarrow> length (ch_queue c) \<le> ch_cap c \<and> (ch_senders c \<noteq> [] \<longrightarrow> length (ch_queue c) = ch_cap c) \<and>
     (ch_receivers c > 0 \<longrightarrow> ch_queue c = [] \<and> ch_senders c = [])"

text \<open>\<^verbatim>\<open>select { case _, ok := <-ch: ... default: ... }\<close>: a value (from the buffer, which then takes the first
  blocked sender's, or from a blocked sender), the zero value of a closed channel, or nothing. The result is
  \<^verbatim>\<open>ok\<close>, None for the default case.\<close>

definition try_recv :: "'v gochan \<Rightarrow> 'v gochan \<times> bool option" where
  "try_recv c =
     (case ch_queue c of
        x # q \<Rightarrow>
          (case ch_senders c of
             [] \<Rightarrow> (c\<lparr>ch_queue := q\<rparr>, Some True)
           | y # ys \<Rightarrow> (c\<lparr>ch_queue := q @ [y], ch_senders := ys\<rparr>, Some True))
      | [] \<Rightarrow>
          (case ch_senders c of
             y # ys \<Rightarrow> (c\<lparr>ch_senders := ys\<rparr>, Some True)
           | [] \<Rightarrow> (c, if ch_closed c then Some False else None)))"

definition chan_pending :: "'v gochan \<Rightarrow> nat" where
  "chan_pending c = length (ch_queue c) + length (ch_senders c)"

lemma try_recv_pending: "try_recv c = (c', Some True) \<Longrightarrow> chan_pending c' < chan_pending c"
  by (auto simp: try_recv_def chan_pending_def split: list.splits if_splits)

text \<open>The loop of the cleanup: whether the channel is to be put back.\<close>

function drain :: "'v gochan \<Rightarrow> 'v gochan \<times> bool" where
  "drain c =
     (case try_recv c of
        (c', Some True) \<Rightarrow> drain c'
      | (c', Some False) \<Rightarrow> (c', False)
      | (c', None) \<Rightarrow> (c', True))"
  by pat_completeness auto
termination
  by (relation "measure chan_pending") (simp_all add: try_recv_pending)

declare drain.simps [simp del]


lemma try_recv_keeps: "try_recv c = (c', r) \<Longrightarrow> ch_cap c' = ch_cap c \<and> ch_closed c' = ch_closed c \<and> ch_receivers c' = ch_receivers c"
  by (auto simp: try_recv_def split: list.splits if_splits)

lemma drain_spec:
  "drain c = (c\<lparr>ch_queue := [], ch_senders := []\<rparr>, \<not> ch_closed c)"
proof (induction c rule: drain.induct)
  case (1 c)
  obtain c' r where t: "try_recv c = (c', r)" by force
  consider (v) "r = Some True" | (z) "r = Some False" | (d) "r = None" by (cases r) auto
  then show ?case
  proof cases
    case v
    have "drain c = drain c'" using t v by (subst drain.simps) simp
    also have "\<dots> = (c'\<lparr>ch_queue := [], ch_senders := []\<rparr>, \<not> ch_closed c')" using 1 [OF t [symmetric]] v by blast
    also have "\<dots> = (c\<lparr>ch_queue := [], ch_senders := []\<rparr>, \<not> ch_closed c)"
      using t v by (auto simp: try_recv_def split: list.splits if_splits)
    finally show ?thesis .
  next
    case z
    then show ?thesis using t by (subst drain.simps) (auto simp: try_recv_def split: list.splits if_splits)
  next
    case d
    then show ?thesis using t by (subst drain.simps) (auto simp: try_recv_def split: list.splits if_splits)
  qed
qed

section \<open>State\<close>

text \<open>The identity of a channel type, with the size of its elements.\<close>

datatype chan_type = ChanType string nat

record ('k, 'v) managed =
  mg_next :: nat
  mg_maps :: "nat \<Rightarrow> 'k \<rightharpoonup> 'v"
  mg_chans :: "nat \<Rightarrow> 'v gochan"
  mg_mapPools :: "(string \<times> nat list) list"
  mg_chanPools :: "((chan_type \<times> int) \<times> nat list) list"


definition getChanPool :: "chan_type \<Rightarrow> int \<Rightarrow> ('k, 'v) managed \<Rightarrow> ('k, 'v) managed \<times> nat list" where
  "getChanPool t cap w =
     (case map_of (mg_chanPools w) (t, cap) of
        Some p \<Rightarrow> (w, p)
      | None \<Rightarrow> (w\<lparr>mg_chanPools := ((t, cap), []) # mg_chanPools w\<rparr>, []))"

definition pool_take :: "nat option \<Rightarrow> nat list \<Rightarrow> nat list \<times> nat option" where
  "pool_take ch p =
     (case ch of
        Some i \<Rightarrow> if i < length p then (take i p @ drop (Suc i) p, Some (p ! i)) else (p, None)
      | None \<Rightarrow> (p, None))"

text \<open>\<^verbatim>\<open>pool.Put\<close> on the pool of a key.\<close>

definition pool_put :: "'key \<Rightarrow> nat \<Rightarrow> ('key \<times> nat list) list \<Rightarrow> ('key \<times> nat list) list" where
  "pool_put t i ps = map (\<lambda>(t', p). if t' = t then (t', i # p) else (t', p)) ps"

definition pool_set :: "'key \<Rightarrow> nat list \<Rightarrow> ('key \<times> nat list) list \<Rightarrow> ('key \<times> nat list) list" where
  "pool_set t p ps = map (\<lambda>(t', q). if t' = t then (t', p) else (t', q)) ps"

text \<open>\<^verbatim>\<open>reflect.MakeChan\<close>; the header of a channel has 96 bytes.\<close>

definition MakeChan :: "chan_type \<Rightarrow> int \<Rightarrow> unit go" where
  "MakeChan t cap =
     (case t of ChanType _ elem \<Rightarrow>
        if cap < 0 then Panic (PanicMsg ''reflect.MakeChan: negative buffer size'')
        else if int elem * cap > maxAlloc - 96 then Panic (PanicMsg ''makechan: size out of range'')
        else Return ())"

section \<open>Cleanups and allocation\<close>

definition map_cleanup :: "string \<Rightarrow> nat \<Rightarrow> ('k, 'v) managed cleanup" where
  "map_cleanup t i =
     (\<lambda>(a, w). ((a, w\<lparr>mg_maps := (mg_maps w)(i := Map.empty), mg_mapPools := pool_put t i (mg_mapPools w)\<rparr>), Return ()))"

definition chan_cleanup :: "chan_type \<Rightarrow> int \<Rightarrow> nat \<Rightarrow> ('k, 'v) managed cleanup" where
  "chan_cleanup t cap i =
     (\<lambda>(a, w). case drain (mg_chans w i) of
        (c, put) \<Rightarrow>
          ((a, w\<lparr>mg_chans := (mg_chans w)(i := c),
                 mg_chanPools := (if put then pool_put (t, cap) i (mg_chanPools w) else mg_chanPools w)\<rparr>), Return ()))"


definition AllocChan ::
  "nat option \<Rightarrow> chan_type \<Rightarrow> int \<Rightarrow> ('k, 'v) managed scope \<Rightarrow> ('k, 'v) managed
   \<Rightarrow> ('k, 'v) managed scope \<times> ('k, 'v) managed \<times> nat go" where
  "AllocChan ch t cap s w =
     (if \<not> sc_active s then (s, w, Panic (PanicMsg ''scope is not active''))
      else case getChanPool t cap w of
        (w1, p) \<Rightarrow>
          (case pool_take ch p of
             (p', Some i) \<Rightarrow>
               (OnExit (chan_cleanup t cap i) s, w1\<lparr>mg_chanPools := pool_set (t, cap) p' (mg_chanPools w1)\<rparr>, Return i)
           | (_, None) \<Rightarrow>
               (case MakeChan t cap of
                  Panic e \<Rightarrow> (s, w1, Panic e)
                | Return _ \<Rightarrow>
                    let i = mg_next w1
                    in (OnExit (chan_cleanup t cap i) s,
                        w1\<lparr>mg_next := Suc i,
                           mg_chans := (mg_chans w1)(i := \<lparr>ch_cap = nat cap, ch_queue = [], ch_senders = [],
                             ch_receivers = 0, ch_closed = False\<rparr>)\<rparr>, Return i))))"

section \<open>Holders\<close>

datatype handle = MapH string nat | ChanH chan_type int nat


fun cleanup_of :: "handle \<Rightarrow> ('k, 'v) managed cleanup" where
  "cleanup_of (MapH t i) = map_cleanup t i"
| "cleanup_of (ChanH t cap i) = chan_cleanup t cap i"






lemma fst_pool_put [simp]: "map fst (pool_put t i ps) = map fst ps"
  by (induction ps) (auto simp: pool_put_def)

lemma fst_pool_set [simp]: "map fst (pool_set t p ps) = map fst ps"
  by (induction ps) (auto simp: pool_set_def)

lemma fst_set_pool [simp]: "fst ` set (pool_put t i ps) = fst ` set ps" "fst ` set (pool_set t p ps) = fst ` set ps"
  by (metis fst_pool_put set_map, metis fst_pool_set set_map)








section \<open>Releasing\<close>

definition release_handle :: "handle \<Rightarrow> ('k, 'v) managed \<Rightarrow> ('k, 'v) managed" where
  "release_handle h w = snd (fst (cleanup_of h (undefined, w)))"



lemma release_handle_simps:
  "release_handle (MapH t i) w = w\<lparr>mg_maps := (mg_maps w)(i := Map.empty), mg_mapPools := pool_put t i (mg_mapPools w)\<rparr>"
  "release_handle (ChanH u cap i) w =
     w\<lparr>mg_chans := (mg_chans w)(i := (mg_chans w i)\<lparr>ch_queue := [], ch_senders := []\<rparr>),
       mg_chanPools := (if ch_closed (mg_chans w i) then mg_chanPools w else pool_put (u, cap) i (mg_chanPools w))\<rparr>"
  by (simp_all add: release_handle_def map_cleanup_def chan_cleanup_def drain_spec)




section \<open>Allocating\<close>








section \<open>Runs\<close>

text \<open>A live scope, its arena and the maps and channels it has handed out, latest first.\<close>

type_synonym ('k, 'v) holder = "('k, 'v) managed scope \<times> arena \<times> handle list"

definition held :: "('k, 'v) holder list \<Rightarrow> handle list" where
  "held es = concat (map (\<lambda>(_, _, hs). hs) es)"




lemma mset_held [simp]: "mset (held (xs @ (s, a, hs) # ys)) = mset hs + mset (held (xs @ ys))"
  by (simp add: held_def)










section \<open>Properties\<close>

definition no_managed :: "('k, 'v) managed" where
  "no_managed = \<lparr>mg_next = 0, mg_maps = (\<lambda>_. Map.empty), mg_chans = (\<lambda>_. \<lparr>ch_cap = 0, ch_queue = [], ch_senders = [],
     ch_receivers = 0, ch_closed = False\<rparr>), mg_mapPools = [], mg_chanPools = []\<rparr>"



text \<open>What the property leaves out: a goroutine that still waits to receive from the channel when the scope exits.
  The drained channel goes back to the pool with it, and the first value the next holder sends is its.\<close>

definition demo_waiting :: "(string, nat) managed" where
  "demo_waiting = no_managed\<lparr>mg_next := 1, mg_chans := (\<lambda>_. \<lparr>ch_cap = 1, ch_queue = [], ch_senders = [],
     ch_receivers = 1, ch_closed = False\<rparr>), mg_chanPools := [((ChanType ''chan int'' 8, 1), [])]\<rparr>"

lemma chan_keeps_receivers:
  "\<exists>w s' w'. release_handle (ChanH (ChanType ''chan int'' 8) 1 0) demo_waiting = w \<and>
     AllocChan (Some 0) (ChanType ''chan int'' 8) 1 (snd (EnterScope a m)) w = (s', w', Return 0) \<and>
     ch_receivers (mg_chans w' 0) = 1"
  by (simp add: release_handle_simps demo_waiting_def no_managed_def AllocChan_def EnterScope_def getChanPool_def
      pool_put_def pool_take_def)

lemma managed_chan_negative:
  "sc_active s \<Longrightarrow> cap < 0 \<Longrightarrow> AllocChan None t cap s w = (s', w', r) \<Longrightarrow>
     s' = s \<and> r = Panic (PanicMsg ''reflect.MakeChan: negative buffer size'')"
  by (cases t) (auto simp: AllocChan_def MakeChan_def pool_take_def split: prod.splits)






end
