(* ===== verification/Telemetry.thy ===== *)
theory Telemetry
  imports Metrics AutoTune Decimal
begin

text \<open>
  How the process shows its counters: the Prometheus text of \<^verbatim>\<open>metrics.go\<close> and the dashboard of \<^verbatim>\<open>debug.go\<close>. A page
  is a string of bytes; \<^verbatim>\<open>encoding/json\<close> is left out, the JSON answer is the value it is given. The order in which
  a Go map is walked is an argument.
\<close>

section \<open>Prometheus\<close>

definition nl :: char where "nl = CHR 0x0A"

definition unlines :: "string list \<Rightarrow> string" where
  "unlines ls = concat (map (\<lambda>l. l @ [nl]) ls)"

definition PrometheusText :: "metrics \<Rightarrow> string" where
  "PrometheusText m =
     (let snap = Snapshot m in unlines
       [''# HELP rustygo_arena_allocated_bytes Current memory in bytes allocated across all active arenas.'',
        ''# TYPE rustygo_arena_allocated_bytes gauge'',
        ''rustygo_arena_allocated_bytes '' @ fmt_d (AllocatedBytes snap),
        '''',
        ''# HELP rustygo_arena_active_count Number of currently live arena instances.'',
        ''# TYPE rustygo_arena_active_count gauge'',
        ''rustygo_arena_active_count '' @ fmt_d (ActiveArenas snap),
        '''',
        ''# HELP rustygo_scope_active_count Number of currently active lexical scopes.'',
        ''# TYPE rustygo_scope_active_count gauge'',
        ''rustygo_scope_active_count '' @ fmt_d (ActiveScopes snap),
        '''',
        ''# HELP rustygo_arena_high_water_bytes Highest allocated bytes observed in the process.'',
        ''# TYPE rustygo_arena_high_water_bytes gauge'',
        ''rustygo_arena_high_water_bytes '' @ fmt_d (HighWaterMarkBytes snap),
        '''',
        ''# HELP rustygo_arena_gc_bypassed_bytes_total Cumulative bytes allocated in arenas bypassing Go runtime GC.'',
        ''# TYPE rustygo_arena_gc_bypassed_bytes_total counter'',
        ''rustygo_arena_gc_bypassed_bytes_total '' @ fmt_d (uint (GCBypassedBytesTotal snap))])"

text \<open>An HTTP answer: its content type and body.\<close>

definition MetricsHandler :: "metrics \<Rightarrow> string \<times> string" where
  "MetricsHandler m = (''text/plain; version=0.0.4; charset=utf-8'', PrometheusText m)"

section \<open>Sizes\<close>

text \<open>The loop of \<^verbatim>\<open>formatBytes\<close>.\<close>

function size_unit :: "int \<Rightarrow> int \<Rightarrow> nat \<Rightarrow> int \<times> nat" where
  "size_unit n dv ex = (if n \<ge> 1024 then size_unit (n div 1024) (go_int (dv * 1024)) (Suc ex) else (dv, ex))"
  by pat_completeness auto
termination by (relation "measure (\<lambda>(n, _, _). nat n)") auto

declare size_unit.simps [simp del]

text \<open>\<^verbatim>\<open>%.1f\<close> of the exact quotient \<open>p / q\<close>: the nearest decimal, a tie to the even digit.\<close>

definition round_even :: "nat \<Rightarrow> nat \<Rightarrow> nat" where
  "round_even p q =
     (let k = p div q; r = p mod q in if 2 * r < q \<or> (2 * r = q \<and> even k) then k else k + 1)"

definition fmt_1f :: "nat \<Rightarrow> nat \<Rightarrow> string" where
  "fmt_1f p q = (let t = round_even (10 * p) q in itoa (t div 10) @ ''.'' @ itoa (t mod 10))"

text \<open>Both conversions to \<^verbatim>\<open>float64\<close> happen before the division, which is exact: the divisor is a power of two.\<close>

definition formatBytes :: "int \<Rightarrow> string go" where
  "formatBytes b =
     (if b < 1024 then Return (fmt_d b @ '' B'')
      else case size_unit (b div 1024) 1024 0 of
        (dv, ex) \<Rightarrow>
          if ex < length ''KMGTPE''
          then Return (fmt_1f (rnd53 (nat b)) (rnd53 (nat dv)) @ '' '' @ [''KMGTPE'' ! ex] @ ''B'')
          else Panic IndexOutOfRange)"

section \<open>The dashboard\<close>

definition tabs :: "nat \<Rightarrow> string" where "tabs n = replicate n (CHR 0x09)"

definition page_style :: string where
  \<open>page_style = unlines
     [''<!DOCTYPE html>'',
      ''<html>'',
      ''<head>'',
      tabs 1 @ ''<title>RustyGo Runtime Arena Inspector</title>'',
      tabs 1 @ ''<style>'',
      tabs 2 @ ''body { font-family: -apple-system, BlinkMacSystemFont, "Segoe UI", Roboto, sans-serif; background: #0f172a; color: #f8fafc; margin: 0; padding: 2rem; }'',
      tabs 2 @ ''.container { max-width: 900px; margin: 0 auto; }'',
      tabs 2 @ ''h1 { color: #38bdf8; display: flex; align-items: center; gap: 0.5rem; }'',
      tabs 2 @ ''.card-grid { display: grid; grid-template-columns: repeat(auto-fit, minmax(200px, 1fr)); gap: 1rem; margin: 1.5rem 0; }'',
      tabs 2 @ ''.card { background: #1e293b; padding: 1.25rem; border-radius: 8px; border: 1px solid #334155; }'',
      tabs 2 @ ''.card-val { font-size: 1.75rem; font-weight: bold; color: #f1f5f9; margin-top: 0.25rem; }'',
      tabs 2 @ ''.card-lbl { color: #94a3b8; font-size: 0.85rem; text-transform: uppercase; letter-spacing: 0.05em; }'',
      tabs 2 @ ''table { width: 100%; border-collapse: collapse; margin-top: 1rem; background: #1e293b; border-radius: 8px; overflow: hidden; }'',
      tabs 2 @ ''th, td { text-align: left; padding: 0.75rem 1rem; border-bottom: 1px solid #334155; }'',
      tabs 2 @ ''th { background: #0f172a; color: #94a3b8; font-size: 0.85rem; text-transform: uppercase; }'',
      tabs 2 @ ''.badge { background: #0284c7; color: white; padding: 0.2rem 0.5rem; border-radius: 4px; font-size: 0.75rem; }'',
      tabs 1 @ ''</style>'']\<close>

definition page_head :: "string \<Rightarrow> string \<Rightarrow> string \<Rightarrow> string \<Rightarrow> string \<Rightarrow> string" where
  \<open>page_head alloc arenas scopes bypassed calibrations = page_style @ unlines
     [''</head>'',
      ''<body>'',
      tabs 1 @ ''<div class="container">'',
      tabs 2 @ ''<h1>'' @ [CHR 0xE2, CHR 0x9A, CHR 0xA1] @ '' RustyGo Runtime Arena Inspector <span class="badge">v0.6.0</span></h1>'',
      tabs 2,
      tabs 2 @ ''<div class="card-grid">'',
      tabs 3 @ ''<div class="card">'',
      tabs 4 @ ''<div class="card-lbl">Allocated Slab Memory</div>'',
      tabs 4 @ ''<div class="card-val">'' @ alloc @ ''</div>'',
      tabs 3 @ ''</div>'',
      tabs 3 @ ''<div class="card">'',
      tabs 4 @ ''<div class="card-lbl">Active Arenas</div>'',
      tabs 4 @ ''<div class="card-val">'' @ arenas @ ''</div>'',
      tabs 3 @ ''</div>'',
      tabs 3 @ ''<div class="card">'',
      tabs 4 @ ''<div class="card-lbl">Active Scopes</div>'',
      tabs 4 @ ''<div class="card-val">'' @ scopes @ ''</div>'',
      tabs 3 @ ''</div>'',
      tabs 3 @ ''<div class="card">'',
      tabs 4 @ ''<div class="card-lbl">GC Bypassed Total</div>'',
      tabs 4 @ ''<div class="card-val">'' @ bypassed @ ''</div>'',
      tabs 3 @ ''</div>'',
      tabs 2 @ ''</div>'',
      '''',
      tabs 2 @ ''<h2>'' @ [CHR 0xF0, CHR 0x9F, CHR 0x8E, CHR 0xAF] @ '' Calibrated Auto-Tuner Call Sites ('' @ calibrations @ '')</h2>'',
      tabs 2 @ ''<table>'',
      tabs 3 @ ''<thead>'',
      tabs 4 @ ''<tr>'',
      tabs 5 @ ''<th>Call Site Identifier</th>'',
      tabs 5 @ ''<th>Learned Memory Demand</th>'',
      tabs 5 @ ''<th>Optimal Initial Slab</th>'',
      tabs 4 @ ''</tr>'',
      tabs 3 @ ''</thead>'',
      tabs 3 @ ''<tbody>'']\<close>

definition no_rows :: string where
  \<open>no_rows = ''<tr><td colspan="3" style="text-align: center; color: #94a3b8;">No call sites calibrated yet. Run workloads with WithAutoTunedScope.</td></tr>''\<close>

definition page_tail :: string where
  "page_tail = [nl] @ unlines [tabs 3 @ ''</tbody>'', tabs 2 @ ''</table>'', tabs 1 @ ''</div>'', ''</body>''] @ ''</html>''"

text \<open>One row of the table; the recommendation is read again from the tuner.\<close>

definition site_row :: "auto_tuner \<Rightarrow> string \<times> int \<Rightarrow> string go" where
  "site_row tu x =
     (case x of (site, sz) \<Rightarrow>
        (case formatBytes sz of
           Panic p \<Rightarrow> Panic p
         | Return a \<Rightarrow>
             (case formatBytes (RecommendedSize site tu) of
                Panic p \<Rightarrow> Panic p
              | Return b \<Rightarrow>
                  Return (''<tr><td><code>'' @ site @ ''</code></td><td>'' @ a @ ''</td><td><strong>'' @ b @ ''</strong></td></tr>''))))"

fun site_rows :: "auto_tuner \<Rightarrow> (string \<times> int) list \<Rightarrow> string go" where
  "site_rows tu [] = Return ''''"
| "site_rows tu (x # xs) =
     (case site_row tu x of
        Panic p \<Rightarrow> Panic p
      | Return r \<Rightarrow> (case site_rows tu xs of Panic p \<Rightarrow> Panic p | Return rs \<Rightarrow> Return (r @ rs)))"

record debug_data =
  dd_Metrics :: metrics_snapshot
  dd_AutoTuner :: "string \<rightharpoonup> int"

datatype response = JsonResponse debug_data | HtmlResponse string

text \<open>The request is its \<^verbatim>\<open>format\<close> parameter and its \<^verbatim>\<open>Accept\<close> header; \<open>sites\<close> is the order in which the copy of
  the calibrations is walked.\<close>

definition DebugHandler :: "string \<Rightarrow> string \<Rightarrow> metrics \<Rightarrow> auto_tuner \<Rightarrow> string list \<Rightarrow> response go" where
  "DebugHandler format accept m tu sites =
     (let snap = Snapshot m; calibrations = map_option st_estimatedBytes \<circ> tu_sites tu
      in if format = ''json'' \<or> contains accept ''application/json''
         then Return (JsonResponse \<lparr>dd_Metrics = snap, dd_AutoTuner = calibrations\<rparr>)
         else case formatBytes (AllocatedBytes snap) of
           Panic p \<Rightarrow> Panic p
         | Return alloc \<Rightarrow>
             (case formatBytes (sint (GCBypassedBytesTotal snap)) of
                Panic p \<Rightarrow> Panic p
              | Return bypassed \<Rightarrow>
                  (case (if sites = [] then Return no_rows
                         else site_rows tu (map (\<lambda>k. (k, the (calibrations k))) sites)) of
                     Panic p \<Rightarrow> Panic p
                   | Return rows \<Rightarrow>
                       Return (HtmlResponse (page_head alloc (fmt_d (ActiveArenas snap)) (fmt_d (ActiveScopes snap)) bypassed
                         (fmt_d (int (length sites))) @ rows @ page_tail)))))"

section \<open>Reading the metrics back\<close>

text \<open>What a scraper does with the text: lines, no comments and no empty lines, a name, a blank and a number.\<close>

fun split_lines :: "string \<Rightarrow> string list" where
  "split_lines [] = [[]]"
| "split_lines (c # s) =
     (if c = nl then [] # split_lines s
      else case split_lines s of l # ls \<Rightarrow> (c # l) # ls | [] \<Rightarrow> [[c]])"

definition sample_line :: "string \<Rightarrow> (string \<times> int) option" where
  "sample_line l =
     (if l = [] \<or> hd l = CHR ''#'' then None
      else Some (takeWhile (\<lambda>c. c \<noteq> CHR '' '') l, parse_d (tl (dropWhile (\<lambda>c. c \<noteq> CHR '' '') l))))"

definition scrape :: "string \<Rightarrow> (string \<times> int) list" where
  "scrape s = List.map_filter sample_line (split_lines s)"

lemma split_lines_line: "nl \<notin> set l \<Longrightarrow> split_lines (l @ nl # r) = l # split_lines r"
  by (induction l) auto

lemma split_unlines: "\<forall>l \<in> set ls. nl \<notin> set l \<Longrightarrow> split_lines (unlines ls) = ls @ [[]]"
  by (induction ls) (simp_all add: unlines_def split_lines_line)

lemma fmt_d_no_nl: "nl \<notin> set (fmt_d v)"
  using fmt_d_chars [of v] by (auto simp: nl_def digit_chars_def)

lemma sample_line_comment: "sample_line (CHR ''#'' # l) = None" "sample_line [] = None"
  by (simp_all add: sample_line_def)

lemma map_filter_step:
  "List.map_filter f [] = []"
  "f x = None \<Longrightarrow> List.map_filter f (x # xs) = List.map_filter f xs"
  "f x = Some y \<Longrightarrow> List.map_filter f (x # xs) = y # List.map_filter f xs"
  by (simp_all add: map_filter_simps)

lemma scrape_unlines:
  assumes "\<forall>l \<in> set ls. nl \<notin> set l"
  shows "scrape (unlines ls) = List.map_filter sample_line ls"
proof -
  have "List.map_filter sample_line (xs @ [[]]) = List.map_filter sample_line xs" for xs
    by (induction xs) (simp_all add: map_filter_simps sample_line_comment split: option.split)
  then show ?thesis by (simp add: scrape_def split_unlines [OF assms])
qed

lemma sample_line_value:
  assumes "n \<noteq> []" "hd n \<noteq> CHR ''#''" "CHR '' '' \<notin> set n"
  shows "sample_line (n @ CHR '' '' # fmt_d v) = Some (n, v)"
proof -
  have "takeWhile (\<lambda>c. c \<noteq> CHR '' '') (n @ CHR '' '' # fmt_d v) = n" "dropWhile (\<lambda>c. c \<noteq> CHR '' '') (n @ CHR '' '' # fmt_d v) = CHR '' '' # fmt_d v"
    using assms(3) by (auto simp: takeWhile_append dropWhile_append)
  then show ?thesis using assms(1,2) by (simp add: sample_line_def parse_fmt_d)
qed

text \<open>C39. A scraper that reads the Prometheus text gets the five metrics in order with exactly the values of the snapshot,
  for every state of the counters, negative ones and the full range of the unsigned total included.\<close>

theorem PrometheusText_scrape:
  "scrape (PrometheusText m) =
     [(''rustygo_arena_allocated_bytes'', m_allocatedBytes m),
      (''rustygo_arena_active_count'', m_activeArenas m),
      (''rustygo_scope_active_count'', m_activeScopes m),
      (''rustygo_arena_high_water_bytes'', m_highWaterMarkBytes m),
      (''rustygo_arena_gc_bypassed_bytes_total'', uint (m_gcBypassedBytesTotal m))]"
proof -
  have "sample_line (''rustygo_arena_allocated_bytes '' @ fmt_d v) = Some (''rustygo_arena_allocated_bytes'', v)"
    "sample_line (''rustygo_arena_active_count '' @ fmt_d v) = Some (''rustygo_arena_active_count'', v)"
    "sample_line (''rustygo_scope_active_count '' @ fmt_d v) = Some (''rustygo_scope_active_count'', v)"
    "sample_line (''rustygo_arena_high_water_bytes '' @ fmt_d v) = Some (''rustygo_arena_high_water_bytes'', v)"
    "sample_line (''rustygo_arena_gc_bypassed_bytes_total '' @ fmt_d v) = Some (''rustygo_arena_gc_bypassed_bytes_total'', v)" for v
    using sample_line_value [of "''rustygo_arena_allocated_bytes''" v] sample_line_value [of "''rustygo_arena_active_count''" v]
      sample_line_value [of "''rustygo_scope_active_count''" v] sample_line_value [of "''rustygo_arena_high_water_bytes''" v]
      sample_line_value [of "''rustygo_arena_gc_bypassed_bytes_total''" v] by simp_all
  note samples = this
  show ?thesis
    unfolding PrometheusText_def Let_def
    by (subst scrape_unlines,
        simp only: list.set ball_simps set_append set_empty Un_iff fmt_d_no_nl insert_iff empty_iff simp_thms, simp add: nl_def)
      (simp only: map_filter_step samples sample_line_comment Snapshot_def metrics_snapshot.simps)
qed

section \<open>The unit and the digits of a size\<close>

lemma size_unit_spec:
  assumes "1024 ^ Suc k \<le> b" "b < 2 ^ 63"
  shows "\<exists>e. size_unit (b div 1024 ^ Suc k) (1024 ^ Suc k) k = (1024 ^ Suc e, e) \<and>
    1024 ^ Suc e \<le> b \<and> b < 1024 ^ Suc (Suc e) \<and> e < 6"
  using assms(1)
proof (induction "6 - k" arbitrary: k rule: less_induct)
  case less
  have k: "k < 6"
  proof (rule ccontr)
    assume "\<not> k < 6"
    then have "(1024::int) ^ 7 \<le> 1024 ^ Suc k" by (intro power_increasing) auto
    then show False using less.prems assms(2) by simp
  qed
  define D :: int where "D = 1024 ^ Suc k"
  define q where "q = b div D"
  have D: "0 < D" "1024 ^ Suc (Suc k) = 1024 * D" by (simp_all add: D_def)
  have b: "D * q \<le> b" "b < D * (q + 1)"
  proof -
    have "b = D * q + b mod D" by (simp add: q_def)
    moreover have "D * (q + 1) = D * q + D" by (simp add: distrib_left)
    ultimately show "D * q \<le> b" "b < D * (q + 1)"
      using pos_mod_bound [OF D(1), of b] pos_mod_sign [OF D(1), of b] by linarith+
  qed
  show ?case
  proof (cases "1024 \<le> q")
    case True
    then have le: "1024 * D \<le> b" using mult_left_mono [of 1024 q D] D(1) b(1) by linarith
    then have "size_unit q D k = size_unit (q div 1024) (1024 * D) (Suc k)"
      using True D(1) assms(2) by (subst size_unit.simps) (simp add: mult.commute go_int_nonneg)
    moreover have "q div 1024 = b div (1024 * D)"
      using D(1) by (simp add: q_def zdiv_zmult2_eq mult.commute)
    ultimately show ?thesis
      using less.hyps [of "Suc k"] k le unfolding D(2) by (simp add: q_def D_def)
  next
    case False
    then have "b < 1024 * D" using mult_left_mono [of "q + 1" 1024 D] D(1) b(2) by linarith
    moreover have "size_unit q D k = (D, k)" using False by (subst size_unit.simps) simp
    ultimately show ?thesis
      using k less.prems by (intro exI [of _ k]) (simp add: D_def q_def)
  qed
qed

lemma round_even_error:
  assumes "0 < q"
  shows "2 * (round_even p q * q) \<le> 2 * p + q" "2 * p \<le> 2 * (round_even p q * q) + q"
proof -
  define k m where "k = p div q * q" and "m = p mod q"
  have p: "p = k + m" "m < q" using assms by (simp_all add: k_def m_def)
  have "(round_even p q * q = k \<and> 2 * m \<le> q) \<or> (round_even p q * q = k + q \<and> q \<le> 2 * m)"
  proof (cases "2 * (p mod q) < q \<or> 2 * (p mod q) = q \<and> even (p div q)")
    case True
    then show ?thesis by (auto simp: round_even_def Let_def k_def m_def)
  next
    case False
    then have "round_even p q = p div q + 1" "q \<le> 2 * m" by (auto simp: round_even_def Let_def m_def)
    then show ?thesis by (simp add: k_def)
  qed
  then show "2 * (round_even p q * q) \<le> 2 * p + q" "2 * p \<le> 2 * (round_even p q * q) + q"
    using p by (elim disjE conjE; simp)+
qed

lemma rnd53_near:
  assumes "n < 2 ^ 63"
  shows "rnd53 n \<le> n + 1024" "n \<le> rnd53 n + 1024"
  using rnd53_error [of n] assms by simp_all

text \<open>A size from 1024 on is shown in the unit it has between 1 and 1024 of, with the nearest tenth; only beyond
  \<open>2^53\<close> the conversion to a float loses up to 1024 bytes before that. No size makes the index of the units fail.\<close>

lemma formatBytes_unit:
  assumes "1024 \<le> b" "b < 2 ^ 63"
  shows "\<exists>e t. e < 6 \<and> 1024 ^ Suc e \<le> b \<and> b < 1024 ^ Suc (Suc e) \<and>
    formatBytes b = Return (itoa (t div 10) @ ''.'' @ itoa (t mod 10) @ '' '' @ [''KMGTPE'' ! e] @ ''B'') \<and>
    2 * \<bar>int t * 1024 ^ Suc e - 10 * b\<bar> \<le> 1024 ^ Suc e + (if b < 2 ^ 53 then 0 else 20480)"
proof -
  obtain e where e: "size_unit (b div 1024) 1024 0 = (1024 ^ Suc e, e)" "1024 ^ Suc e \<le> b" "b < 1024 ^ Suc (Suc e)" "e < 6"
    using size_unit_spec [of 0 b] assms by auto
  define D :: nat where "D = 1024 ^ Suc e"
  define t where "t = round_even (10 * rnd53 (nat b)) D"
  have D: "0 < D" "int D = 1024 ^ Suc e" by (simp_all add: D_def)
  have fD: "rnd53 (nat (1024 ^ Suc e)) = D"
  proof -
    have n: "nat (1024 ^ Suc e) = D" by (simp add: D_def nat_power_eq nat_mult_distrib)
    show ?thesis
    proof (cases "e = 5")
      case True
      show ?thesis unfolding n D_def True by (subst rnd53_at [where s = 8]) simp_all
    next
      case False
      then have "D \<le> 1024 ^ 5" using e(4) unfolding D_def by (intro power_increasing) auto
      then show ?thesis unfolding n by (intro rnd53_small) simp
    qed
  qed
  have f: "formatBytes b = Return (itoa (t div 10) @ ''.'' @ itoa (t mod 10) @ '' '' @ [''KMGTPE'' ! e] @ ''B'')"
    using assms(1) e(4) by (simp add: formatBytes_def e(1) fmt_1f_def Let_def t_def fD del: power_Suc)
  define x where "x = rnd53 (nat b)"
  have x: "\<bar>int x - b\<bar> \<le> (if b < 2 ^ 53 then 0 else 1024)"
    using rnd53_near [of "nat b"] rnd53_small [of "nat b"] assms by (auto simp: x_def nat_less_iff)
  have r: "2 * (t * D) \<le> 2 * (10 * x) + D" "2 * (10 * x) \<le> 2 * (t * D) + D"
    using round_even_error [OF D(1), of "10 * x"] by (simp_all add: t_def x_def)
  have ri: "2 * (int t * int D) \<le> 20 * int x + int D" "20 * int x \<le> 2 * (int t * int D) + int D"
    using r by (simp_all flip: of_nat_mult)
  have "2 * \<bar>int t * int D - 10 * b\<bar> \<le> int D + (if b < 2 ^ 53 then 0 else 20480)"
    using x ri by (cases "b < 2 ^ 53") (simp_all only: if_True if_False abs_if, simp_all split: if_splits)
  then show ?thesis using e f D(2) by (metis (no_types, lifting))
qed

lemma formatBytes_Return: "b < 2 ^ 63 \<Longrightarrow> \<exists>s. formatBytes b = Return s"
  using formatBytes_unit [of b] by (cases "b < 1024") (auto simp: formatBytes_def)

section \<open>The dashboard answers\<close>

lemma site_rows_Return:
  assumes "\<forall>(k, b) \<in> set xs. b < 2 ^ 63 \<and> RecommendedSize k tu < 2 ^ 63"
  shows "\<exists>rs. site_rows tu xs = Return (concat rs) \<and> length rs = length xs \<and>
    (\<forall>i < length xs. site_row tu (xs ! i) = Return (rs ! i))"
  using assms
proof (induction xs)
  case Nil
  then show ?case by (intro exI [of _ "[]"]) simp
next
  case (Cons x xs)
  obtain k b where x: "x = (k, b)" by (cases x)
  obtain r where r: "site_row tu x = Return r"
    using formatBytes_Return [of b] formatBytes_Return [of "RecommendedSize k tu"] Cons.prems
    by (fastforce simp: x site_row_def)
  obtain rs where rs: "site_rows tu xs = Return (concat rs)" "length rs = length xs"
      "\<forall>i < length xs. site_row tu (xs ! i) = Return (rs ! i)"
    using Cons by auto
  have "site_row tu ((x # xs) ! i) = Return ((r # rs) ! i)" if "i < length (x # xs)" for i
    using that r rs(3) by (cases i) auto
  then show ?case using r rs(1,2) by (intro exI [of _ "r # rs"]) simp
qed

text \<open>The handler never panics. It answers with JSON exactly when one of the two ways to ask for it is used, else with
  a page that has one row for each calibrated site between its head and its end.\<close>

lemma DebugHandler_answers:
  assumes "m_allocatedBytes m < 2 ^ 63" "\<forall>k \<in> set sites. the (map_option st_estimatedBytes (tu_sites tu k)) < 2 ^ 63 \<and> RecommendedSize k tu < 2 ^ 63"
  shows "DebugHandler format accept m tu sites =
      Return (JsonResponse \<lparr>dd_Metrics = Snapshot m, dd_AutoTuner = map_option st_estimatedBytes \<circ> tu_sites tu\<rparr>) \<longleftrightarrow>
    format = ''json'' \<or> contains accept ''application/json''" (is "?J \<longleftrightarrow> ?j")
    and "\<not> (format = ''json'' \<or> contains accept ''application/json'') \<Longrightarrow> sites \<noteq> [] \<Longrightarrow>
      \<exists>hd rs. DebugHandler format accept m tu sites = Return (HtmlResponse (hd @ concat rs @ page_tail)) \<and> length rs = length sites \<and>
        (\<forall>i < length sites. site_row tu (sites ! i, the (map_option st_estimatedBytes (tu_sites tu (sites ! i)))) = Return (rs ! i))"
proof -
  let ?xs = "map (\<lambda>k. (k, the (map_option st_estimatedBytes (tu_sites tu k)))) sites"
  obtain a where a: "formatBytes (m_allocatedBytes m) = Return a" using formatBytes_Return assms(1) by blast
  have "sint (m_gcBypassedBytesTotal m) < 2 ^ 63" using sint_lt [of "m_gcBypassedBytesTotal m"] by simp
  then obtain b where b: "formatBytes (sint (m_gcBypassedBytesTotal m)) = Return b" using formatBytes_Return by blast
  have "\<forall>(k, b) \<in> set ?xs. b < 2 ^ 63 \<and> RecommendedSize k tu < 2 ^ 63" using assms(2) by auto
  from site_rows_Return [OF this] obtain rs where rs: "site_rows tu ?xs = Return (concat rs)" "length rs = length sites"
      "\<forall>i < length sites. site_row tu (?xs ! i) = Return (rs ! i)" by auto
  show "?J \<longleftrightarrow> ?j"
    using a b rs(1) by (auto simp: DebugHandler_def Let_def Snapshot_def comp_def)
  show "\<exists>hd rs. DebugHandler format accept m tu sites = Return (HtmlResponse (hd @ concat rs @ page_tail)) \<and> length rs = length sites \<and>
        (\<forall>i < length sites. site_row tu (sites ! i, the (map_option st_estimatedBytes (tu_sites tu (sites ! i)))) = Return (rs ! i))"
    if "\<not> ?j" "sites \<noteq> []"
    using that a b rs by (auto simp: DebugHandler_def Let_def Snapshot_def comp_def)
qed

text \<open>The name of a site is put into the page as it is, also when it is markup.\<close>

lemma site_is_not_escaped:
  assumes "b < 2 ^ 63" "RecommendedSize site tu < 2 ^ 63"
  shows "\<exists>post. site_row tu (site, b) = Return (''<tr><td><code>'' @ site @ post)"
  using formatBytes_Return [OF assms(1)] formatBytes_Return [OF assms(2)] by (force simp: site_row_def)

end
