(* ===== verification/Requests.thy ===== *)
theory Requests
  imports Scope_Spec Buffer
begin

text \<open>
  The small layers around arenas and scopes: the garbage collector switches of \<^verbatim>\<open>gc.go\<close>, the context values and the
  HTTP middleware of \<^verbatim>\<open>context.go\<close>, and the client of \<^verbatim>\<open>client.go\<close> around the body reader of Buffer. Handlers and
  the transport are arguments.
\<close>

section \<open>Garbage collector switches\<close>

text \<open>\<^verbatim>\<open>debug.SetGCPercent\<close>: the setting of the process, -1 for off, is replaced and its old value returned.\<close>

definition SetGCPercent :: "int \<Rightarrow> int \<Rightarrow> int \<times> int" where
  "SetGCPercent percent g = (if percent < 0 then - 1 else percent, g)"

record gc_state =
  gc_prev :: int

definition DisableGC :: "int \<Rightarrow> int \<times> gc_state" where
  "DisableGC g = (case SetGCPercent (- 1) g of (g', prev) \<Rightarrow> (g', \<lparr>gc_prev = prev\<rparr>))"

definition RestoreGC :: "gc_state \<Rightarrow> int \<Rightarrow> int" where
  "RestoreGC s g = fst (SetGCPercent (gc_prev s) g)"

text \<open>The function sees and may change the setting and the rest of the world; it may fail or panic. The restoring
  call is deferred.\<close>

type_synonym ('w, 'err) gc_fn = "int \<Rightarrow> 'w \<Rightarrow> int \<times> 'w \<times> 'err option go"

definition WithGCDisabled :: "('w, 'err) gc_fn option \<Rightarrow> ('w, 'err) gc_fn" where
  "WithGCDisabled ofn g w =
     (case ofn of
        None \<Rightarrow> (g, w, Return None)
      | Some fn \<Rightarrow>
          (case DisableGC g of (g1, s) \<Rightarrow>
             (case fn g1 w of (g2, w', r) \<Rightarrow> (RestoreGC s g2, w', r))))"

definition WithGCPercent :: "int \<Rightarrow> ('w, 'err) gc_fn option \<Rightarrow> ('w, 'err) gc_fn" where
  "WithGCPercent percent ofn g w =
     (case ofn of
        None \<Rightarrow> (g, w, Return None)
      | Some fn \<Rightarrow>
          (case SetGCPercent percent g of (g1, prev) \<Rightarrow>
             (case fn g1 w of (g2, w', r) \<Rightarrow> (fst (SetGCPercent prev g2), w', r))))"

text \<open>Whatever the function does, nested switches and panics included, the setting of before is back and the result is
  the function's.\<close>

lemma WithGC_restores:
  assumes "- 1 \<le> g"
  shows "fst (WithGCDisabled ofn g w) = g" "fst (WithGCPercent percent ofn g w) = g"
    "ofn = Some fn \<Longrightarrow> snd (WithGCDisabled ofn g w) = snd (fn (- 1) w)"
    "ofn = Some fn \<Longrightarrow> snd (WithGCPercent percent ofn g w) = snd (fn (if percent < 0 then - 1 else percent) w)"
  using assms
  by (auto simp: WithGCDisabled_def WithGCPercent_def DisableGC_def RestoreGC_def SetGCPercent_def
      split: option.splits prod.splits)

text \<open>The setting belongs to the process. Of two goroutines that overlap, the one that leaves first turns the
  collector on under the other, and the one that leaves last turns it off for good.\<close>

datatype gc_event = GcEnter nat | GcLeave nat

fun gc_event_step :: "gc_event \<Rightarrow> int \<times> (nat \<Rightarrow> gc_state) \<Rightarrow> int \<times> (nat \<Rightarrow> gc_state)" where
  "gc_event_step (GcEnter i) (g, st) = (case DisableGC g of (g', s) \<Rightarrow> (g', st(i := s)))"
| "gc_event_step (GcLeave i) (g, st) = (RestoreGC (st i) g, st)"

lemma gc_overlap:
  "fst (fold gc_event_step [GcEnter 0, GcEnter 1, GcLeave 0] (100, st)) = 100"
  "fst (fold gc_event_step [GcEnter 0, GcEnter 1, GcLeave 0, GcLeave 1] (100, st)) = - 1"
  by (simp_all add: DisableGC_def RestoreGC_def SetGCPercent_def)

section \<open>Context values\<close>

text \<open>A context is a chain of values over a base; the two keys of the package are unexported types, so nobody else
  has them. Arenas and scopes are pointers, None is nil.\<close>

datatype ctx_key = ArenaKey | ScopeKey | OtherKey string

datatype ctx_val = ArenaVal "nat option" | ScopeVal "nat option" | OtherVal nat

datatype ctx = Background | ValueCtx ctx ctx_key ctx_val

fun ctx_Value :: "ctx \<Rightarrow> ctx_key \<Rightarrow> ctx_val option" where
  "ctx_Value Background k = None"
| "ctx_Value (ValueCtx c k' v) k = (if k' = k then Some v else ctx_Value c k)"

text \<open>\<^verbatim>\<open>context.WithValue\<close> panics on a nil parent.\<close>

definition context_WithValue :: "ctx option \<Rightarrow> ctx_key \<Rightarrow> ctx_val \<Rightarrow> ctx go" where
  "context_WithValue oc k v =
     (case oc of None \<Rightarrow> Panic (PanicMsg ''cannot create context from nil parent'') | Some c \<Rightarrow> Return (ValueCtx c k v))"

definition WithContextArena :: "ctx option \<Rightarrow> nat option \<Rightarrow> ctx go" where
  "WithContextArena oc a = context_WithValue oc ArenaKey (ArenaVal a)"

definition FromContext :: "ctx option \<Rightarrow> nat option \<times> bool" where
  "FromContext oc =
     (case oc of
        None \<Rightarrow> (None, False)
      | Some c \<Rightarrow> (case ctx_Value c ArenaKey of Some (ArenaVal a) \<Rightarrow> (a, True) | _ \<Rightarrow> (None, False)))"

text \<open>\<^verbatim>\<open>WithContextScope\<close> returns the context and the cleanup; the cleanup is \<open>exit_if_active\<close> of the scope.\<close>

definition WithContextScope ::
  "ctx option \<Rightarrow> nat option \<Rightarrow> (ctx \<times> ('w scope option \<Rightarrow> 'w world \<Rightarrow> metrics \<Rightarrow> metrics \<times> 'w scope option \<times> 'w world \<times> unit go)) go" where
  "WithContextScope oc s =
     (case context_WithValue oc ScopeKey (ScopeVal s) of
        Panic p \<Rightarrow> Panic p
      | Return c \<Rightarrow> Return (c, exit_if_active))"

definition ScopeFromContext :: "ctx option \<Rightarrow> nat option \<times> bool" where
  "ScopeFromContext oc =
     (case oc of
        None \<Rightarrow> (None, False)
      | Some c \<Rightarrow> (case ctx_Value c ScopeKey of Some (ScopeVal s) \<Rightarrow> (s, True) | _ \<Rightarrow> (None, False)))"

section \<open>The middleware\<close>

text \<open>\<open>pa\<close> and \<open>ps\<close> are the pointers of the arena and of the scope that is entered. The handler gets the context and may
  change the scope, the world and the metrics; the exit is deferred.\<close>

type_synonym 'w handler = "ctx \<Rightarrow> 'w scope \<Rightarrow> 'w world \<Rightarrow> metrics \<Rightarrow> metrics \<times> 'w scope \<times> 'w world \<times> unit go"

definition HTTPMiddleware ::
  "nat \<Rightarrow> nat \<Rightarrow> 'w handler \<Rightarrow> ctx \<Rightarrow> 'w world \<Rightarrow> metrics \<Rightarrow> metrics \<times> 'w scope \<times> 'w world \<times> unit go" where
  "HTTPMiddleware pa ps next_h rctx w m =
     (case EnterScope (fst w) m of (m1, s) \<Rightarrow>
        let body =
          (case WithContextScope (Some rctx) (Some ps)
             :: (ctx \<times> ('w scope option \<Rightarrow> 'w world \<Rightarrow> metrics \<Rightarrow> metrics \<times> 'w scope option \<times> 'w world \<times> unit go)) go of
             Panic p \<Rightarrow> (m1, s, w, Panic p)
           | Return (c, _) \<Rightarrow>
               (case WithContextArena (Some c) (Some pa) of
                  Panic p \<Rightarrow> (m1, s, w, Panic p)
                | Return c' \<Rightarrow> next_h c' s w m1))
        in case body of (m2, s1, w1, r) \<Rightarrow>
          (if sc_active s1
           then case Exit s1 w1 m2 of
                  (m3, s2, w2, Return _) \<Rightarrow> (m3, s2, w2, r)
                | (m3, s2, w2, Panic p) \<Rightarrow> (m3, s2, w2, Panic p)
           else (m2, s1, w1, r)))"

text \<open>The context the handler sees.\<close>

definition request_ctx :: "nat \<Rightarrow> nat \<Rightarrow> ctx \<Rightarrow> ctx" where
  "request_ctx pa ps rctx = ValueCtx (ValueCtx rctx ScopeKey (ScopeVal (Some ps))) ArenaKey (ArenaVal (Some pa))"

lemma request_ctx_values:
  "ScopeFromContext (Some (request_ctx pa ps c)) = (Some ps, True)"
  "FromContext (Some (request_ctx pa ps c)) = (Some pa, True)"
  "ctx_Value (request_ctx pa ps c) (OtherKey k) = ctx_Value c (OtherKey k)"
  by (simp_all add: request_ctx_def ScopeFromContext_def FromContext_def)

lemma HTTPMiddleware_handler:
  "HTTPMiddleware pa ps next_h c w m =
     (case EnterScope (fst w) m of (m1, s) \<Rightarrow>
        case next_h (request_ctx pa ps c) s w m1 of (m2, s1, w1, r) \<Rightarrow>
          (if sc_active s1
           then case Exit s1 w1 m2 of
                  (m3, s2, w2, Return _) \<Rightarrow> (m3, s2, w2, r)
                | (m3, s2, w2, Panic p) \<Rightarrow> (m3, s2, w2, Panic p)
           else (m2, s1, w1, r)))"
  by (simp add: HTTPMiddleware_def WithContextScope_def WithContextArena_def context_WithValue_def request_ctx_def)

text \<open>The middleware is the scope of \<^verbatim>\<open>WithScope\<close> around the handler, which gets the request's context with the scope
  and the arena added.\<close>

lemma HTTPMiddleware_WithScope:
  "WithScope (Some (\<lambda>s w m. case next_h (request_ctx pa ps c) s w m of (m', s', w', r) \<Rightarrow>
       (m', s', w', case r of Return _ \<Rightarrow> Return None | Panic p \<Rightarrow> Panic p))) w m =
   (case HTTPMiddleware pa ps next_h c w m of (m', s', w', r) \<Rightarrow>
       (m', Some s', w', (case r of Return _ \<Rightarrow> Return None | Panic p \<Rightarrow> Panic p) :: 'err option go))"
  by (simp add: WithScope_def HTTPMiddleware_handler split: prod.split go.split)

section \<open>The client\<close>

text \<open>The transport takes a request and gives an error or a response: its content length and body, the body being never
  nil.\<close>

type_synonym ('req, 'e) transport = "'req \<Rightarrow> 'e + (int \<times> 'e body)"

record ('req, 'e) client =
  cl_HTTPClient :: "('req, 'e) transport option"
  cl_MaxBody :: int

datatype 'e request_error = RequestError 'e | TransportError 'e | ResponseError "'e client_error"

text \<open>The body, the response and the error.\<close>

type_synonym 'e outcome = "(u8 list option \<times> (int \<times> 'e body) option \<times> 'e request_error option) go"

definition DoScope ::
  "('req, 'e) transport \<Rightarrow> ('req, 'e) client \<Rightarrow> 'req \<Rightarrow> slice_scope \<Rightarrow> 'e outcome" where
  "DoScope http_DefaultClient c req scope =
     (let do_req = (case cl_HTTPClient c of None \<Rightarrow> http_DefaultClient | Some f \<Rightarrow> f)
      in case do_req req of
           Inl e \<Rightarrow> Return (None, None, Some (TransportError e))
         | Inr resp \<Rightarrow>
             (case ReadResponseBody (Some resp) scope (cl_MaxBody c) of
                CallPanic p \<Rightarrow> Panic p
              | CallErr e \<Rightarrow> Return (None, Some resp, Some (ResponseError e))
              | CallOk body \<Rightarrow> Return (Some body, Some resp, None)))"

text \<open>\<open>new_request\<close> is \<^verbatim>\<open>http.NewRequestWithContext\<close> for the method GET.\<close>

definition GetScope ::
  "('req, 'e) transport \<Rightarrow> ('url \<Rightarrow> 'e + 'req) \<Rightarrow> ('req, 'e) client \<Rightarrow> 'url \<Rightarrow> slice_scope \<Rightarrow> 'e outcome" where
  "GetScope http_DefaultClient new_request c url scope =
     (case new_request url of
        Inl e \<Rightarrow> Return (None, None, Some (RequestError e))
      | Inr req \<Rightarrow> DoScope http_DefaultClient c req scope)"

text \<open>A response within the limit is returned whole; a larger one, or one that breaks off, gives its error with
  the response and no part of the body.\<close>

lemma DoScope_outcome:
  fixes c :: "('req, 'e) client"
  defines "mx \<equiv> (if cl_MaxBody c \<le> 0 then defaultMaxBodyBytes else cl_MaxBody c)"
  assumes "(case cl_HTTPClient c of None \<Rightarrow> d | Some f \<Rightarrow> f) req = Inr (n, body)"
    and "scope_law scope" "scope_holds scope (mx + 1024 * 1024)" "mx < 2 ^ 62" "\<forall>(bs, e) \<in> set body. length bs \<le> 8192"
  shows "DoScope d c req scope =
    Return (if int (length (body_bytes body)) > mx then (None, Some (n, body), Some (ResponseError ErrResponseBodyTooLarge))
      else case body_error body of
        ReadEOF \<Rightarrow> (Some (body_bytes body), Some (n, body), None)
      | ReadFail e \<Rightarrow> (None, Some (n, body), Some (ResponseError (BodyError e))))"
  using ReadResponseBody_exact [OF assms(3,4) [unfolded mx_def] assms(5,6) [unfolded mx_def], of n] assms(2)
  by (simp add: DoScope_def Let_def mx_def split: read_error.split)

end
