(* ===== verification/Toolexec.thy ===== *)
theory Toolexec
  imports Rewrite_Spec
begin

text \<open>
  The compiler plugin and the commands around the rewriter (\<^verbatim>\<open>compilerplugin/toolexec.go\<close>,
  \<^verbatim>\<open>compilerplugin/cmd/rustygoc\<close>, \<^verbatim>\<open>analyzer/cmd/rustygocheck\<close>). What the operating system, the package loader, the
  printer of syntax trees and the executed tools do is in a record of functions; the state keeps the tools that
  were run, the directories and files that were written and the output.
\<close>

section \<open>The surroundings\<close>

text \<open>A loaded package: the fields of \<^verbatim>\<open>packages.Package\<close> that are used, and the decisions of the pipeline on it, None
  when it fails.\<close>

record package =
  pk_GoFiles :: "string list"
  pk_Syntax :: "go_file list"
  pk_PkgPath :: string
  pk_Info :: type_info
  pk_position :: "int \<Rightarrow> string \<times> nat"
  pk_decisions :: "allocation_decision list option"

record tool_env =
  te_getenv :: "string \<Rightarrow> string"
  te_MkdirTemp :: "string + string"
  te_Load :: "string list \<Rightarrow> (string + package list) go"
  te_Format :: "go_file \<Rightarrow> string + string"
  te_WriteFile :: "string \<Rightarrow> string option"
  te_run :: "string \<Rightarrow> string list \<Rightarrow> (string \<rightharpoonup> string) \<Rightarrow> string option"
  te_capacity :: "nat \<Rightarrow> nat"
  te_type_text :: "allocation_decision \<Rightarrow> string"

record tool_state =
  ts_runs :: "(string \<times> string list) list"
  ts_dirs :: "string list"
  ts_files :: "string \<rightharpoonup> string"
  ts_out :: "string list"

text \<open>A function returns nil or an error, panics in the goroutine of the caller, or panics in another goroutine, which
  ends the process.\<close>

datatype tool_result = Ret "string option" | Panicked | Crashed

section \<open>Names\<close>

definition TrimSuffix :: "string \<Rightarrow> string \<Rightarrow> string" where
  "TrimSuffix s suf =
     (if length suf \<le> length s \<and> drop (length s - length suf) s = suf then take (length s - length suf) s else s)"

definition HasSuffix :: "string \<Rightarrow> string \<Rightarrow> bool" where
  "HasSuffix s suf \<longleftrightarrow> length suf \<le> length s \<and> drop (length s - length suf) s = suf"

definition tool_base :: "string \<Rightarrow> string" where
  "tool_base path = TrimSuffix (Base path) ''.exe''"

definition IsToolExec :: "string \<Rightarrow> bool" where
  "IsToolExec arg \<longleftrightarrow> tool_base arg \<in> {''compile'', ''link'', ''asm'', ''cgo'', ''vet''}"

text \<open>\<^verbatim>\<open>filepath.Join\<close> of a clean directory and a base name.\<close>

definition path_join :: "string \<Rightarrow> string \<Rightarrow> string" where
  "path_join dir base = (if dir = [] then base else dir @ ''/'' @ base)"

section \<open>Running a tool\<close>

definition executeTool :: "tool_env \<Rightarrow> string \<Rightarrow> string list \<Rightarrow> tool_state \<Rightarrow> tool_state \<times> string option" where
  "executeTool env path args s =
     (s\<lparr>ts_runs := ts_runs s @ [(path, args)]\<rparr>,
      map_option (\<lambda>e. ''tool exec failed: '' @ e) (te_run env path args (ts_files s)))"

definition run_ret :: "tool_env \<Rightarrow> string \<Rightarrow> string list \<Rightarrow> tool_state \<Rightarrow> tool_state \<times> tool_result" where
  "run_ret env path args s = (case executeTool env path args s of (s', e) \<Rightarrow> (s', Ret e))"

text \<open>\<^verbatim>\<open>strconv.Atoi\<close> of a positive number; signs and leading zeros are allowed.\<close>

definition all_digits :: "string \<Rightarrow> bool" where
  "all_digits s \<longleftrightarrow> s \<noteq> [] \<and> set s \<subseteq> set ''0123456789''"

definition Atoi_pos :: "string \<Rightarrow> int option" where
  "Atoi_pos s =
     (let t = (case s of [] \<Rightarrow> s | c # r \<Rightarrow> if c = CHR ''+'' then r else s)
      in if all_digits t \<and> 0 < dec_val t \<and> int (dec_val t) < 2 ^ 63 then Some (int (dec_val t)) else None)"

definition arena_bytes :: "tool_env \<Rightarrow> int" where
  "arena_bytes env =
     (let e = te_getenv env ''RUSTYGO_ARENA_BYTES''
      in if e = '''' then 256 * 1024 else case Atoi_pos e of Some v \<Rightarrow> v | None \<Rightarrow> 256 * 1024)"

text \<open>The argument behind the first \<^verbatim>\<open>-p\<close> that has one.\<close>

fun package_arg :: "string list \<Rightarrow> string" where
  "package_arg (a # b # r) = (if a = ''-p'' then b else package_arg (b # r))"
| "package_arg _ = ''''"

definition skipped_package :: "string \<Rightarrow> bool" where
  "skipped_package p \<longleftrightarrow>
     p \<noteq> '''' \<and> \<not> contains p ''.'' \<and> \<not> contains p ''rustygo'' \<and> p \<noteq> ''main'' \<and> p \<noteq> ''command-line-arguments''"

section \<open>Explaining\<close>

fun reason_number :: "EscapeReason \<Rightarrow> nat" where
  "reason_number ReasonNone = 0"
| "reason_number EscapesReturn = 1"
| "reason_number EscapesClosure = 2"
| "reason_number EscapesGoroutine = 3"
| "reason_number EscapesChannel = 4"
| "reason_number EscapesGlobal = 5"
| "reason_number EscapesInterface = 6"
| "reason_number EscapesMap = 7"
| "reason_number EscapesSlice = 8"
| "reason_number EscapesExternalCall = 9"
| "reason_number EscapesUnsafe = 10"
| "reason_number UnknownLifetime = 11"

text \<open>The reasons have no src of their own, so \<^verbatim>\<open>%v\<close> prints the number.\<close>

definition explain_line :: "tool_env \<Rightarrow> package \<Rightarrow> allocation_decision \<Rightarrow> string" where
  "explain_line env pkg dec =
     (case pk_position pkg (in_pos (al_Instruction (ad_Allocation dec))) of (name, line) \<Rightarrow>
        let place = Base name @ '':'' @ itoa line @ '': Allocation of '' @ [CHR 0x27] @ te_type_text env dec @ [CHR 0x27]
        in case ad_Decision dec of
             Arena \<Rightarrow> ''[SAFE]   '' @ place @ '' -> Bound to Thread-Local Arena''
           | Heap \<Rightarrow> ''[UNSAFE] '' @ place @ '' Escapes -> Reason: '' @ itoa (reason_number (ad_Reason dec))
           | Unknown \<Rightarrow> ''[UNKNOWN] '' @ place @ '' -> Lifetime unproven'')"

definition explain :: "tool_env \<Rightarrow> package \<Rightarrow> tool_state \<Rightarrow> tool_state" where
  "explain env pkg s =
     (if te_getenv env ''RUSTYGO_EXPLAIN'' = '''' then s
      else case pk_decisions pkg of
             None \<Rightarrow> s
           | Some ds \<Rightarrow> s\<lparr>ts_out := ts_out s @ map (explain_line env pkg) ds\<rparr>)"

section \<open>Rewriting the files of a package\<close>

text \<open>What the goroutine of one file sends: an error, nothing changed, or the new path; None when it panics on the
  index.\<close>

datatype file_result = FileError string | FileSame | FileChanged nat string

definition rewrite_file ::
  "tool_env \<Rightarrow> int \<Rightarrow> string \<Rightarrow> package \<Rightarrow> nat \<Rightarrow> tool_state \<Rightarrow> (tool_state \<times> file_result) option" where
  "rewrite_file env bytes dir pkg idx s =
     (if length (pk_GoFiles pkg) \<le> idx then None
      else let origPath = pk_GoFiles pkg ! idx
      in case RewriteFileWithConfig (te_capacity env) (pk_Info pkg) (pk_position pkg)
                (case pk_decisions pkg of None \<Rightarrow> [] | Some ds \<Rightarrow> ds) (pk_PkgPath pkg) bytes (pk_Syntax pkg ! idx) of
           None \<Rightarrow> Some (s, FileSame)
         | Some f \<Rightarrow>
             (case te_Format env f of
                Inl e \<Rightarrow> Some (s, FileError e)
              | Inr src \<Rightarrow>
                  let newPath = path_join dir (Base origPath)
                  in case te_WriteFile env newPath of
                       Some e \<Rightarrow> Some (s, FileError e)
                     | None \<Rightarrow> Some (s\<lparr>ts_files := (ts_files s)(newPath \<mapsto> src)\<rparr>, FileChanged idx newPath)))"

text \<open>The goroutines run in the given order, the channel keeps their results in it.\<close>

fun rewrite_files ::
  "tool_env \<Rightarrow> int \<Rightarrow> string \<Rightarrow> package \<Rightarrow> nat list \<Rightarrow> tool_state \<Rightarrow> tool_state \<times> file_result list option" where
  "rewrite_files env bytes dir pkg [] s = (s, Some [])"
| "rewrite_files env bytes dir pkg (i # is) s =
     (case rewrite_file env bytes dir pkg i s of
        None \<Rightarrow> (s, None)
      | Some (s1, r) \<Rightarrow>
          (case rewrite_files env bytes dir pkg is s1 of (s2, rs) \<Rightarrow> (s2, map_option ((#) r) rs)))"

text \<open>The first argument that is the path of the file is replaced.\<close>

definition replace_arg :: "string list \<Rightarrow> nat list \<Rightarrow> string \<Rightarrow> string \<Rightarrow> string list \<Rightarrow> string list" where
  "replace_arg args idxs origPath newPath newArgs =
     (case find (\<lambda>g. args ! g = origPath) idxs of None \<Rightarrow> newArgs | Some g \<Rightarrow> newArgs[g := newPath])"

fun collect_results ::
  "package \<Rightarrow> string list \<Rightarrow> nat list \<Rightarrow> file_result list \<Rightarrow> string list \<Rightarrow> string + string list" where
  "collect_results pkg args idxs [] newArgs = Inr newArgs"
| "collect_results pkg args idxs (FileError e # rs) newArgs = Inl e"
| "collect_results pkg args idxs (FileSame # rs) newArgs = collect_results pkg args idxs rs newArgs"
| "collect_results pkg args idxs (FileChanged i p # rs) newArgs =
     collect_results pkg args idxs rs (replace_arg args idxs (pk_GoFiles pkg ! i) p newArgs)"

section \<open>The plugin\<close>

definition go_indices :: "string list \<Rightarrow> nat list" where
  "go_indices args = filter (\<lambda>i. HasSuffix (args ! i) ''.go'') [0 ..< length args]"

text \<open>\<open>order\<close> is the order in which the goroutines finish. A panic of the loader stands also for one in the
  construction of the SSA form. The debug line of a recovered panic is without the value of the panic.\<close>

definition runRewriteAndCompile ::
  "tool_env \<Rightarrow> nat list \<Rightarrow> string \<Rightarrow> string list \<Rightarrow> tool_state \<Rightarrow> tool_state \<times> tool_result" where
  "runRewriteAndCompile env order path args s =
     (let idxs = go_indices args; goFiles = map ((!) args) idxs
      in if goFiles = [] then run_ret env path args s
         else case te_MkdirTemp env of
           Inl e \<Rightarrow> (s, Ret (Some e))
         | Inr dir \<Rightarrow>
             let s1 = s\<lparr>ts_dirs := ts_dirs s @ [dir]\<rparr>
             in if skipped_package (package_arg args) then run_ret env path args s1
                else case te_Load env goFiles of
                  Panic _ \<Rightarrow> (s1, Panicked)
                | Return (Inl e) \<Rightarrow> (s1, Ret (Some (''packages.Load failed: '' @ e)))
                | Return (Inr []) \<Rightarrow> (s1, Ret (Some ''packages.Load failed: <nil>''))
                | Return (Inr (pkg # _)) \<Rightarrow>
                    (case rewrite_files env (arena_bytes env) dir pkg (filter (\<lambda>i. i < length (pk_Syntax pkg)) order) (explain env pkg s1) of
                       (s2, None) \<Rightarrow> (s2, Crashed)
                     | (s2, Some rs) \<Rightarrow>
                         (case collect_results pkg args idxs rs args of
                            Inl e \<Rightarrow> (s2, Ret (Some e))
                          | Inr newArgs \<Rightarrow> run_ret env path newArgs s2)))"

definition debug_line :: "tool_env \<Rightarrow> string \<Rightarrow> tool_state \<Rightarrow> tool_state" where
  "debug_line env l s = (if te_getenv env ''RUSTYGO_DEBUG'' = ''1'' then s\<lparr>ts_out := ts_out s @ [l]\<rparr> else s)"

definition ToolExec :: "tool_env \<Rightarrow> nat list \<Rightarrow> string list \<Rightarrow> tool_state \<Rightarrow> tool_state \<times> tool_result" where
  "ToolExec env order argv s =
     (case argv of
        [] \<Rightarrow> (s, Panicked)
      | toolPath # toolArgs \<Rightarrow>
          if tool_base toolPath \<noteq> ''compile'' then run_ret env toolPath toolArgs s
          else case runRewriteAndCompile env order toolPath toolArgs s of
            (s1, Crashed) \<Rightarrow> (s1, Crashed)
          | (s1, Panicked) \<Rightarrow>
              run_ret env toolPath toolArgs (debug_line env ''[rustygo-debug] panic recovered'' s1)
          | (s1, Ret None) \<Rightarrow> (s1, Ret None)
          | (s1, Ret (Some e)) \<Rightarrow>
              run_ret env toolPath toolArgs (debug_line env (''[rustygo-debug] rewrite failed, falling back: '' @ e) s1))"

section \<open>What is compiled\<close>

text \<open>The source of a file under its new name: what the rewriter makes of one of the files of a loaded package.\<close>

definition rewritten_source :: "tool_env \<Rightarrow> package \<Rightarrow> string \<Rightarrow> string \<Rightarrow> bool" where
  "rewritten_source env pkg origPath src \<longleftrightarrow>
     (\<exists>idx f. idx < length (pk_GoFiles pkg) \<and> idx < length (pk_Syntax pkg) \<and> pk_GoFiles pkg ! idx = origPath \<and>
        RewriteFileWithConfig (te_capacity env) (pk_Info pkg) (pk_position pkg)
          (case pk_decisions pkg of None \<Rightarrow> [] | Some ds \<Rightarrow> ds) (pk_PkgPath pkg) (arena_bytes env) (pk_Syntax pkg ! idx) = Some f \<and>
        te_Format env f = Inr src)"

text \<open>An argument the compiler gets: the one the plugin got, or the path of a rewritten source in its place.\<close>

definition arg_ok :: "tool_env \<Rightarrow> package \<Rightarrow> (string \<rightharpoonup> string) \<Rightarrow> string \<Rightarrow> string \<Rightarrow> bool" where
  "arg_ok env pkg files a b \<longleftrightarrow>
     b = a \<or> (HasSuffix a ''.go'' \<and> (\<exists>src. files b = Some src \<and> rewritten_source env pkg a src))"

definition bases_distinct :: "package \<Rightarrow> bool" where
  "bases_distinct pkg \<longleftrightarrow> distinct (map Base (pk_GoFiles pkg))"

text \<open>The Go files of one package lie in one directory, so no two have the same name.\<close>

definition loader_ok :: "tool_env \<Rightarrow> bool" where
  "loader_ok env \<longleftrightarrow> (\<forall>files pkgs. te_Load env files = Return (Inr pkgs) \<longrightarrow> (\<forall>pkg \<in> set pkgs. bases_distinct pkg))"

lemma path_join_inj: "path_join d a = path_join d b \<longleftrightarrow> a = b"
  by (simp add: path_join_def)

lemma rewrite_files_runs: "ts_runs (fst (rewrite_files env bytes dir pkg is s)) = ts_runs s"
proof (induction "is" arbitrary: s)
  case (Cons i "is")
  show ?case
  proof (cases "rewrite_file env bytes dir pkg i s")
    case (Some sr)
    obtain s1 r where sr: "sr = (s1, r)" by (cases sr)
    have "ts_runs s1 = ts_runs s"
      using Some sr by (auto simp: rewrite_file_def Let_def split: if_splits option.splits sum.splits)
    then show ?thesis using Cons [of s1] Some sr by (simp split: prod.split) (metis fst_conv)
  qed simp
qed simp

lemma rewrite_file_effect:
  assumes "rewrite_file env bytes dir pkg i s = Some (s1, r)"
  shows "ts_runs s1 = ts_runs s \<and>
    (case r of
       FileChanged j p \<Rightarrow> j = i \<and> i < length (pk_GoFiles pkg) \<and> p = path_join dir (Base (pk_GoFiles pkg ! i)) \<and>
         (\<exists>f src. RewriteFileWithConfig (te_capacity env) (pk_Info pkg) (pk_position pkg)
            (case pk_decisions pkg of None \<Rightarrow> [] | Some ds \<Rightarrow> ds) (pk_PkgPath pkg) bytes (pk_Syntax pkg ! i) = Some f \<and>
            te_Format env f = Inr src \<and> ts_files s1 = (ts_files s)(p \<mapsto> src))
     | _ \<Rightarrow> ts_files s1 = ts_files s)"
  using assms by (auto simp: rewrite_file_def Let_def split: if_splits option.splits sum.splits)

text \<open>After all goroutines every new path holds what the rewriter made of its file.\<close>

lemma rewrite_files_effect:
  assumes "rewrite_files env (arena_bytes env) dir pkg is s = (s', Some rs)" "bases_distinct pkg" "distinct is"
    and "\<forall>i \<in> set is. i < length (pk_Syntax pkg)"
  shows "ts_runs s' = ts_runs s \<and>
    (\<forall>i p. FileChanged i p \<in> set rs \<longrightarrow> i \<in> set is \<and> i < length (pk_GoFiles pkg) \<and> p = path_join dir (Base (pk_GoFiles pkg ! i)) \<and>
       (\<exists>src. ts_files s' p = Some src \<and> rewritten_source env pkg (pk_GoFiles pkg ! i) src)) \<and>
    (\<forall>p. (\<forall>i \<in> set is. i < length (pk_GoFiles pkg) \<longrightarrow> p \<noteq> path_join dir (Base (pk_GoFiles pkg ! i))) \<longrightarrow> ts_files s' p = ts_files s p)"
  using assms(1,3,4)
proof (induction "is" arbitrary: s rs)
  case Nil
  then show ?case by simp
next
  case (Cons i "is")
  obtain s1 r rs1 where r: "rewrite_file env (arena_bytes env) dir pkg i s = Some (s1, r)"
    and rs: "rewrite_files env (arena_bytes env) dir pkg is s1 = (s', Some rs1)" "rs = r # rs1"
    using Cons.prems(1) by (auto split: option.splits prod.splits)
  note E = rewrite_file_effect [OF r]
  have IH: "ts_runs s' = ts_runs s1"
    "\<forall>j p. FileChanged j p \<in> set rs1 \<longrightarrow> j \<in> set is \<and> j < length (pk_GoFiles pkg) \<and> p = path_join dir (Base (pk_GoFiles pkg ! j)) \<and>
       (\<exists>src. ts_files s' p = Some src \<and> rewritten_source env pkg (pk_GoFiles pkg ! j) src)"
    "\<And>p. (\<forall>j \<in> set is. j < length (pk_GoFiles pkg) \<longrightarrow> p \<noteq> path_join dir (Base (pk_GoFiles pkg ! j))) \<Longrightarrow> ts_files s' p = ts_files s1 p"
    using Cons.IH [OF rs(1)] Cons.prems(2,3) by auto
  have apart: "path_join dir (Base (pk_GoFiles pkg ! i)) \<noteq> path_join dir (Base (pk_GoFiles pkg ! j))"
    if "j \<in> set is" "i < length (pk_GoFiles pkg)" "j < length (pk_GoFiles pkg)" for j
  proof -
    have "i \<noteq> j" using Cons.prems(2) that(1) by auto
    then show ?thesis
      using assms(2) that(2,3) nth_eq_iff_index_eq [of "map Base (pk_GoFiles pkg)" i j] by (simp add: bases_distinct_def path_join_inj)
  qed
  have new: "j = i \<and> j < length (pk_GoFiles pkg) \<and> p = path_join dir (Base (pk_GoFiles pkg ! j)) \<and>
      (\<exists>src. ts_files s' p = Some src \<and> rewritten_source env pkg (pk_GoFiles pkg ! j) src)" if rj: "r = FileChanged j p" for j p
  proof -
    obtain f src where F: "j = i" "i < length (pk_GoFiles pkg)" "p = path_join dir (Base (pk_GoFiles pkg ! i))"
        "RewriteFileWithConfig (te_capacity env) (pk_Info pkg) (pk_position pkg)
            (case pk_decisions pkg of None \<Rightarrow> [] | Some ds \<Rightarrow> ds) (pk_PkgPath pkg) (arena_bytes env) (pk_Syntax pkg ! i) = Some f"
        "te_Format env f = Inr src" "ts_files s1 = (ts_files s)(p \<mapsto> src)"
      using E rj by auto
    have "rewritten_source env pkg (pk_GoFiles pkg ! i) src"
      unfolding rewritten_source_def using F(2,4,5) Cons.prems(3) by auto
    moreover have "ts_files s' p = ts_files s1 p" using IH(3) apart F(2,3) by blast
    ultimately show ?thesis using F(1,2,3,6) by simp
  qed
  have old: "ts_files s' p = ts_files s p"
    if "\<forall>j \<in> set (i # is). j < length (pk_GoFiles pkg) \<longrightarrow> p \<noteq> path_join dir (Base (pk_GoFiles pkg ! j))" for p
  proof -
    have "ts_files s' p = ts_files s1 p" using IH(3) that by simp
    also have "\<dots> = ts_files s p" using E that by (cases r) auto
    finally show ?thesis .
  qed
  show ?case using IH(1,2) E new old rs(2) by auto
qed

text \<open>Collecting the results replaces arguments that name Go files by the new paths.\<close>

definition replaces :: "package \<Rightarrow> string list \<Rightarrow> file_result list \<Rightarrow> string list \<Rightarrow> bool" where
  "replaces pkg args rs bs \<longleftrightarrow> length bs = length args \<and>
     (\<forall>g < length args. bs ! g = args ! g \<or>
        (\<exists>i p. FileChanged i p \<in> set rs \<and> g \<in> set (go_indices args) \<and> args ! g = pk_GoFiles pkg ! i \<and> bs ! g = p))"

lemma replaces_update:
  assumes "replaces pkg args rs bs" "FileChanged i p \<in> set rs" "g \<in> set (go_indices args)" "args ! g = pk_GoFiles pkg ! i"
  shows "replaces pkg args rs (bs[g := p])"
  unfolding replaces_def
proof (intro conjI allI impI)
  fix h assume "h < length args"
  then show "bs[g := p] ! h = args ! h \<or>
      (\<exists>i q. FileChanged i q \<in> set rs \<and> h \<in> set (go_indices args) \<and> args ! h = pk_GoFiles pkg ! i \<and> bs[g := p] ! h = q)"
    using assms unfolding replaces_def by (cases "h = g") (simp_all, blast)
qed (use assms(1) in \<open>simp add: replaces_def\<close>)

lemma collect_results_replaces:
  assumes "collect_results pkg args (go_indices args) rs bs = Inr cs" "replaces pkg args rs0 bs" "set rs \<subseteq> set rs0"
  shows "replaces pkg args rs0 cs"
  using assms
proof (induction pkg args "go_indices args" rs bs rule: collect_results.induct)
  case (4 pkg args i p rs newArgs)
  have "replaces pkg args rs0 (replace_arg args (go_indices args) (pk_GoFiles pkg ! i) p newArgs)"
  proof (cases "find (\<lambda>g. args ! g = pk_GoFiles pkg ! i) (go_indices args)")
    case None
    then show ?thesis using 4 by (simp add: replace_arg_def)
  next
    case (Some g)
    then have "g \<in> set (go_indices args)" "args ! g = pk_GoFiles pkg ! i" by (auto simp: find_Some_iff)
    then show ?thesis using 4(3,4) replaces_update [of pkg args rs0 newArgs i p g] Some by (simp add: replace_arg_def)
  qed
  then show ?case using 4 by simp
qed auto

lemma replaces_refl: "replaces pkg args rs args"
  by (simp add: replaces_def)

definition rewritten_source_at :: "tool_env \<Rightarrow> package \<Rightarrow> (string \<rightharpoonup> string) \<Rightarrow> nat \<Rightarrow> string \<Rightarrow> bool" where
  "rewritten_source_at env pkg files i p \<longleftrightarrow> (\<exists>src. files p = Some src \<and> rewritten_source env pkg (pk_GoFiles pkg ! i) src)"

lemma replaces_arg_ok:
  assumes "replaces pkg args rs bs" "\<And>i p. FileChanged i p \<in> set rs \<Longrightarrow> rewritten_source_at env pkg files i p"
  shows "list_all2 (arg_ok env pkg files) args bs"
proof (rule list_all2_all_nthI)
  show "length args = length bs" using assms(1) by (simp add: replaces_def)
  fix g assume g: "g < length args"
  then consider "bs ! g = args ! g" | i where "FileChanged i (bs ! g) \<in> set rs" "g \<in> set (go_indices args)" "args ! g = pk_GoFiles pkg ! i"
    using assms(1) by (auto simp: replaces_def)
  then show "arg_ok env pkg files (args ! g) (bs ! g)"
  proof cases
    case 1
    then show ?thesis by (simp add: arg_ok_def)
  next
    case (2 i)
    then show ?thesis using assms(2) by (auto simp: arg_ok_def go_indices_def rewritten_source_at_def)
  qed
qed

text \<open>One attempt: it runs nothing and does not succeed, or runs the tool once, on arguments that are as they were but
  for the paths of rewritten sources.\<close>

lemma runRewriteAndCompile_runs:
  assumes "runRewriteAndCompile env order path args s = (s', r)" "distinct order"
    and "loader_ok env"
  shows "(ts_runs s' = ts_runs s \<and> r \<noteq> Ret None) \<or>
    (\<exists>bs pkg. ts_runs s' = ts_runs s @ [(path, bs)] \<and> list_all2 (arg_ok env pkg (ts_files s')) args bs \<and>
       r = Ret (map_option (\<lambda>e. ''tool exec failed: '' @ e) (te_run env path bs (ts_files s'))))"
proof -
  have plain: ?thesis if "(s', r) = run_ret env path args t" "ts_runs t = ts_runs s" for t
    using that by (auto simp: run_ret_def executeTool_def arg_ok_def list_all2_refl)
  show ?thesis
  proof (cases "map ((!) args) (go_indices args) = []")
    case True
    then show ?thesis using assms(1) plain [of s] by (simp add: runRewriteAndCompile_def Let_def)
  next
    case go: False
    show ?thesis
    proof (cases "te_MkdirTemp env")
      case (Inl e)
      then show ?thesis using assms(1) go by (auto simp: runRewriteAndCompile_def Let_def)
    next
      case (Inr dir)
      define s1 where "s1 = s\<lparr>ts_dirs := ts_dirs s @ [dir]\<rparr>"
      show ?thesis
      proof (cases "skipped_package (package_arg args)")
        case True
        then show ?thesis using assms(1) go Inr plain [of s1]
          by (simp add: runRewriteAndCompile_def Let_def s1_def)
      next
        case skip: False
        define L where "L = te_Load env (map ((!) args) (go_indices args))"
        show ?thesis
        proof (cases "\<exists>pkg pkgs. L = Return (Inr (pkg # pkgs))")
          case False
          then show ?thesis using assms(1) go Inr skip
            by (cases L rule: go.exhaust) (auto simp: runRewriteAndCompile_def Let_def L_def [symmetric] split: sum.splits list.splits)
        next
          case True
          then obtain pkg pkgs where L: "L = Return (Inr (pkg # pkgs))" by blast
          define is' where "is' = filter (\<lambda>i. i < length (pk_Syntax pkg)) order"
          obtain s2 ors where rf: "rewrite_files env (arena_bytes env) dir pkg is' (explain env pkg s1) = (s2, ors)" by force
          have run: "(s', r) = (case ors of None \<Rightarrow> (s2, Crashed)
              | Some rs \<Rightarrow> (case collect_results pkg args (go_indices args) rs args of
                    Inl e \<Rightarrow> (s2, Ret (Some e)) | Inr newArgs \<Rightarrow> run_ret env path newArgs s2))"
            using assms(1) go Inr skip L rf
            by (simp add: runRewriteAndCompile_def Let_def L_def [symmetric] s1_def is'_def split: option.splits)
          have er: "ts_runs (explain env pkg s1) = ts_runs s" by (simp add: explain_def s1_def split: option.split)
          then have r2: "ts_runs s2 = ts_runs s" using rewrite_files_runs [of env "arena_bytes env" dir pkg is' "explain env pkg s1"] rf by simp
          show ?thesis
          proof (cases "\<exists>rs bs. ors = Some rs \<and> collect_results pkg args (go_indices args) rs args = Inr bs")
            case False
            then show ?thesis using run r2 by (auto split: option.splits sum.splits)
          next
            case True
            then obtain rs bs where rs: "ors = Some rs" "collect_results pkg args (go_indices args) rs args = Inr bs" by blast
            have "bases_distinct pkg" using assms(3) L by (auto simp: L_def loader_ok_def)
            moreover have "distinct is'" "\<forall>i \<in> set is'. i < length (pk_Syntax pkg)" using assms(2) by (auto simp: is'_def)
            ultimately have files: "rewritten_source_at env pkg (ts_files s2) i p" if "FileChanged i p \<in> set rs" for i p
              using rewrite_files_effect [OF rf [unfolded rs(1)]] that unfolding rewritten_source_at_def by blast
            have "replaces pkg args rs bs" using collect_results_replaces [OF rs(2) replaces_refl] by simp
            then have "list_all2 (arg_ok env pkg (ts_files s2)) args bs"
              using files by (rule replaces_arg_ok)
            then show ?thesis
              using run r2 rs by (intro disjI2 exI [of _ bs] exI [of _ pkg]) (simp add: run_ret_def executeTool_def)
          qed
        qed
      qed
    qed
  qed
qed

section \<open>Properties\<close>

text \<open>C40. The plugin stands in for the compiler without changing what a build means: a tool that is not the compiler is run
  once, as it was called; the compiler is run with arguments that differ from the given ones only where a Go file is
  replaced by what the rewriter made of that file; and when the attempt fails in any way, loading panics included, the
  last run is the original call. The result is that of the last run.\<close>

theorem ToolExec_outcome:
  assumes "ToolExec env order (path # args) s = (s', Ret e)" "distinct order"
    and "loader_ok env"
  shows "\<exists>runs bs. ts_runs s' = ts_runs s @ runs @ [(path, bs)] \<and>
    e = map_option (\<lambda>x. ''tool exec failed: '' @ x) (te_run env path bs (ts_files s')) \<and>
    (tool_base path \<noteq> ''compile'' \<longrightarrow> runs = [] \<and> bs = args) \<and>
    (runs = [] \<longrightarrow> bs = args \<or> (\<exists>pkg. list_all2 (arg_ok env pkg (ts_files s')) args bs \<and> e = None)) \<and>
    (runs \<noteq> [] \<longrightarrow> bs = args \<and> length runs = 1)"
proof (cases "tool_base path = ''compile''")
  case False
  then show ?thesis using assms(1) by (auto simp: ToolExec_def run_ret_def executeTool_def)
next
  case True
  obtain s1 r where r: "runRewriteAndCompile env order path args s = (s1, r)" by force
  have fallback: ?thesis if "run_ret env path args (debug_line env l s1) = (s', Ret e)"
      "ts_runs s1 = ts_runs s \<or> (\<exists>x. ts_runs s1 = ts_runs s @ [x])" for l
  proof -
    have f: "ts_files (debug_line env l s1) = ts_files s1" "ts_runs (debug_line env l s1) = ts_runs s1" by (simp_all add: debug_line_def)
    have s': "ts_runs s' = ts_runs s1 @ [(path, args)]" "ts_files s' = ts_files s1"
      "e = map_option (\<lambda>x. ''tool exec failed: '' @ x) (te_run env path args (ts_files s1))"
      using that(1) f by (auto simp: run_ret_def executeTool_def)
    show ?thesis
      using that(2) s' True by (elim disjE exE) (intro exI conjI, auto)
  qed
  have T: "(case r of Crashed \<Rightarrow> (s1, Crashed)
      | Panicked \<Rightarrow> run_ret env path args (debug_line env ''[rustygo-debug] panic recovered'' s1)
      | Ret None \<Rightarrow> (s1, Ret None)
      | Ret (Some e) \<Rightarrow> run_ret env path args (debug_line env (''[rustygo-debug] rewrite failed, falling back: '' @ e) s1)) = (s', Ret e)"
    using assms(1) True r by (cases r) (simp_all add: ToolExec_def split: option.splits)
  show ?thesis
    using runRewriteAndCompile_runs [OF r assms(2,3)]
  proof (elim disjE exE conjE)
    assume n: "ts_runs s1 = ts_runs s" "r \<noteq> Ret None"
    then show ?thesis
    proof (cases r)
      case (Ret x)
      then obtain y where "r = Ret (Some y)" using n(2) by (cases x) auto
      then show ?thesis using T n(1) by (simp only: tool_result.case option.case) (rule fallback, auto)
    next
      case Panicked
      then show ?thesis using T n(1) by (simp only: tool_result.case) (rule fallback, auto)
    qed (use T in simp)
  next
    fix bs pkg
    assume bs: "ts_runs s1 = ts_runs s @ [(path, bs)]" "list_all2 (arg_ok env pkg (ts_files s1)) args bs"
      and rr: "r = Ret (map_option (\<lambda>e. ''tool exec failed: '' @ e) (te_run env path bs (ts_files s1)))"
    show ?thesis
    proof (cases "te_run env path bs (ts_files s1)")
      case None
      then have "s' = s1" "e = None" using T rr by auto
      then show ?thesis using bs None True by (intro exI [of _ "[]"] exI [of _ bs]) auto
    next
      case (Some x)
      then have "run_ret env path args (debug_line env (''[rustygo-debug] rewrite failed, falling back: '' @ ''tool exec failed: '' @ x) s1) = (s', Ret e)"
        using T by (simp only: rr tool_result.case option.case option.map)
      then show ?thesis using bs(1) by (intro fallback) blast+
    qed
  qed
qed

text \<open>A package that cannot be loaded is compiled as it is.\<close>

definition demo_tool_env :: tool_env where
  "demo_tool_env = \<lparr>te_getenv = (\<lambda>_. ''''), te_MkdirTemp = Inr ''/tmp/x'', te_Load = (\<lambda>_. Panic NilDereference),
     te_Format = (\<lambda>_. Inr ''''), te_WriteFile = (\<lambda>_. None), te_run = (\<lambda>_ _ _. None), te_capacity = id, te_type_text = (\<lambda>_. '''')\<rparr>"

definition demo_tool_state :: tool_state where
  "demo_tool_state = \<lparr>ts_runs = [], ts_dirs = [], ts_files = Map.empty, ts_out = []\<rparr>"

theorem ToolExec_outcome_witness:
  "\<exists>s' runs bs. ToolExec demo_tool_env [] [''/go/compile'', ''-p'', ''main'', ''a.go''] demo_tool_state = (s', Ret None) \<and>
     ts_runs s' = runs @ [(''/go/compile'', bs)]"
proof -
  have b: "tool_base ''/go/compile'' = ''compile''" "go_indices [''-p'', ''main'', ''a.go''] = [2]" "\<not> skipped_package ''main''"
    by code_simp+
  have "snd (ToolExec demo_tool_env [] [''/go/compile'', ''-p'', ''main'', ''a.go''] demo_tool_state) = Ret None"
    by (simp add: ToolExec_def b runRewriteAndCompile_def Let_def run_ret_def executeTool_def demo_tool_env_def debug_line_def)
  then obtain s' where r: "ToolExec demo_tool_env [] [''/go/compile'', ''-p'', ''main'', ''a.go''] demo_tool_state = (s', Ret None)"
    by (metis prod.collapse)
  have l: "loader_ok demo_tool_env" by (simp add: loader_ok_def demo_tool_env_def)
  from ToolExec_outcome [OF r _ l]
  obtain runs bs where "ts_runs s' = ts_runs demo_tool_state @ runs @ [(''/go/compile'', bs)]" by auto
  then have "ts_runs s' = runs @ [(''/go/compile'', bs)]" by (simp add: demo_tool_state_def)
  with r show ?thesis by blast
qed

text \<open>The directory is made before the package is looked at, so the compilation of a skipped package leaves one behind;
  none is ever removed.\<close>

lemma skipped_package_leaks_directory:
  assumes "go_indices args \<noteq> []" "te_MkdirTemp env = Inr dir" "skipped_package (package_arg args)"
  shows "ts_dirs (fst (runRewriteAndCompile env order path args s)) = ts_dirs s @ [dir]"
  using assms by (simp add: runRewriteAndCompile_def Let_def run_ret_def executeTool_def)

text \<open>A module whose path has no dot is taken for the standard library.\<close>

lemma dotless_module_skipped: "skipped_package ''shop/internal/cart''"
  by code_simp

section \<open>The commands\<close>

text \<open>\<^verbatim>\<open>rustygoc build\<close>: the arguments and the environment of the \<^verbatim>\<open>go\<close> command. What the flag package makes of the
  command line (an error, or the size, the output, the switch and the patterns) is an argument.\<close>

definition build_args :: "string \<Rightarrow> string \<Rightarrow> string list \<Rightarrow> string list" where
  "build_args exePath output patterns =
     [''build'', ''-toolexec='' @ exePath] @ (if output \<noteq> '''' then [''-o'', output] else []) @ patterns"

definition build_environ :: "string list \<Rightarrow> int \<Rightarrow> bool \<Rightarrow> string list" where
  "build_environ environ arenaBytes verbose =
     environ @ [''RUSTYGO_ARENA_BYTES='' @ fmt_d arenaBytes] @ (if verbose then [''RUSTYGO_EXPLAIN=1''] else [])"

definition runBuild ::
  "(string list \<Rightarrow> string + (int \<times> string \<times> bool \<times> string list)) \<Rightarrow> string + string \<Rightarrow> string list \<Rightarrow>
   (string list \<Rightarrow> string list \<Rightarrow> string option) \<Rightarrow> string list \<Rightarrow> string option" where
  "runBuild parse exe environ go_run args =
     (case parse args of
        Inl e \<Rightarrow> Some e
      | Inr (arenaBytes, output, verbose, patterns) \<Rightarrow>
          if patterns = [] then Some ''usage: rustygoc build [flags] ./...''
          else case exe of
            Inl e \<Rightarrow> Some (''failed to get executable path: '' @ e)
          | Inr exePath \<Rightarrow>
              map_option (\<lambda>e. ''go build failed: '' @ e)
                (go_run (build_args exePath output patterns) (build_environ environ arenaBytes verbose)))"

text \<open>\<^verbatim>\<open>main\<close>: the exit code, for the arguments behind the program's name.\<close>

definition rustygoc_main ::
  "tool_env \<Rightarrow> nat list \<Rightarrow> (string list \<Rightarrow> string option) \<Rightarrow> string list \<Rightarrow> tool_state \<Rightarrow> tool_state \<times> int" where
  "rustygoc_main env order build argv s =
     (case argv of
        [] \<Rightarrow> (s, 1)
      | a # rest \<Rightarrow>
          if IsToolExec a
          then (case ToolExec env order argv s of
                  (s', Ret None) \<Rightarrow> (s', 0)
                | (s', Ret (Some e)) \<Rightarrow> (s', 1)
                | (s', _) \<Rightarrow> (s', 2))
          else if a = ''build'' then (s, if build rest = None then 0 else 1)
          else (s, 1))"

text \<open>\<^verbatim>\<open>rustygocheck -fix\<close>: files are overwritten one after the other, in place.\<close>

definition hasFixFlag :: "string list \<Rightarrow> bool" where
  "hasFixFlag args \<longleftrightarrow> list_ex (\<lambda>a. a = ''-fix'' \<or> a = ''--fix'' \<or> a = ''-fix=true'') args"

text \<open>One file: an error, or the state and how many files changed; None for the panic on the index.\<close>

definition fix_file :: "tool_env \<Rightarrow> int \<Rightarrow> package \<Rightarrow> nat \<Rightarrow> tool_state \<Rightarrow> (tool_state \<times> (string + nat)) option" where
  "fix_file env bytes pkg i s =
     (case RewriteFileWithConfig (te_capacity env) (pk_Info pkg) (pk_position pkg)
             (case pk_decisions pkg of None \<Rightarrow> [] | Some ds \<Rightarrow> ds) (pk_PkgPath pkg) bytes (pk_Syntax pkg ! i) of
        None \<Rightarrow> Some (s, Inr 0)
      | Some f \<Rightarrow>
          (case te_Format env f of
             Inl e \<Rightarrow> Some (s, Inl e)
           | Inr src \<Rightarrow>
               if length (pk_GoFiles pkg) \<le> i then None
               else let path = pk_GoFiles pkg ! i
               in case te_WriteFile env path of
                    Some e \<Rightarrow> Some (s, Inl e)
                  | None \<Rightarrow> Some (s\<lparr>ts_files := (ts_files s)(path \<mapsto> src), ts_out := ts_out s @ [''rewrote '' @ path]\<rparr>, Inr 1)))"

fun fix_files :: "tool_env \<Rightarrow> int \<Rightarrow> (package \<times> nat) list \<Rightarrow> nat \<Rightarrow> tool_state \<Rightarrow> tool_state \<times> tool_result" where
  "fix_files env bytes [] changed s =
     (if changed = 0 then s\<lparr>ts_out := ts_out s @ [''no eligible rewrites found'']\<rparr> else s, Ret None)"
| "fix_files env bytes ((pkg, i) # rest) changed s =
     (case fix_file env bytes pkg i s of
        None \<Rightarrow> (s, Panicked)
      | Some (s', Inl e) \<Rightarrow> (s', Ret (Some e))
      | Some (s', Inr k) \<Rightarrow> fix_files env bytes rest (changed + k) s')"

definition runFixMode ::
  "tool_env \<Rightarrow> (string list \<Rightarrow> string + (bool \<times> int \<times> string list)) \<Rightarrow> (package list \<Rightarrow> nat) \<Rightarrow> string list \<Rightarrow>
   tool_state \<Rightarrow> tool_state \<times> tool_result" where
  "runFixMode env parse PrintErrors args s =
     (case parse args of
        Inl e \<Rightarrow> (s, Ret (Some e))
      | Inr (fix, arenaBytes, patterns) \<Rightarrow>
          if \<not> fix then (s, Ret None)
          else if patterns = [] then (s, Ret (Some ''usage: rustygocheck -fix ./...''))
          else case te_Load env patterns of
            Panic _ \<Rightarrow> (s, Panicked)
          | Return (Inl e) \<Rightarrow> (s, Ret (Some e))
          | Return (Inr pkgs) \<Rightarrow>
              if PrintErrors pkgs > 0 then (s, Ret (Some ''package load failed''))
              else fix_files env arenaBytes
                (concat (map (\<lambda>pkg. map (Pair pkg) [0 ..< length (pk_Syntax pkg)]) pkgs)) 0 s)"

section \<open>The size in the environment\<close>

lemma all_digits_itoa: "all_digits (itoa n)"
  using itoa_digits [of n] itoa_not_empty [of n] by (simp add: all_digits_def digit_chars_def)

text \<open>The size \<^verbatim>\<open>rustygoc build\<close> puts into the environment is the one the plugin reads, if it is positive; else the plugin
  takes its own default and not that of the flag.\<close>

lemma arena_bytes_passed:
  assumes "te_getenv env ''RUSTYGO_ARENA_BYTES'' = fmt_d v" "v < 2 ^ 63"
  shows "arena_bytes env = (if 0 < v then v else 256 * 1024)"
proof (cases "v < 0")
  case True
  then have "fmt_d v = CHR ''-'' # itoa (nat (- v))" by (simp add: fmt_d_def)
  moreover have "\<not> all_digits (CHR ''-'' # itoa (nat (- v)))" by (simp add: all_digits_def)
  ultimately show ?thesis using True assms(1) by (simp add: arena_bytes_def Let_def Atoi_pos_def)
next
  case False
  obtain c r where c: "itoa (nat v) = c # r" using itoa_not_empty by (cases "itoa (nat v)") auto
  then have "c \<noteq> CHR ''+''" using itoa_digits [of "nat v"] by (auto simp: digit_chars_def)
  then have "(case itoa (nat v) of [] \<Rightarrow> itoa (nat v) | c # r \<Rightarrow> if c = CHR ''+'' then r else itoa (nat v)) = itoa (nat v)"
    by (simp add: c)
  then have "Atoi_pos (itoa (nat v)) = (if 0 < v then Some v else None)"
    using False assms(2) all_digits_itoa by (simp add: Atoi_pos_def Let_def dec_val_itoa nat_less_iff del: dec_val.simps)
  then show ?thesis using False assms(1) itoa_not_empty by (simp add: arena_bytes_def Let_def fmt_d_def)
qed

section \<open>What a fix run writes\<close>

text \<open>A run that ends with an error has overwritten the files before the failing one; whatever the end, a file
  that differs from before holds what the rewriter made of it.\<close>

definition fixed_source :: "tool_env \<Rightarrow> int \<Rightarrow> package \<Rightarrow> nat \<Rightarrow> string \<Rightarrow> bool" where
  "fixed_source env bytes pkg i src \<longleftrightarrow>
     (\<exists>f. RewriteFileWithConfig (te_capacity env) (pk_Info pkg) (pk_position pkg)
        (case pk_decisions pkg of None \<Rightarrow> [] | Some ds \<Rightarrow> ds) (pk_PkgPath pkg) bytes (pk_Syntax pkg ! i) = Some f \<and>
        te_Format env f = Inr src)"

lemma fix_files_effect:
  assumes "fix_files env bytes work changed s = (s', r)" "ts_files s' p \<noteq> ts_files s p"
  shows "\<exists>(pkg, i) \<in> set work. p = pk_GoFiles pkg ! i \<and> (\<exists>src. ts_files s' p = Some src \<and> fixed_source env bytes pkg i src)"
  using assms
proof (induction work arbitrary: changed s)
  case Nil
  then show ?case by (auto split: if_splits)
next
  case (Cons x work)
  obtain pkg i where x: "x = (pkg, i)" by (cases x)
  show ?case
  proof (cases "fix_file env bytes pkg i s")
    case None
    then show ?thesis using Cons.prems by (simp add: x)
  next
    case (Some sr)
    obtain s1 q where sr: "sr = (s1, q)" by (cases sr)
    have eff: "ts_files s1 = ts_files s \<or>
        (\<exists>src. ts_files s1 = (ts_files s)(pk_GoFiles pkg ! i \<mapsto> src) \<and> fixed_source env bytes pkg i src)"
      using Some unfolding sr fix_file_def fixed_source_def
      by (auto simp: Let_def split: option.splits sum.splits if_splits)
    show ?thesis
    proof (cases "ts_files s' p = ts_files s1 p")
      case True
      then have "ts_files s1 p \<noteq> ts_files s p" using Cons.prems(2) by simp
      then obtain src where "p = pk_GoFiles pkg ! i" "ts_files s1 p = Some src" "fixed_source env bytes pkg i src"
        using eff by (auto split: if_splits)
      then show ?thesis using True by (auto simp: x)
    next
      case False
      then obtain k where "q = Inr k" using Cons.prems Some by (cases q) (auto simp: x sr)
      then have "fix_files env bytes work (changed + k) s1 = (s', r)" using Cons.prems(1) Some by (simp add: x sr)
      from Cons.IH [OF this False] show ?thesis by auto
    qed
  qed
qed

end
