(* ===== verification/Os_Backends.thy ===== *)
theory Os_Backends
  imports LocalArena Scope
begin

text \<open>
  The other two operating system back ends: \<^verbatim>\<open>arena_windows.go\<close>, where \<^verbatim>\<open>VirtualAlloc\<close> and \<^verbatim>\<open>VirtualProtect\<close> take
  the place of \<^verbatim>\<open>mmap\<close> and \<^verbatim>\<open>mprotect\<close>, and \<^verbatim>\<open>arena_wasm.go\<close>, where chunks are Go slices. The first keeps the promise
  the proofs about arenas rest on, a fresh chunk; the second keeps it but for the alignment. The field
  \<^verbatim>\<open>ch_release\<close> only says that the capacity of the buffer is its length; how it is given back is below.
\<close>

section \<open>Windows\<close>

text \<open>What the system answers: an address (0 for a failure) and an error number; success and an error number.\<close>

record win_env =
  wn_VirtualAlloc :: "u64 \<Rightarrow> u64 \<times> nat"
  wn_VirtualProtect :: "u64 \<Rightarrow> u64 \<Rightarrow> bool \<times> nat"
  wn_VirtualFree :: "u64 \<Rightarrow> bool \<times> nat"

datatype win_error = Errno nat | ErrorText string

definition win_error :: "nat \<Rightarrow> string \<Rightarrow> win_error" where
  "win_error e txt = (if e = 0 then ErrorText txt else Errno e)"

text \<open>\<^verbatim>\<open>unsafe.Slice((*byte)(ptr), size)\<close> over fresh memory.\<close>

definition byte_slice :: "u64 \<Rightarrow> int \<Rightarrow> u8 list go" where
  "byte_slice addr sz =
     (if sz < 0 then Panic (PanicMsg ''unsafe.Slice: len out of range'')
      else case unsafe_Slice (uint addr) 1 sz of Panic p \<Rightarrow> Panic p | Return _ \<Rightarrow> Return (replicate (nat sz) 0))"

definition win_allocArenaBuffer :: "win_env \<Rightarrow> int \<Rightarrow> (win_error + (u8 list \<times> u64)) go" where
  "win_allocArenaBuffer w sz =
     (case wn_VirtualAlloc w (word_of_int sz) of (addr, e) \<Rightarrow>
        if addr = 0 then Return (Inl (win_error e ''VirtualAlloc failed''))
        else case byte_slice addr sz of Panic p \<Rightarrow> Panic p | Return buf \<Rightarrow> Return (Inr (buf, addr)))"

text \<open>The releasing closure, of both variants alike.\<close>

definition win_release :: "win_env \<Rightarrow> u64 \<Rightarrow> u8 list \<Rightarrow> win_error option" where
  "win_release w addr buf =
     (if buf = [] then None
      else case wn_VirtualFree w addr of (ok, e) \<Rightarrow> if ok then None else Some (win_error e ''VirtualFree failed''))"

definition win_allocArenaBufferWithGuard :: "win_env \<Rightarrow> int \<Rightarrow> (win_error + (u8 list \<times> u64)) go" where
  "win_allocArenaBufferWithGuard w sz =
     (let pageSize = 4096;
          alignedSize = go_int (go_int (go_int (sz + pageSize) - 1) AND NOT (go_int (pageSize - 1)));
          totalSize = go_int (alignedSize + pageSize)
      in case wn_VirtualAlloc w (word_of_int totalSize) of (addr, e) \<Rightarrow>
           if addr = 0 then Return (Inl (win_error e ''VirtualAlloc failed''))
           else case wn_VirtualProtect w (addr + word_of_int alignedSize) (word_of_int pageSize) of (ok, e) \<Rightarrow>
             if \<not> ok then Return (Inl (win_error e ''VirtualProtect failed''))
             else case byte_slice addr sz of Panic p \<Rightarrow> Panic p | Return buf \<Rightarrow> Return (Inr (buf, addr)))"

definition win_newChunk :: "win_env \<Rightarrow> int \<Rightarrow> bool \<Rightarrow> (win_error + chunk) go" where
  "win_newChunk w sz guardPages =
     (case (if guardPages then win_allocArenaBufferWithGuard w sz else win_allocArenaBuffer w sz) of
        Panic p \<Rightarrow> Panic p
      | Return (Inl e) \<Rightarrow> Return (Inl e)
      | Return (Inr (buf, b)) \<Rightarrow> Return (Inr \<lparr>ch_buf = buf, ch_base = b, ch_off = 0, ch_release = Munmap\<rparr>))"

text \<open>What the documentation of \<^verbatim>\<open>VirtualAlloc\<close> promises: a region of the rounded size, on a page, in the user address
  space, apart from all other regions; a size of 0 fails.\<close>

definition win_ok :: "win_env \<Rightarrow> chunk list \<Rightarrow> bool" where
  "win_ok w cs \<longleftrightarrow>
     (\<forall>n a e. wn_VirtualAlloc w n = (a, e) \<longrightarrow> a \<noteq> 0 \<longrightarrow>
        n \<noteq> 0 \<and> 4096 dvd unat a \<and> unat a + unat n \<le> 2 ^ 47 \<and>
        (\<forall>c \<in> set cs. {unat a ..< unat a + unat n} \<inter> addr_range c = {}))"

lemma win_okD:
  assumes "win_ok w cs" "wn_VirtualAlloc w n = (a, e)" "a \<noteq> 0"
  shows "n \<noteq> 0" "4096 dvd unat a" "unat a + unat n \<le> 2 ^ 47" "\<forall>c \<in> set cs. {unat a ..< unat a + unat n} \<inter> addr_range c = {}"
  using assms unfolding win_ok_def by blast+

lemma uint_bound:
  fixes a :: u64
  assumes "unat a + nat sz \<le> 2 ^ 47" "0 < sz"
  shows "uint a + sz \<le> 2 ^ 64"
proof -
  have "uint a + sz = int (unat a + nat sz)" using assms(2) by simp
  also have "\<dots> \<le> 2 ^ 47" using assms(1) by (metis of_nat_le_iff of_nat_numeral of_nat_power)
  finally show ?thesis by simp
qed

lemma byte_slice_Return:
  assumes "0 < sz" "uint addr + sz \<le> 2 ^ 64"
  shows "byte_slice addr sz = Return (replicate (nat sz) 0)"
  using assms by (simp add: byte_slice_def unsafe_Slice_def)

lemma unat_word_of_int_in:
  assumes "0 \<le> sz" "sz < 2 ^ 63"
  shows "unat (word_of_int sz :: u64) = nat sz"
  using assms by (intro unat_word_of_int) auto

text \<open>The rounded size is less than a page above the size asked for.\<close>

lemma guard_size_upper:
  assumes "0 < sz" "sz < 2 ^ 63" "al = go_int (go_int (go_int (sz + 4096) - 1) AND NOT (go_int (4096 - 1)))" "0 < go_int (al + 4096)"
  shows "al < sz + 4096"
proof -
  have G: "sz \<le> al" "al + 4096 < 2 ^ 63" using guard_size_covers [of 4096 12 sz al] assms by auto
  let ?x = "sz + 4095"
  have "go_int (go_int (sz + 4096) - 1) = ?x"
    using G assms(1) by (simp add: go_int_nonneg)
  then have "al = go_int (?x div 4096 * 4096)"
    using assms(3) int_and_not_mask [of ?x 12] by (simp add: go_int_nonneg)
  moreover have "?x div 4096 * 4096 \<le> ?x" "0 \<le> ?x div 4096 * 4096"
    using div_mult_mod_eq [of ?x 4096] pos_mod_sign [of 4096 ?x] assms(1) by (linarith, simp)
  ultimately show ?thesis using G by (simp add: go_int_nonneg)
qed

lemma word_of_int_positive:
  assumes "in_int64 x" "(word_of_int x :: u64) \<noteq> 0" "unat (word_of_int x :: u64) \<le> 2 ^ 47"
  shows "0 < x"
proof (rule ccontr)
  assume "\<not> 0 < x"
  then have x: "x < 0" "- (2 ^ 63) \<le> x" using assms(1,2) by (auto simp: in_int64_def not_less le_less)
  have "uint (word_of_int x :: u64) = x mod 2 ^ 64" by (simp add: uint_word_of_int)
  also have "\<dots> = (x + 2 ^ 64) mod 2 ^ 64" by simp
  also have "\<dots> = x + 2 ^ 64" using x by (intro mod_pos_pos_trivial) auto
  finally show False using x assms(3) by (simp add: unat_eq_nat_uint)
qed

text \<open>C38. A chunk from the Windows back end is as good as one from \<^verbatim>\<open>mmap\<close>: zeroed memory of exactly the size asked
  for, on a page and apart from every live chunk, so everything proved of arenas holds there too; no size makes it
  panic. With guard pages the page behind the rounded size has been protected: an overrun of the buffer reaches it
  within one page, and it lies behind the buffer.\<close>

theorem win_newChunk_fresh:
  assumes "win_ok w cs" "0 < sz" "sz < 2 ^ 63"
  shows "(\<exists>e. win_newChunk w sz g = Return (Inl e)) \<or>
    (\<exists>c. win_newChunk w sz g = Return (Inr c) \<and> fresh_chunk cs sz c \<and>
       (g \<longrightarrow> (\<exists>ga. fst (wn_VirtualProtect w ga 4096) \<and>
          unat (ch_base c) + chunk_len c \<le> unat ga \<and> unat ga < unat (ch_base c) + chunk_len c + 4096)))"
proof (cases g)
  case False
  obtain a e where a: "wn_VirtualAlloc w (word_of_int sz) = (a, e)" by force
  show ?thesis
  proof (cases "a = 0")
    case True
    then show ?thesis using a False by (simp add: win_newChunk_def win_allocArenaBuffer_def)
  next
    case ok: False
    have A: "4096 dvd unat a" "unat a + nat sz \<le> 2 ^ 47" "\<forall>c \<in> set cs. {unat a ..< unat a + nat sz} \<inter> addr_range c = {}"
      using win_okD [OF assms(1) a ok] unat_word_of_int_in [of sz] assms(2,3) by simp_all
    have "uint a + sz \<le> 2 ^ 64" using uint_bound [OF A(2) assms(2)] .
    then have "win_newChunk w sz g = Return (Inr \<lparr>ch_buf = replicate (nat sz) 0, ch_base = a, ch_off = 0, ch_release = Munmap\<rparr>)"
      using a ok False byte_slice_Return assms(2) by (simp add: win_newChunk_def win_allocArenaBuffer_def)
    moreover have "fresh_chunk cs sz \<lparr>ch_buf = replicate (nat sz) 0, ch_base = a, ch_off = 0, ch_release = Munmap\<rparr>"
      using A assms(2) by (auto simp: fresh_chunk_def chunk_ok_def addr_range_def)
    ultimately show ?thesis using False by blast
  qed
next
  case True
  let ?al = "go_int (go_int (go_int (sz + 4096) - 1) AND NOT (go_int (4096 - 1)))"
  let ?tot = "go_int (?al + 4096)"
  obtain a e where a: "wn_VirtualAlloc w (word_of_int ?tot) = (a, e)" by force
  show ?thesis
  proof (cases "a = 0")
    case True
    then show ?thesis using a \<open>g\<close> by (simp add: win_newChunk_def win_allocArenaBufferWithGuard_def Let_def)
  next
    case ok: False
    have W: "word_of_int ?tot \<noteq> (0 :: u64)" "4096 dvd unat a" "unat a + unat (word_of_int ?tot :: u64) \<le> 2 ^ 47"
        "\<forall>c \<in> set cs. {unat a ..< unat a + unat (word_of_int ?tot :: u64)} \<inter> addr_range c = {}"
      using win_okD [OF assms(1) a ok] by blast+
    have i: "in_int64 ?tot" by simp
    have tot: "0 < ?tot" using word_of_int_positive [OF i W(1)] W(3) by simp
    then have tn: "unat (word_of_int ?tot :: u64) = nat ?tot" using i by (intro unat_word_of_int_in) (auto simp: in_int64_def)
    have G: "sz \<le> ?al" "?al + 4096 < 2 ^ 63" "?tot = ?al + 4096" 
      using guard_size_covers [of 4096 12 sz ?al] assms(2,3) tot by auto
    have up: "?al < sz + 4096" using guard_size_upper [OF assms(2,3) refl] tot by blast
    have al: "unat (word_of_int ?al :: u64) = nat ?al" using G assms(2) by (intro unat_word_of_int_in) auto
    have len: "unat a + nat ?tot \<le> 2 ^ 47" using W(3) tn by simp
    have ga: "unat (a + word_of_int ?al) = unat a + nat ?al"
      using unat_add_small [of a "word_of_int ?al"] len al G assms(2) by simp
    show ?thesis
    proof (cases "fst (wn_VirtualProtect w (a + word_of_int ?al) 4096)")
      case False
      then obtain e' where "wn_VirtualProtect w (a + word_of_int ?al) 4096 = (False, e')" by (metis (full_types) prod.collapse)
      then show ?thesis using a ok \<open>g\<close> by (simp add: win_newChunk_def win_allocArenaBufferWithGuard_def Let_def)
    next
      case True
      have "unat a + nat sz \<le> 2 ^ 47" using len G assms(2) by simp
      then have "uint a + sz \<le> 2 ^ 64" using uint_bound assms(2) by blast
      then have c: "win_newChunk w sz g = Return (Inr \<lparr>ch_buf = replicate (nat sz) 0, ch_base = a, ch_off = 0, ch_release = Munmap\<rparr>)"
      proof -
        obtain e' where "wn_VirtualProtect w (a + word_of_int ?al) 4096 = (True, e')" using True by (metis (full_types) prod.collapse)
        then show ?thesis using a ok \<open>g\<close> byte_slice_Return [OF assms(2) \<open>uint a + sz \<le> 2 ^ 64\<close>]
          by (simp add: win_newChunk_def win_allocArenaBufferWithGuard_def Let_def)
      qed
      have "{unat a ..< unat a + nat sz} \<subseteq> {unat a ..< unat a + nat ?tot}" using G assms(2) by auto
      then have "fresh_chunk cs sz \<lparr>ch_buf = replicate (nat sz) 0, ch_base = a, ch_off = 0, ch_release = Munmap\<rparr>"
        using W(2,4) len G assms(2) unfolding tn by (auto simp: fresh_chunk_def chunk_ok_def addr_range_def)
      moreover have "unat a + nat sz \<le> unat (a + word_of_int ?al)" "unat (a + word_of_int ?al) < unat a + nat sz + 4096"
        using ga G up assms(2) by auto
      ultimately show ?thesis using c True by auto
    qed
  qed
qed

text \<open>A concrete machine that hands out one region.\<close>

definition demo_win :: win_env where
  "demo_win = \<lparr>wn_VirtualAlloc = (\<lambda>n. if 0 < n \<and> n \<le> 65536 then (65536, 0) else (0, 8)), wn_VirtualProtect = (\<lambda>_ _. (True, 0)),
     wn_VirtualFree = (\<lambda>_. (True, 0))\<rparr>"

theorem win_newChunk_fresh_witness: "\<exists>c. win_newChunk demo_win 100 True = Return (Inr c) \<and> fresh_chunk [] 100 c"
proof -
  have "win_ok demo_win []" by (auto simp: win_ok_def demo_win_def word_le_nat_alt split: if_splits)
  from win_newChunk_fresh [OF this, of 100 True] show ?thesis
    by (auto simp: win_newChunk_def win_allocArenaBufferWithGuard_def demo_win_def go_int_nonneg byte_slice_def unsafe_Slice_def)
qed

section \<open>WebAssembly\<close>

text \<open>\<open>place\<close> is where \<^verbatim>\<open>make\<close> puts a slice of a length; a length no slice can have panics. The guarded variant is the
  same, releasing does nothing.\<close>

definition wasm_maxAlloc :: int where "wasm_maxAlloc = 2 ^ 32"

definition wasm_allocArenaBuffer :: "(int \<Rightarrow> u64) \<Rightarrow> int \<Rightarrow> (u8 list \<times> u64) go" where
  "wasm_allocArenaBuffer place sz =
     (if sz < 0 \<or> sz > wasm_maxAlloc then Panic (PanicMsg ''makeslice: len out of range'')
      else Return (replicate (nat sz) 0, place sz))"

definition wasm_allocArenaBufferWithGuard :: "(int \<Rightarrow> u64) \<Rightarrow> int \<Rightarrow> (u8 list \<times> u64) go" where
  "wasm_allocArenaBufferWithGuard place sz = wasm_allocArenaBuffer place sz"

definition wasm_newChunk :: "(int \<Rightarrow> u64) \<Rightarrow> int \<Rightarrow> bool \<Rightarrow> chunk go" where
  "wasm_newChunk place sz guardPages =
     (case (if guardPages then wasm_allocArenaBufferWithGuard place sz else wasm_allocArenaBuffer place sz) of
        Panic p \<Rightarrow> Panic p
      | Return (buf, b) \<Rightarrow> Return \<lparr>ch_buf = buf, ch_base = b, ch_off = 0, ch_release = Munmap\<rparr>)"

text \<open>Within the limit this is the other back end over a system that maps where \<^verbatim>\<open>make\<close> places, so the operations of
  the arenas are those of before over that system.\<close>

definition wasm_os :: "(int \<Rightarrow> u64) \<Rightarrow> os_env" where
  "wasm_os place = \<lparr>os_pagesize = 4096, os_mmap = (\<lambda>n. Inr (place n)), os_mprotect = None, os_munmap = (\<lambda>_ _. None)\<rparr>"

lemma wasm_newChunk_os:
  assumes "0 < sz" "sz \<le> wasm_maxAlloc"
  shows "newChunk (wasm_os place) sz False = Inr c \<longleftrightarrow> wasm_newChunk place sz g = Return c"
  using assms
  by (auto simp: newChunk_def allocArenaBuffer_def syscall_Mmap_def wasm_os_def wasm_newChunk_def wasm_allocArenaBuffer_def
      wasm_allocArenaBufferWithGuard_def)

text \<open>The functions that report a failure as an error elsewhere panic here, as the chunk is made by \<^verbatim>\<open>make\<close>.\<close>

lemma wasm_newChunk_panics:
  "wasm_maxAlloc < sz \<Longrightarrow> wasm_newChunk place sz g = Panic (PanicMsg ''makeslice: len out of range'')"
  by (simp add: wasm_newChunk_def wasm_allocArenaBuffer_def wasm_allocArenaBufferWithGuard_def)

text \<open>Chunks need not be aligned, and both arenas take a new chunk without room for padding: an allocation of a
  cache line panics in the local arena and fails in the shared one, with all of the memory free.\<close>

definition odd_place :: "int \<Rightarrow> u64" where "odd_place n = 160"

lemma wasm_local_panics:
  "\<exists>la la'. NewLocalArena (wasm_os odd_place) 80 = Return la \<and> LocalAllocCacheAligned (wasm_os odd_place) la 80 = (la', Panic SliceOutOfRange)"
proof -
  have c: "newChunk (wasm_os odd_place) 80 False = Inr \<lparr>ch_buf = replicate 80 0, ch_base = 160, ch_off = 0, ch_release = Munmap\<rparr>"
    by (simp add: newChunk_def allocArenaBuffer_def syscall_Mmap_def wasm_os_def odd_place_def)
  then have "NewLocalArena (wasm_os odd_place) 80 =
      Return \<lparr>la_chunks = [\<lparr>ch_buf = replicate 80 0, ch_base = 160, ch_off = 0, ch_release = Munmap\<rparr>], la_activeIdx = 0,
        la_chunkSize = 80, la_closed = False\<rparr>"
    by (simp add: NewLocalArena_def)
  moreover have "isPowerOfTwo 64" by (simp add: isPowerOfTwo_def)
  ultimately show ?thesis
    using c by (simp add: LocalAllocCacheAligned_def LocalAllocAligned_def CacheLineSize_def local_at_def local_offs_def
        growAndAlloc_def LocalCapacity_def slice_expr_def chunk_cap_def Let_def go_int_nonneg)
qed

lemma wasm_shared_fails:
  "\<exists>m a b. NewArena (wasm_os odd_place) 80 [] metrics0 = (m, Return a) \<and> TryAllocAligned (wasm_os odd_place) a 80 64 = (b, None)"
proof -
  let ?c = "\<lparr>ch_buf = replicate 80 0, ch_base = 160, ch_off = 0, ch_release = Munmap\<rparr>"
  have c: "newChunk (wasm_os odd_place) 80 False = Inr ?c"
    by (simp add: newChunk_def allocArenaBuffer_def syscall_Mmap_def wasm_os_def odd_place_def)
  let ?a = "(arena_config 80 [])\<lparr>ar_chunks := [?c], ar_active := Some 0\<rparr>"
  have "NewArena (wasm_os odd_place) 80 [] metrics0 = (RecordArenaCreated metrics0 80, Return ?a)"
    using c by (simp add: NewArena_def Let_def arena_config_def)
  moreover have "isPowerOfTwo 64" by (simp add: isPowerOfTwo_def)
  then have t: "chunk_tryAllocAligned ?c 80 64 = None"
    by (simp add: chunk_tryAllocAligned_def Let_def)
  have "snd (TryAllocAligned (wasm_os odd_place) ?a 80 64) = None"
    using t c \<open>isPowerOfTwo 64\<close>
    by (simp add: TryAllocAligned_def allocSlow_def grow_arena_def alloc_at_def chunk_alloc_def arena_config_def grow_size_def
        Capacity_def maxChunkSize_def Let_def go_int_nonneg)
  ultimately show ?thesis by (metis prod.collapse)
qed

end
