(* ===== verification/Region.thy ===== *)
theory Region
  imports Scope_Spec
begin

text \<open>
  The \<^verbatim>\<open>Region\<close> of \<^verbatim>\<open>arena.go\<close> as its clients use it: allocation through the region, and its life from
  \<^verbatim>\<open>NewRegion\<close> to \<^verbatim>\<open>Done\<close> with any use in between. The operations that make, reset and end a region are in Scope.
\<close>

section \<open>Allocation through a region\<close>

text \<open>None is a nil region; its scope is None after \<^verbatim>\<open>Done\<close>. A region with a scope has an arena.\<close>

definition RegionScope :: "'w go_region option \<Rightarrow> 'w scope option" where
  "RegionScope orr = (case orr of None \<Rightarrow> None | Some r \<Rightarrow> rg_scope r)"





section \<open>What allocation leaves alone\<close>

definition same_setup :: "arena \<Rightarrow> arena \<Rightarrow> bool" where
  "same_setup a b \<longleftrightarrow> ar_chunkSize b = ar_chunkSize a \<and> ar_closed b = ar_closed a"

lemma same_setup_refl [simp]: "same_setup a a"
  by (simp add: same_setup_def)









section \<open>The life of a region\<close>

















end
